(* ===== verification/Prelude.thy ===== *)
theory Prelude
  imports Main "HOL-Library.Word"
begin

text \<open>
  Shared vocabulary of the development: the C integer types at their widths, the \<open>for\<close> loop
  over an unsigned counter that most of the kernel's loops are instances of, and the generic
  lemmas about words that every component uses.

  The C types (\<^verbatim>\<open>src/src/libc/stdint.h\<close>) are words of HOL-Library.Word: \<open>+\<close>, \<open>-\<close> and \<open>*\<close> wrap
  around, as unsigned arithmetic does in C, and a cast between widths is \<open>ucast\<close> (zero
  extension or truncation) or \<open>scast\<close> (sign extension).
\<close>

unbundle bit_operations_syntax

section \<open>The C integer types\<close>

type_synonym u8 = "8 word"
type_synonym u16 = "16 word"
type_synonym u32 = "32 word"
type_synonym u64 = "64 word"

text \<open>A pointer is its 64-bit address.\<close>

type_synonym ptr = u64

section \<open>Collections of rewrite rules\<close>

named_theorems mem_simps \<open>reads of a memory after writes to it\<close>
named_theorems frame_simps \<open>the fields of the frame allocator after one of its operations\<close>
named_theorems bits_simps \<open>bit fields of packed words\<close>

section \<open>Counting words\<close>

lemma unat_Suc_less:
  fixes i n :: "'a::len word"
  assumes "i < n"
  shows "unat (i + 1) = Suc (unat i)"
proof -
  have "unat i < unat n" using assms by (simp add: word_less_nat_alt)
  moreover have "unat n < 2 ^ LENGTH('a)" by (rule unsigned_less)
  ultimately have "Suc (unat i) < 2 ^ LENGTH('a)" by linarith
  then show ?thesis by (simp add: unat_word_ariths)
qed

lemma word_of_unat [simp]: "(word_of_nat (unat w) :: 'a::len word) = w"
  by simp

lemma unat_of_nat_small:
  "k < 2 ^ LENGTH('a) \<Longrightarrow> unat (word_of_nat k :: 'a::len word) = k"
  by (simp add: unsigned_of_nat take_bit_nat_eq_self)

lemma Suc_unat_minus_one:
  fixes w :: "'a::len word"
  assumes "w \<noteq> 0"
  shows "Suc (unat (w - 1)) = unat w"
proof -
  from assms have "0 < unat w" by (simp add: unat_gt_0)
  with unat_minus_one [OF assms] show ?thesis by simp
qed

lemma unat64_less: "unat (w :: u64) < 2 ^ 64"
  using unsigned_less [of w] by simp

lemma unat_less_exp: "unat (w :: 'a::len word) < 2 ^ LENGTH('a)"
  by (rule unsigned_less)

lemma word_of_nat_eq_iff_unat:
  fixes w :: "'a::len word"
  assumes "k < 2 ^ LENGTH('a)"
  shows "word_of_nat k = w \<longleftrightarrow> unat w = k"
  using assms by (metis unat_of_nat_small word_of_unat)

lemma unat_ucast_up:
  "LENGTH('a) \<le> LENGTH('b) \<Longrightarrow> unat (ucast (w :: 'a::len word) :: 'b::len word) = unat w"
  by (metis unsigned_ucast_eq take_bit_nat_eq_self unsigned_less power_increasing
      one_le_numeral order_less_le_trans)

lemma ucast_of_nat_up:
  assumes "k < 2 ^ LENGTH('a)" "LENGTH('a) \<le> LENGTH('b)"
  shows "ucast (word_of_nat k :: 'a::len word) = (word_of_nat k :: 'b::len word)"
proof -
  have "k < 2 ^ LENGTH('b)"
    using assms by (meson less_le_trans one_le_numeral power_increasing)
  with assms show ?thesis
    by (simp add: word_unat_eq_iff unat_ucast_up unat_of_nat_small)
qed

section \<open>The C \<open>for\<close> loop over an unsigned counter\<close>

text \<open>
  \<open>for (i = lo; i < bound; i++) body\<close>: the bound is evaluated again before every round, in the
  state the body left. Whatever the bound does, the loop ends: no word is larger than the
  largest counter value, so the counter never wraps.
\<close>

function for_bound ::
  "'a::len word \<Rightarrow> ('s \<Rightarrow> 'a word) \<Rightarrow> ('a word \<Rightarrow> 's \<Rightarrow> 's) \<Rightarrow> 's \<Rightarrow> 's" where
  "for_bound i b f s = (if i < b s then for_bound (i + 1) b f (f i s) else s)"
  by pat_completeness auto
termination
proof (relation "measure (\<lambda>(i :: 'a word, b, f, s). 2 ^ LENGTH('a) - unat i)", goal_cases)
  case 1
  show ?case by simp
next
  case (2 i b f s)
  from unat_Suc_less [OF this] have "unat (i + 1) = Suc (unat i)" .
  moreover have "unat i < 2 ^ LENGTH('a)" by (rule unsigned_less)
  ultimately have "2 ^ LENGTH('a) - unat (i + 1) < 2 ^ LENGTH('a) - unat i" by linarith
  then show ?case by simp
qed

declare for_bound.simps [simp del]

lemma for_bound_done: "\<not> i < b s \<Longrightarrow> for_bound i b f s = s"
  by (subst for_bound.simps) simp

lemma for_bound_step: "i < b s \<Longrightarrow> for_bound i b f s = for_bound (i + 1) b f (f i s)"
  by (subst for_bound.simps) simp

text \<open>The loop whose bound is a constant is a fold over the numbers it counts through.\<close>

abbreviation for_range :: "'a::len word \<Rightarrow> 'a word \<Rightarrow> ('a word \<Rightarrow> 's \<Rightarrow> 's) \<Rightarrow> 's \<Rightarrow> 's" where
  "for_range i n \<equiv> for_bound i (\<lambda>_. n)"

lemma for_range_fold:
  fixes i n :: "'a::len word"
  shows "for_range i n f s = fold (\<lambda>k. f (word_of_nat k)) [unat i..<unat n] s"
proof (induction i "\<lambda>_ :: 'b. n" f s rule: for_bound.induct)
  case (1 i f s)
  show ?case
  proof (cases "i < n")
    case True
    then have "unat i < unat n" by (simp add: word_less_nat_alt)
    with True "1" show ?thesis
      by (simp add: for_bound_step unat_Suc_less upt_conv_Cons)
  next
    case False
    then have "\<not> unat i < unat n" by (simp add: word_less_nat_alt)
    with False show ?thesis by (simp add: for_bound_done)
  qed
qed

text \<open>
  The Hoare rule for a loop from 0: the invariant is indexed by the number of rounds done and
  fixes the value of the bound.
\<close>

lemma for_bound_invariant_from:
  fixes i n :: "'a::len word"
  assumes "P (unat i) s" "i \<le> n"
    and "\<And>k s. P k s \<Longrightarrow> b s = n"
    and "\<And>k s. k < unat n \<Longrightarrow> P k s \<Longrightarrow> P (Suc k) (f (word_of_nat k) s)"
  shows "P (unat n) (for_bound i b f s)"
  using assms(1,2)
proof (induction "unat n - unat i" arbitrary: i s)
  case 0
  then have "i = n" by (simp add: word_le_nat_alt word_unat_eq_iff)
  with 0 assms(3) show ?case by (simp add: for_bound_done)
next
  case (Suc d)
  then have lt: "i < n" "unat i < unat n" by (simp_all add: word_less_nat_alt)
  then have S: "unat (i + 1) = Suc (unat i)" by (simp add: unat_Suc_less)
  have "P (unat (i + 1)) (f i s)"
    using assms(4) [OF lt(2) Suc.prems(1)] S by simp
  moreover have "i + 1 \<le> n" using S lt by (simp add: word_le_nat_alt)
  ultimately have "P (unat n) (for_bound (i + 1) b f (f i s))"
    using Suc.hyps(1) [of "i + 1"] Suc.hyps(2) S by simp
  with lt assms(3) [OF Suc.prems(1)] show ?case by (simp add: for_bound_step)
qed

lemma for_bound_invariant:
  fixes n :: "'a::len word"
  assumes "P 0 s"
    and "\<And>k s. P k s \<Longrightarrow> b s = n"
    and "\<And>k s. k < unat n \<Longrightarrow> P k s \<Longrightarrow> P (Suc k) (f (word_of_nat k) s)"
  shows "P (unat n) (for_bound 0 b f s)"
  using for_bound_invariant_from [of P 0 s n b f] assms by simp

text \<open>A loop whose body does not change its bound.\<close>

lemma for_bound_constant:
  fixes b :: "'s \<Rightarrow> 'a::len word"
  assumes "\<And>k s. b (f k s) = b s"
  shows "for_bound i b f s = for_range i (b s) f s"
  using assms
proof (induction i b f s rule: for_bound.induct)
  case (1 i b f s)
  then show ?case
    by (cases "i < b s") (simp_all add: for_bound_done for_bound_step)
qed

section \<open>Lists\<close>

lemma count_list_update:
  "i < length xs \<Longrightarrow> count_list (xs[i := v]) w + (if xs ! i = w then 1 else 0)
     = count_list xs w + (if v = w then 1 else 0)"
proof (induction xs arbitrary: i)
  case Nil
  then show ?case by simp
next
  case (Cons x xs)
  then show ?case by (cases i) fastforce+
qed

lemma count_list_pos: "i < length xs \<Longrightarrow> 0 < count_list xs (xs ! i)"
  by (metis count_list_0_iff gr0I nth_mem)

text \<open>The position of the first element with a property.\<close>

fun first_index :: "('a \<Rightarrow> bool) \<Rightarrow> 'a list \<Rightarrow> nat option" where
  "first_index P [] = None"
| "first_index P (x # xs) = (if P x then Some 0 else map_option Suc (first_index P xs))"

lemma first_index_Some:
  "first_index P xs = Some i \<longleftrightarrow> i < length xs \<and> P (xs ! i) \<and> (\<forall>j < i. \<not> P (xs ! j))"
proof (induction xs arbitrary: i)
  case Nil
  show ?case by simp
next
  case (Cons x xs)
  show ?case
    by (cases i) (auto simp: Cons.IH All_less_Suc2)
qed

lemma first_index_None: "first_index P xs = None \<longleftrightarrow> (\<forall>x \<in> set xs. \<not> P x)"
  by (induction xs) auto

end
