(* ===== verification/Memory.thy ===== *)
theory Memory
  imports Prelude
begin

text \<open>
  The byte-addressed memory the kernel runs on and the little-endian loads and stores a C
  access through a pointer compiles to on x86-64. Every structure that the kernel reaches
  through a pointer (page tables, the array of page frames, the firmware's tables, strings,
  the framebuffer) lives in this memory, so that aliasing is part of the model.
\<close>

unbundle bit_operations_syntax

section \<open>Loads and stores\<close>

type_synonym mem = "ptr \<Rightarrow> u8"

primrec load_le :: "nat \<Rightarrow> mem \<Rightarrow> ptr \<Rightarrow> u64" where
  "load_le 0 m a = 0"
| "load_le (Suc n) m a = ucast (m a) OR push_bit 8 (load_le n m (a + 1))"

primrec store_le :: "nat \<Rightarrow> ptr \<Rightarrow> u64 \<Rightarrow> mem \<Rightarrow> mem" where
  "store_le 0 a v m = m"
| "store_le (Suc n) a v m = store_le n (a + 1) (drop_bit 8 v) (m(a := ucast v))"

definition load8 :: "mem \<Rightarrow> ptr \<Rightarrow> u8" where
  "load8 m a = m a"

definition load16 :: "mem \<Rightarrow> ptr \<Rightarrow> u16" where
  "load16 m a = ucast (load_le 2 m a)"

definition load32 :: "mem \<Rightarrow> ptr \<Rightarrow> u32" where
  "load32 m a = ucast (load_le 4 m a)"

definition load64 :: "mem \<Rightarrow> ptr \<Rightarrow> u64" where
  "load64 m a = load_le 8 m a"

definition store8 :: "ptr \<Rightarrow> u8 \<Rightarrow> mem \<Rightarrow> mem" where
  "store8 a v m = m(a := v)"

definition store16 :: "ptr \<Rightarrow> u16 \<Rightarrow> mem \<Rightarrow> mem" where
  "store16 a v = store_le 2 a (ucast v)"

definition store32 :: "ptr \<Rightarrow> u32 \<Rightarrow> mem \<Rightarrow> mem" where
  "store32 a v = store_le 4 a (ucast v)"

definition store64 :: "ptr \<Rightarrow> u64 \<Rightarrow> mem \<Rightarrow> mem" where
  "store64 a v = store_le 8 a v"

section \<open>Regions\<close>

text \<open>The \<open>n\<close> bytes from \<open>a\<close> on (around the end of the address space if need be).\<close>

definition region :: "ptr \<Rightarrow> nat \<Rightarrow> ptr set" where
  "region a n = {x. unat (x - a) < n}"

lemma region_iff: "x \<in> region a n \<longleftrightarrow> unat (x - a) < n"
  by (simp add: region_def)

lemma region_mono: "n \<le> k \<Longrightarrow> region a n \<subseteq> region a k"
  by (auto simp: region_def)

lemma region_0 [simp]: "region a 0 = {}"
  by (simp add: region_def)

lemma region_start [simp]: "a \<in> region a n \<longleftrightarrow> 0 < n"
  by (simp add: region_def)

lemma region_eq_empty [simp]: "region a n = {} \<longleftrightarrow> n = 0"
  using region_start [of a n] by (metis empty_iff gr0I region_0)

lemma region_subset_start: "region a n \<subseteq> S \<Longrightarrow> 0 < n \<Longrightarrow> a \<in> S"
  by (metis region_start subsetD)

lemma region_offset: "k < n \<Longrightarrow> k < 2 ^ 64 \<Longrightarrow> a + word_of_nat k \<in> region a n"
  by (simp add: region_def unat_of_nat_small)

text \<open>Region membership without wrap-around: an interval of addresses.\<close>

lemma region_interval:
  assumes "unat a + n \<le> 2 ^ 64"
  shows "x \<in> region a n \<longleftrightarrow> unat a \<le> unat x \<and> unat x < unat a + n"
proof (cases "a \<le> x")
  case True
  then have "unat (x - a) = unat x - unat a" "unat a \<le> unat x"
    by (simp_all add: unat_sub word_le_nat_alt)
  then show ?thesis by (auto simp: region_iff)
next
  case False
  then have lt: "unat x < unat a" by (simp add: word_le_nat_alt)
  have "unat (x - a) = 2 ^ 64 + unat x - unat a"
    using lt by (simp add: unat_sub_if')
  with lt assms show ?thesis by (auto simp: region_iff)
qed

lemma regions_apart:
  assumes "unat a + n \<le> unat b" "unat b + k \<le> 2 ^ 64"
  shows "region a n \<inter> region b k = {}"
  using assms by (auto simp: region_interval)

lemma region_sub:
  assumes "unat (b - a) + k \<le> n" "n \<le> 2 ^ 64"
  shows "region b k \<subseteq> region a n"
proof
  fix x assume "x \<in> region b k"
  then have x: "unat (x - b) < k" by (simp add: region_iff)
  have "x - a = (x - b) + (b - a)" by simp
  then have "unat (x - a) \<le> unat (x - b) + unat (b - a)"
    by (metis diff_le_self nat_le_linear unat_plus_if')
  with x assms show "x \<in> region a n" by (simp add: region_iff)
qed


lemma region_word_of_nat_less:
  assumes "n \<le> 2 ^ 64"
  shows "region a n = (\<lambda>k. a + word_of_nat k) ` {..<n}"
proof (intro equalityI subsetI)
  fix x assume "x \<in> region a n"
  then have "unat (x - a) < n" and "x = a + word_of_nat (unat (x - a))"
    by (simp_all add: region_iff)
  then show "x \<in> (\<lambda>k. a + word_of_nat k) ` {..<n}" by blast
next
  fix x assume "x \<in> (\<lambda>k. a + word_of_nat k) ` {..<n}"
  with assms show "x \<in> region a n" by (auto intro!: region_offset)
qed

lemma region_not_before: "n < 2 ^ 64 \<Longrightarrow> a \<notin> region (a + 1) n"
  by (simp add: region_iff unsigned_minus_1_eq_mask mask_eq_exp_minus_1)

lemma region_Suc:
  assumes "x \<noteq> a"
  shows "x \<in> region a (Suc n) \<longleftrightarrow> x \<in> region (a + 1) n"
    and "unat (x - a) = Suc (unat (x - (a + 1)))"
proof -
  have "x - a = 1 + (x - (a + 1))" by simp
  moreover from assms have "x - a \<noteq> 0" by simp
  ultimately show eq: "unat (x - a) = Suc (unat (x - (a + 1)))"
    by (metis unatSuc)
  then show "x \<in> region a (Suc n) \<longleftrightarrow> x \<in> region (a + 1) n"
    by (simp add: region_iff)
qed

text \<open>
  A pointer into an object by its byte offset, and a region inside an object by the offset of
  its start. The offset stays a number of \<open>nat\<close> arithmetic.
\<close>

definition off_ptr :: "ptr \<Rightarrow> nat \<Rightarrow> ptr" where
  "off_ptr a k = a + word_of_nat k"

lemma off_ptr_in_region [simp]: "off_ptr a k \<in> region (off_ptr a k) n \<longleftrightarrow> 0 < n"
  by simp

lemma region_shift:
  assumes "k + n \<le> 2 ^ 64" "k < 2 ^ 64"
  shows "x \<in> region (off_ptr a k) n \<longleftrightarrow> k \<le> unat (x - a) \<and> unat (x - a) < k + n"
proof -
  have "x - (a + word_of_nat k) = (x - a) - word_of_nat k" by simp
  then have "x \<in> region (a + word_of_nat k) n \<longleftrightarrow> x - a \<in> region (word_of_nat k) n"
    by (simp only: region_iff)
  also have "\<dots> \<longleftrightarrow> k \<le> unat (x - a) \<and> unat (x - a) < k + n"
    using assms region_interval [of "word_of_nat k" n "x - a"]
    by (simp add: unat_of_nat_small)
  finally show ?thesis unfolding off_ptr_def .
qed

section \<open>What a store changes and what a load sees\<close>

lemma store_le_apply:
  "n \<le> 8 \<Longrightarrow> store_le n a v m x =
    (if x \<in> region a n then ucast (drop_bit (8 * unat (x - a)) v) else m x)"
proof (induction n arbitrary: a v m)
  case 0
  show ?case by simp
next
  case (Suc n)
  have IH: "store_le n (a + 1) (drop_bit 8 v) (m(a := ucast v)) x =
      (if x \<in> region (a + 1) n then ucast (drop_bit (8 * unat (x - (a + 1))) (drop_bit 8 v))
       else (m(a := ucast v)) x)"
    using Suc by simp
  show ?case
  proof (cases "x = a")
    case True
    with IH Suc.prems show ?thesis by (simp add: region_not_before)
  next
    case False
    with IH region_Suc [OF False] show ?thesis
      by (simp add: drop_bit_drop_bit add.commute)
  qed
qed

lemma store_le_outside [mem_simps]:
  "x \<notin> region a n \<Longrightarrow> n \<le> 8 \<Longrightarrow> store_le n a v m x = m x"
  by (simp add: store_le_apply)

lemma load_le_cong:
  "(\<And>x. x \<in> region a n \<Longrightarrow> m x = m' x) \<Longrightarrow> n \<le> 8 \<Longrightarrow> load_le n m a = load_le n m' a"
proof (induction n arbitrary: a)
  case 0
  show ?case by simp
next
  case (Suc n)
  have "region (a + 1) n \<subseteq> region a (Suc n)"
    by (rule region_sub) (use Suc.prems(2) in simp_all)
  then have "load_le n m (a + 1) = load_le n m' (a + 1)"
    using Suc by (intro Suc.IH) auto
  with Suc.prems(1) [of a] show ?case by simp
qed

lemma load_store_le_same: "n \<le> 8 \<Longrightarrow> load_le n (store_le n a v m) a = take_bit (8 * n) v"
proof (induction n arbitrary: a v m)
  case 0
  show ?case by simp
next
  case (Suc n)
  have "a \<notin> region (a + 1) n"
    using Suc.prems by (simp add: region_not_before)
  then have "store_le n (a + 1) (drop_bit 8 v) (m(a := ucast v)) a = ucast v"
    using Suc.prems by (simp add: store_le_outside)
  moreover have "(ucast (ucast v :: u8) :: u64) OR push_bit 8 (take_bit (8 * n) (drop_bit 8 v))
      = take_bit (8 * Suc n) v"
    by (rule bit_word_eqI) (auto simp: bit_simps)
  ultimately show ?case using Suc by simp
qed

lemma load_store_le_disjoint [mem_simps]:
  assumes "region a n \<inter> region b k = {}" "n \<le> 8" "k \<le> 8"
  shows "load_le n (store_le k b v m) a = load_le n m a"
  using assms by (intro load_le_cong) (auto intro!: store_le_outside)

lemma store8_apply: "store8 a v m x = (if x = a then v else m x)"
  by (simp add: store8_def)

lemma load64_store64_same [simp, mem_simps]: "load64 (store64 a v m) a = v"
  by (simp add: load64_def store64_def load_store_le_same take_bit_word_eq_self)

lemma load32_store32_same [simp, mem_simps]: "load32 (store32 a v m) a = v"
proof -
  have "(ucast (take_bit 32 (ucast v :: u64)) :: u32) = v"
    by (rule bit_word_eqI) (auto simp: bit_simps)
  then show ?thesis by (simp add: load32_def store32_def load_store_le_same)
qed

lemma load8_store8 [simp, mem_simps]: "load8 (store8 a v m) b = (if a = b then v else load8 m b)"
  by (simp add: load8_def store8_def)

section \<open>Typed accesses to separate objects\<close>

lemmas load_defs = load8_def load16_def load32_def load64_def
lemmas store_defs = store8_def store16_def store32_def store64_def

lemma store64_outside [mem_simps]: "x \<notin> region a 8 \<Longrightarrow> store64 a v m x = m x"
  by (simp add: store64_def store_le_outside)

lemma store32_outside [mem_simps]: "x \<notin> region a 4 \<Longrightarrow> store32 a v m x = m x"
  by (simp add: store32_def store_le_outside)

lemma store8_outside [mem_simps]: "x \<notin> region a 1 \<Longrightarrow> store8 a v m x = m x"
  by (auto simp: store8_def region_iff)

lemma load64_cong: "(\<And>x. x \<in> region a 8 \<Longrightarrow> m x = m' x) \<Longrightarrow> load64 m a = load64 m' a"
  unfolding load64_def by (rule load_le_cong) simp_all

lemma load32_cong: "(\<And>x. x \<in> region a 4 \<Longrightarrow> m x = m' x) \<Longrightarrow> load32 m a = load32 m' a"
  unfolding load32_def by (rule arg_cong [where f = ucast], rule load_le_cong) simp_all

lemma load8_cong: "m a = m' a \<Longrightarrow> load8 m a = load8 m' a"
  by (simp add: load8_def)

lemma load64_store64_disjoint [mem_simps]:
  "region a 8 \<inter> region b 8 = {} \<Longrightarrow> load64 (store64 b v m) a = load64 m a"
  by (simp add: load64_def store64_def load_store_le_disjoint)

lemma load64_store8_disjoint [mem_simps]:
  "b \<notin> region a 8 \<Longrightarrow> load64 (store8 b v m) a = load64 m a"
  by (rule load64_cong) (auto simp: store8_def)

lemma load8_store64_disjoint [mem_simps]:
  "a \<notin> region b 8 \<Longrightarrow> load8 (store64 b v m) a = load8 m a"
  by (rule load8_cong) (rule store64_outside)

text \<open>The loads of zeroed memory.\<close>

lemma load_le_zero: "(\<And>x. x \<in> region a n \<Longrightarrow> m x = 0) \<Longrightarrow> n \<le> 8 \<Longrightarrow> load_le n m a = 0"
proof -
  assume z: "\<And>x. x \<in> region a n \<Longrightarrow> m x = 0" and n: "n \<le> 8"
  have zero: "load_le k (\<lambda>_. 0) b = 0" for k b
    by (induction k arbitrary: b) simp_all
  from z n have "load_le n m a = load_le n (\<lambda>_. 0) a"
    by (intro load_le_cong) simp_all
  with zero show "load_le n m a = 0" by simp
qed

lemma load64_zero: "(\<And>x. x \<in> region a 8 \<Longrightarrow> m x = 0) \<Longrightarrow> load64 m a = 0"
  unfolding load64_def by (rule load_le_zero) simp_all

text \<open>The last of several stores to one address wins.\<close>

lemma store64_twice [mem_simps]: "store64 a v (store64 a u m) = store64 a v m"
  by (rule ext) (simp add: store64_def store_le_apply)

section \<open>Bits of a load\<close>

lemma bit_load_le:
  "n \<le> 8 \<Longrightarrow> bit (load_le n m a) i \<longleftrightarrow> i < 8 * n \<and> bit (m (a + word_of_nat (i div 8))) (i mod 8)"
proof (induction n arbitrary: a i)
  case 0
  show ?case by simp
next
  case (Suc n)
  show ?case
  proof (cases "i < 8")
    case True
    with Suc.prems show ?thesis by (auto simp: bit_simps)
  next
    case False
    then obtain k where k: "i = k + 8" by (metis add.commute le_Suc_ex not_less)
    have "\<not> bit (ucast (m a) :: u64) i"
      using k by (auto simp: bit_simps dest: bit_imp_le_length)
    moreover have "bit (push_bit 8 (load_le n m (a + 1)) :: u64) i
        \<longleftrightarrow> i < 64 \<and> bit (load_le n m (a + 1)) k"
      using k by (auto simp: bit_simps)
    moreover have "i div 8 = Suc (k div 8)" using k by simp
    then have "a + 1 + word_of_nat (k div 8) = a + word_of_nat (i div 8)" by simp
    ultimately show ?thesis
      using Suc k by (auto simp: bit_or_iff)
  qed
qed

text \<open>A 64-bit store read back as two 32-bit words.\<close>

lemma load32_store64_low: "load32 (store64 a v m) a = ucast v"
proof (rule bit_word_eqI)
  fix i assume "i < LENGTH(32)"
  then have i: "i < 32" "i div 8 < 4" by simp_all
  then have "store64 a v m (a + word_of_nat (i div 8)) = ucast (drop_bit (8 * (i div 8)) v)"
    by (simp add: store64_def store_le_apply region_iff unat_of_nat_small)
  then show "bit (load32 (store64 a v m) a) i \<longleftrightarrow> bit (ucast v :: u32) i"
    using i by (simp add: load32_def bit_load_le bit_simps)
qed

lemma load32_store64_high: "load32 (store64 a v m) (a + 4) = ucast (drop_bit 32 v)"
proof (rule bit_word_eqI)
  fix i assume "i < LENGTH(32)"
  then have i: "i < 32" "i div 8 < 4" by simp_all
  have "(4 :: u64) + word_of_nat (i div 8) = word_of_nat (4 + i div 8)" by simp
  then have eq: "a + 4 + word_of_nat (i div 8) = a + word_of_nat (4 + i div 8)"
    by (metis add.assoc)
  have "store64 a v m (a + word_of_nat (4 + i div 8)) = ucast (drop_bit (8 * (4 + i div 8)) v)"
    using i by (simp add: store64_def store_le_apply region_iff unat_of_nat_small del: of_nat_add)
  moreover have "32 + 8 * (i div 8) + i mod 8 = 32 + i" by simp
  ultimately show "bit (load32 (store64 a v m) (a + 4)) i
      \<longleftrightarrow> bit (ucast (drop_bit 32 v) :: u32) i"
    using i by (simp add: load32_def bit_load_le bit_simps add.assoc)
qed

lemma load32_store64_disjoint [mem_simps]:
  "region a 4 \<inter> region b 8 = {} \<Longrightarrow> load32 (store64 b v m) a = load32 m a"
  by (rule load32_cong) (auto intro: store64_outside)

section \<open>Aligned regions\<close>

lemma aligned_regions_disjoint:
  fixes a b :: ptr
  assumes k: "k < 64" and "take_bit k a = 0" "take_bit k b = 0" "a \<noteq> b"
  shows "region a (2 ^ k) \<inter> region b (2 ^ k) = {}"
proof -
  have eq: "drop_bit k x = drop_bit k c" if "take_bit k c = 0" "x \<in> region c (2 ^ k)" for x c :: u64
  proof -
    define d where "d = x - c"
    have d: "unat d < 2 ^ k" and x: "x = c + d"
      using that(2) by (simp_all add: region_iff d_def)
    have tb: "take_bit k d = d"
      using d by (simp add: word_unat_eq_iff unsigned_take_bit_eq take_bit_nat_eq_self)
    have disj: "c AND d = 0"
    proof (rule bit_word_eqI)
      fix i assume "i < LENGTH(64)"
      from that(1) have "bit (take_bit k c) i \<longleftrightarrow> False" by simp
      moreover from tb have "bit (take_bit k d) i \<longleftrightarrow> bit d i" by simp
      ultimately show "bit (c AND d) i \<longleftrightarrow> bit (0 :: u64) i"
        by (auto simp: bit_simps)
    qed
    have "x = c OR d" unfolding x by (rule disjunctive_add_eq_or [OF disj])
    moreover have "drop_bit k d = 0"
      by (subst tb [symmetric]) (simp add: drop_bit_take_bit)
    ultimately show ?thesis by simp
  qed
  have "a = b" if "x \<in> region a (2 ^ k)" "x \<in> region b (2 ^ k)" for x
    using eq [OF assms(2) that(1)] eq [OF assms(3) that(2)] assms(2,3)
    by (metis bits_ident add.right_neutral)
  with assms(4) show ?thesis by blast
qed

end
