(* ===== verification/Framebuffer.thy ===== *)
theory Framebuffer
  imports Memory
begin

text \<open>
  Colours and the framebuffer: \<^verbatim>\<open>src/src/framebuffer/colors.c\<close>, \<^verbatim>\<open>colors.h\<close>, \<^verbatim>\<open>framebuffer.c\<close> and
  \<^verbatim>\<open>framebuffer.h\<close>. \<open>fb\<close> is the pointer \<^verbatim>\<open>kernel.framebuffer\<close>: the structure it points to is read
  from memory again wherever the code reads it.
\<close>

unbundle bit_operations_syntax

section \<open>Colours\<close>

definition rgb_to_int :: "u8 \<Rightarrow> u8 \<Rightarrow> u8 \<Rightarrow> u64" where
  "rgb_to_int red green blue =
     (let r0 = ucast blue;
          r1 = r0 + scast (push_bit 8 (ucast green :: u32))
      in r1 + scast (push_bit 16 (ucast red :: u32)))"

text \<open>The macro of the same name in \<^verbatim>\<open>colors.h\<close>, on arguments of type \<^verbatim>\<open>int\<close>.\<close>

definition RGB :: "u32 \<Rightarrow> u32 \<Rightarrow> u32 \<Rightarrow> u64" where
  "RGB r g b = scast ((b AND 255) OR push_bit 8 (g AND 255) OR push_bit 16 (r AND 255))"

abbreviation BLACK :: u64 where "BLACK \<equiv> RGB 0 0 0"
abbreviation WHITE :: u64 where "WHITE \<equiv> RGB 255 255 255"
abbreviation BLUE :: u64 where "BLUE \<equiv> RGB 0 0 255"

section \<open>The framebuffer\<close>

record Framebuffer =
  base_address :: ptr
  buffer_size :: u64
  width :: u16
  height :: u16
  pixels_per_scanline :: u16
  bytes_per_pixel :: u8

definition framebuffer_at :: "mem \<Rightarrow> ptr \<Rightarrow> Framebuffer" where
  "framebuffer_at m fb = \<lparr>base_address = load64 m fb, buffer_size = load64 m (fb + 8),
     width = load16 m (fb + 16), height = load16 m (fb + 18),
     pixels_per_scanline = load16 m (fb + 20), bytes_per_pixel = load8 m (fb + 22)\<rparr>"

text \<open>The products are of type \<^verbatim>\<open>int\<close> and are sign-extended when they are added to a pointer.\<close>

definition pixel_ptr :: "Framebuffer \<Rightarrow> u16 \<Rightarrow> u16 \<Rightarrow> ptr" where
  "pixel_ptr f x y = base_address f
     + scast (ucast y * ucast (pixels_per_scanline f) * ucast (bytes_per_pixel f) :: u32)
     + scast (ucast x * ucast (bytes_per_pixel f) :: u32)"

definition Framebuffer__set_pixel :: "ptr \<Rightarrow> u16 \<Rightarrow> u16 \<Rightarrow> u64 \<Rightarrow> mem \<Rightarrow> mem" where
  "Framebuffer__set_pixel fb x y color m = store64 (pixel_ptr (framebuffer_at m fb) x y) color m"

definition Framebuffer__set_all_pixels :: "ptr \<Rightarrow> u64 \<Rightarrow> mem \<Rightarrow> mem" where
  "Framebuffer__set_all_pixels fb color m =
     for_bound 0 (\<lambda>m. width (framebuffer_at m fb))
       (\<lambda>x. for_bound 0 (\<lambda>m. height (framebuffer_at m fb))
         (\<lambda>y. Framebuffer__set_pixel fb x y color)) m"

record Glyph =
  g_bitmap :: ptr
  g_x_off :: u16
  g_y_off :: u16
  g_height :: u8
  g_width :: u8
  g_fg_color :: u32
  g_bg_color :: u32

text \<open>
  The loop state is the memory and the pointer \<^verbatim>\<open>glyph->bitmap\<close>. A \<^verbatim>\<open>char\<close> is signed, so the
  byte is sign-extended to \<^verbatim>\<open>int\<close> before it is masked.
\<close>

definition Framebuffer__print_glyph :: "ptr \<Rightarrow> Glyph \<Rightarrow> mem \<Rightarrow> mem" where
  "Framebuffer__print_glyph fb glyph m =
     fst (for_bound (0 :: u16) (\<lambda>_. ucast (g_height glyph))
       (\<lambda>y (m, bitmap).
          (for_bound (0 :: u16) (\<lambda>_. ucast (g_width glyph))
             (\<lambda>x m.
                let color = (if 0 <s (scast (load8 m bitmap) :: u32) AND drop_bit (unat x) 0x80
                             then ucast (g_fg_color glyph) else ucast (g_bg_color glyph))
                in Framebuffer__set_pixel fb (x + g_x_off glyph) (y + g_y_off glyph) color m) m,
           bitmap + 1))
       (m, g_bitmap glyph))"

section \<open>Pixels of four bytes by their number\<close>

definition pix :: "ptr \<Rightarrow> mem \<Rightarrow> nat \<Rightarrow> u32" where
  "pix base m q = load32 m (off_ptr base (4 * q))"

definition painted :: "ptr \<Rightarrow> (nat \<times> u64) list \<Rightarrow> mem \<Rightarrow> mem" where
  "painted base ws m = fold (\<lambda>(p, v). store64 (off_ptr base (4 * p)) v) ws m"

lemma painted_simps [simp]:
  "painted base [] m = m"
  "painted base (ws @ us) m = painted base us (painted base ws m)"
  "painted base ((p, v) # ws) m = painted base ws (store64 (off_ptr base (4 * p)) v m)"
  by (simp_all add: painted_def)

text \<open>\<^verbatim>\<open>Framebuffer__set_pixel\<close> writes eight bytes: the pixel and its right neighbour.\<close>

lemma pix_store:
  assumes "4 * p + 8 \<le> 2 ^ 64" "4 * q + 4 \<le> 2 ^ 64"
  shows "pix base (store64 (off_ptr base (4 * p)) v m) q
    = (if q = p then ucast v else if q = p + 1 then ucast (drop_bit 32 v) else pix base m q)"
proof -
  have next4: "off_ptr base (4 + 4 * p) = off_ptr base (4 * p) + 4"
    by (simp add: off_ptr_def algebra_simps)
  have disj: "region (off_ptr base (4 * q)) 4 \<inter> region (off_ptr base (4 * p)) 8 = {}"
    if "q \<noteq> p" "q \<noteq> p + 1"
  proof -
    have q: "x \<in> region (off_ptr base (4 * q)) 4 \<longleftrightarrow> 4 * q \<le> unat (x - base) \<and> unat (x - base) < 4 * q + 4"
      for x by (rule region_shift) (use assms(2) in simp_all)
    have p: "x \<in> region (off_ptr base (4 * p)) 8 \<longleftrightarrow> 4 * p \<le> unat (x - base) \<and> unat (x - base) < 4 * p + 8"
      for x by (rule region_shift) (use assms(1) in simp_all)
    have "False" if "4 * q \<le> u" "u < 4 * q + 4" "4 * p \<le> u" "u < 4 * p + 8" for u
      using that \<open>q \<noteq> p\<close> \<open>q \<noteq> p + 1\<close> by linarith
    then show ?thesis unfolding disjoint_iff p q by blast
  qed
  show ?thesis
    using disj load32_store64_high [of "off_ptr base (4 * p)" v m]
    by (auto simp: pix_def load32_store64_low load32_store64_disjoint next4)
qed

lemma painted_kept:
  assumes "\<forall>(p, v) \<in> set ws. 4 * p + 8 \<le> 2 ^ 64 \<and> q \<noteq> p \<and> q \<noteq> p + 1" "4 * q + 4 \<le> 2 ^ 64"
  shows "pix base (painted base ws m) q = pix base m q"
  using assms(1)
proof (induction ws arbitrary: m)
  case (Cons w ws)
  then show ?case using assms(2) by (cases w) (simp add: pix_store)
qed simp

text \<open>The last write that touches a pixel decides it.\<close>

lemma painted_last:
  assumes "\<forall>(p', v') \<in> set vs. 4 * p' + 8 \<le> 2 ^ 64 \<and> q \<noteq> p' \<and> q \<noteq> p' + 1"
    and "4 * p + 8 \<le> 2 ^ 64" "q = p \<or> q = p + 1"
  shows "pix base (painted base (us @ (p, v) # vs) m) q
    = (if q = p then ucast v else ucast (drop_bit 32 v))"
proof -
  have "4 * q + 4 \<le> 2 ^ 64" using assms(2,3) by auto
  with assms show ?thesis by (auto simp: painted_kept pix_store)
qed

lemma painted_outside:
  assumes "\<forall>(p, v) \<in> set ws. 4 * p + 8 \<le> n" "n \<le> 2 ^ 64" "x \<notin> region base n"
  shows "painted base ws m x = m x"
  using assms(1)
proof (induction ws arbitrary: m)
  case (Cons w ws)
  obtain p v where w: "w = (p, v)" by (cases w)
  have "region (off_ptr base (4 * p)) 8 \<subseteq> region base n"
  proof
    fix y assume "y \<in> region (off_ptr base (4 * p)) 8"
    then have "unat (y - base) < 4 * p + 8"
      using Cons.prems w assms(2) by (subst (asm) region_shift) auto
    then show "y \<in> region base n" using Cons.prems w by (auto simp: region_iff)
  qed
  then have "x \<notin> region (off_ptr base (4 * p)) 8" using assms(3) by auto
  with Cons w show ?case by (simp add: store64_outside)
qed simp

section \<open>A framebuffer of four-byte pixels\<close>

text \<open>
  Pixels of four bytes, scan lines at least as long as the lines shown, an area (and the four
  bytes after it, which the last pixel's store reaches) that the \<^verbatim>\<open>int\<close> arithmetic can address
  and that does not overlap the structure.
\<close>

definition fb_area :: "Framebuffer \<Rightarrow> nat" where
  "fb_area f = unat (pixels_per_scanline f) * unat (height f)"

definition fb_ready :: "mem \<Rightarrow> ptr \<Rightarrow> bool" where
  "fb_ready m fb \<longleftrightarrow> (let f = framebuffer_at m fb in bytes_per_pixel f = 4
     \<and> width f \<le> pixels_per_scanline f \<and> 4 * fb_area f + 4 \<le> 2 ^ 31
     \<and> region fb 24 \<inter> region (base_address f) (4 * fb_area f + 4) = {})"

text \<open>The number of a pixel.\<close>

definition pixel_no :: "Framebuffer \<Rightarrow> nat \<Rightarrow> nat \<Rightarrow> nat" where
  "pixel_no f x y = y * unat (pixels_per_scanline f) + x"

lemma pixel_no_less:
  assumes "x < unat (pixels_per_scanline f)" "y < unat (height f)"
  shows "pixel_no f x y < fb_area f"
proof -
  have "pixel_no f x y < (y + 1) * unat (pixels_per_scanline f)"
    using assms(1) by (simp add: pixel_no_def)
  also have "\<dots> \<le> fb_area f"
    unfolding fb_area_def mult.commute [of _ "unat (height f)"]
    using assms(2) by (intro mult_le_mono) simp_all
  finally show ?thesis .
qed

lemma pixel_no_inj:
  assumes "x < unat (pixels_per_scanline f)" "x' < unat (pixels_per_scanline f)"
  shows "pixel_no f x y = pixel_no f x' y' \<longleftrightarrow> x = x' \<and> y = y'"
proof
  let ?P = "unat (pixels_per_scanline f)"
  assume eq: "pixel_no f x y = pixel_no f x' y'"
  have "y = pixel_no f x y div ?P" "y' = pixel_no f x' y' div ?P"
    using assms by (simp_all add: pixel_no_def)
  with eq have "y = y'" by simp
  with eq show "x = x' \<and> y = y'" by (simp add: pixel_no_def)
qed simp

lemma scast_small:
  fixes w :: u32
  assumes "unat w < 2 ^ 31"
  shows "(scast w :: u64) = word_of_nat (unat w)"
proof -
  have "\<not> bit w 31"
  proof
    assume "bit w 31"
    then have "bit (unat w) 31" by (simp add: bit_unsigned_iff)
    then have "2 ^ 31 \<le> unat w" by (metis bit_iff_odd div_less even_zero not_less)
    with assms show False by simp
  qed
  have "(scast w :: u64) = ucast w"
  proof (rule bit_word_eqI)
    fix n assume "n < LENGTH(64)"
    moreover have "\<not> bit w n" if "\<not> n \<le> 31" using that bit_imp_le_length [of w n] by auto
    ultimately show "bit (scast w :: u64) n \<longleftrightarrow> bit (ucast w :: u64) n"
      using \<open>\<not> bit w 31\<close> by (cases "n \<le> 31") (auto simp: bit_simps min_def)
  qed
  then show ?thesis by simp
qed

lemma pixel_ptr_no:
  assumes f: "bytes_per_pixel f = 4" "4 * fb_area f \<le> 2 ^ 31"
    and x: "x < pixels_per_scanline f" and y: "y < height f"
  shows "pixel_ptr f x y = off_ptr (base_address f) (4 * pixel_no f (unat x) (unat y))"
proof -
  let ?P = "unat (pixels_per_scanline f)"
  have xy: "unat x < ?P" "unat y < unat (height f)"
    using x y by (simp_all add: word_less_nat_alt)
  from pixel_no_less [OF xy] f(2) have b: "4 * (unat y * ?P + unat x) < 2 ^ 31"
    by (simp add: pixel_no_def)
  have uy: "unat (ucast y * ucast (pixels_per_scanline f) * ucast (bytes_per_pixel f) :: u32)
      = unat y * ?P * 4"
  proof -
    have "unat y * ?P < 2 ^ 32" using b by simp
    then have "unat (ucast y * ucast (pixels_per_scanline f) :: u32) = unat y * ?P"
      by (simp add: unat_word_ariths unat_ucast_up)
    then show ?thesis using b f(1) by (simp add: unat_word_ariths)
  qed
  have ux: "unat (ucast x * ucast (bytes_per_pixel f) :: u32) = unat x * 4"
    using b f(1) by (simp add: unat_word_ariths unat_ucast_up)
  have b1: "unat y * ?P * 4 < 2 ^ 31" "unat x * 4 < 2 ^ 31" using b by simp_all
  have "(scast (ucast y * ucast (pixels_per_scanline f) * ucast (bytes_per_pixel f) :: u32) :: u64)
      = word_of_nat (unat y * ?P * 4)"
    using b1(1) scast_small [of "ucast y * ucast (pixels_per_scanline f) * ucast (bytes_per_pixel f)"]
    unfolding uy by blast
  moreover have "(scast (ucast x * ucast (bytes_per_pixel f) :: u32) :: u64)
      = word_of_nat (unat x * 4)"
    using b1(2) scast_small [of "ucast x * ucast (bytes_per_pixel f)"] unfolding ux by blast
  ultimately show ?thesis
    unfolding pixel_ptr_def off_ptr_def pixel_no_def by (simp add: algebra_simps)
qed

lemma framebuffer_at_cong:
  assumes "\<And>x. x \<in> region fb 24 \<Longrightarrow> m' x = m x"
  shows "framebuffer_at m' fb = framebuffer_at m fb"
proof -
  have "region (fb + 8) 8 \<subseteq> region fb 24" "region fb 8 \<subseteq> region fb 24"
    "region (fb + 16) 2 \<subseteq> region fb 24" "region (fb + 18) 2 \<subseteq> region fb 24"
    "region (fb + 20) 2 \<subseteq> region fb 24" "region (fb + 22) 1 \<subseteq> region fb 24"
    by (rule region_sub, simp_all)+
  then have "load64 m' (fb + 8) = load64 m (fb + 8)" "load64 m' fb = load64 m fb"
    "load16 m' (fb + 16) = load16 m (fb + 16)" "load16 m' (fb + 18) = load16 m (fb + 18)"
    "load16 m' (fb + 20) = load16 m (fb + 20)" "load8 m' (fb + 22) = load8 m (fb + 22)"
    unfolding load64_def load16_def
    by (auto intro!: load_le_cong load8_cong arg_cong [where f = ucast] assms)
  then show ?thesis by (simp add: framebuffer_at_def)
qed

text \<open>Painting any pixels of the area leaves the structure alone.\<close>

lemma fb_painted:
  assumes "fb_ready m fb" "\<forall>(p, v) \<in> set ws. p < fb_area (framebuffer_at m fb)"
  shows "framebuffer_at (painted (base_address (framebuffer_at m fb)) ws m) fb = framebuffer_at m fb"
proof (rule framebuffer_at_cong)
  fix x assume x: "x \<in> region fb 24"
  let ?f = "framebuffer_at m fb"
  have n: "4 * fb_area ?f + 4 \<le> 2 ^ 64" and
    d: "region fb 24 \<inter> region (base_address ?f) (4 * fb_area ?f + 4) = {}"
    using assms(1) by (simp_all add: fb_ready_def Let_def)
  have "\<forall>(p, v) \<in> set ws. 4 * p + 8 \<le> 4 * fb_area ?f + 4" using assms(2) by fastforce
  then show "painted (base_address ?f) ws m x = m x"
    using n d x by (intro painted_outside [where n = "4 * fb_area ?f + 4"]) auto
qed

lemma set_pixel_painted:
  assumes ready: "fb_ready m fb" and ws: "\<forall>(p, v) \<in> set ws. p < fb_area (framebuffer_at m fb)"
    and x: "x < pixels_per_scanline (framebuffer_at m fb)" and y: "y < height (framebuffer_at m fb)"
  shows "Framebuffer__set_pixel fb x y c (painted (base_address (framebuffer_at m fb)) ws m)
    = painted (base_address (framebuffer_at m fb))
        (ws @ [(pixel_no (framebuffer_at m fb) (unat x) (unat y), c)]) m"
proof -
  have "bytes_per_pixel (framebuffer_at m fb) = 4" "4 * fb_area (framebuffer_at m fb) \<le> 2 ^ 31"
    using ready by (simp_all add: fb_ready_def Let_def)
  from pixel_ptr_no [OF this x y] show ?thesis
    by (simp add: Framebuffer__set_pixel_def fb_painted [OF ready ws])
qed

section \<open>The loops as lists of writes\<close>

lemma less_of_nat:
  fixes n :: "'a::len word"
  assumes "k < unat n"
  shows "word_of_nat k < n" "unat (word_of_nat k :: 'a word) = k"
proof -
  have "k < 2 ^ LENGTH('a)" by (rule less_trans [OF assms unsigned_less])
  then show "unat (word_of_nat k :: 'a word) = k" by (simp add: unat_of_nat_small)
  with assms show "word_of_nat k < n" by (simp add: word_less_nat_alt)
qed

definition column :: "Framebuffer \<Rightarrow> u64 \<Rightarrow> nat \<Rightarrow> nat \<Rightarrow> (nat \<times> u64) list" where
  "column f c Y x = map (\<lambda>y. (pixel_no f x y, c)) [0..<Y]"

lemma column_Suc: "column f c (Suc Y) x = column f c Y x @ [(pixel_no f x Y, c)]"
  by (simp add: column_def)

lemma set_all_painted:
  assumes ready: "fb_ready m fb"
  defines "f \<equiv> framebuffer_at m fb"
  shows "Framebuffer__set_all_pixels fb c m = painted (base_address f)
    (concat (map (column f c (unat (height f))) [0..<unat (width f)])) m"
proof -
  let ?b = "base_address f" and ?H = "unat (height f)" and ?W = "unat (width f)"
  let ?cols = "\<lambda>X. concat (map (column f c ?H) [0..<X])"
  have WP: "?W \<le> unat (pixels_per_scanline f)"
    using ready by (simp add: fb_ready_def f_def Let_def word_le_nat_alt)
  have area: "\<forall>(p, v) \<in> set (?cols X @ column f c Y x). p < fb_area f"
    if "X \<le> ?W" "Y \<le> ?H" "x < ?W" for X Y x
    using that WP by (auto simp: column_def intro!: pixel_no_less)
  note keep = fb_painted [OF ready, folded f_def]
  let ?P = "\<lambda>X m'. m' = painted ?b (?cols X) m \<and> X \<le> ?W"
  have "?P ?W (Framebuffer__set_all_pixels fb c m)"
    unfolding Framebuffer__set_all_pixels_def
  proof (rule for_bound_invariant [where P = ?P and n = "width f"])
    show "?P 0 m" by simp
  next
    fix X m' assume P: "?P X m'"
    have "\<forall>(p, v) \<in> set (?cols X). p < fb_area f"
      using P WP by (auto simp: column_def intro!: pixel_no_less)
    then show "width (framebuffer_at m' fb) = width f" using keep P by simp
  next
    fix X m' assume X: "X < ?W" and P: "?P X m'"
    let ?Q = "\<lambda>Y m''. m'' = painted ?b (?cols X @ column f c Y X) m \<and> Y \<le> ?H"
    have "?Q ?H (for_bound 0 (\<lambda>m. height (framebuffer_at m fb))
        (\<lambda>y. Framebuffer__set_pixel fb (word_of_nat X) y c) m')"
    proof (rule for_bound_invariant [where P = ?Q and n = "height f"])
      show "?Q 0 m'" using P by (simp add: column_def)
    next
      fix Y m'' assume Q: "?Q Y m''"
      then show "height (framebuffer_at m'' fb) = height f"
        using keep [OF area [of X Y X]] X P by simp
    next
      fix Y m'' assume Y: "Y < ?H" and Q: "?Q Y m''"
      note x = less_of_nat [OF X] and y = less_of_nat [OF Y]
      have "word_of_nat X < pixels_per_scanline f"
        using x(1) ready by (auto simp: fb_ready_def f_def Let_def intro: less_le_trans)
      then have "Framebuffer__set_pixel fb (word_of_nat X) (word_of_nat Y) c m''
          = painted ?b ((?cols X @ column f c Y X) @ [(pixel_no f X Y, c)]) m"
        using set_pixel_painted [OF ready area [of X Y X, unfolded f_def], folded f_def,
            of "word_of_nat X" "word_of_nat Y" c] Q X P x y by simp
      then show "?Q (Suc Y) (Framebuffer__set_pixel fb (word_of_nat X) (word_of_nat Y) c m'')"
        using Y by (simp add: column_Suc)
    qed
    then show "?P (Suc X) (for_bound 0 (\<lambda>m. height (framebuffer_at m fb))
        (\<lambda>y. Framebuffer__set_pixel fb (word_of_nat X) y c) m')"
      using X by simp
  qed
  then show ?thesis by simp
qed

text \<open>The bit of the glyph that decides a pixel.\<close>

definition glyph_color :: "mem \<Rightarrow> Glyph \<Rightarrow> nat \<Rightarrow> nat \<Rightarrow> u32" where
  "glyph_color m g y x =
     (if x < 8 \<and> bit (m (g_bitmap g + word_of_nat y)) (7 - x) then g_fg_color g else g_bg_color g)"

text \<open>It depends on the row of the bitmap and the two colours only.\<close>

lemma glyph_color_kept:
  assumes "\<And>q. q \<in> region (g_bitmap g) (unat h) \<Longrightarrow> m' q = m q" "y < unat (h :: u8)"
    and "g_bitmap g' = g_bitmap g" "g_fg_color g' = g_fg_color g" "g_bg_color g' = g_bg_color g"
  shows "glyph_color m' g' y x = glyph_color m g y x"
proof -
  have "g_bitmap g + word_of_nat y \<in> region (g_bitmap g) (unat h)"
    using assms(2) unat_less_exp [of h] by (intro region_offset) simp_all
  then show ?thesis using assms(1,3-5) by (simp add: glyph_color_def)
qed

lemma glyph_bit:
  "0 <s (scast (b :: u8) :: u32) AND drop_bit x 0x80 \<longleftrightarrow> x < 8 \<and> bit b (7 - x)"
proof (cases "x < 8")
  case True
  then have "x \<in> {0, 1, 2, 3, 4, 5, 6, 7}" by auto
  then have d: "drop_bit x (0x80 :: u32) = 2 ^ (7 - x)" by auto
  have b: "bit (scast b :: u32) (7 - x) \<longleftrightarrow> bit b (7 - x)"
    by (cases "x = 0") (auto simp: bit_simps min_def)
  have "(scast b :: u32) AND 2 ^ (7 - x) = (if bit b (7 - x) then 2 ^ (7 - x) else 0)"
    unfolding b [symmetric] by (rule bit_word_eqI) (auto simp: bit_simps)
  moreover have "0 <s (2 ^ (7 - x) :: u32)" using \<open>x \<in> {0, 1, 2, 3, 4, 5, 6, 7}\<close>
    by (auto simp: word_sless_alt)
  ultimately show ?thesis using True by (simp add: d)
next
  case False
  then obtain k where "x = k + 8" by (metis add.commute le_Suc_ex not_less)
  then have "drop_bit x (0x80 :: u32) = drop_bit k (drop_bit 8 0x80)"
    by (simp only: drop_bit_drop_bit)
  also have "\<dots> = 0" by simp
  finally show ?thesis using False by simp
qed

definition glyph_row :: "Framebuffer \<Rightarrow> mem \<Rightarrow> Glyph \<Rightarrow> nat \<Rightarrow> nat \<Rightarrow> (nat \<times> u64) list" where
  "glyph_row f m g X y = map (\<lambda>x. (pixel_no f (x + unat (g_x_off g)) (y + unat (g_y_off g)),
      ucast (glyph_color m g y x))) [0..<X]"

lemma glyph_row_Suc: "glyph_row f m g (Suc X) y = glyph_row f m g X y
    @ [(pixel_no f (X + unat (g_x_off g)) (y + unat (g_y_off g)), ucast (glyph_color m g y X))]"
  by (simp add: glyph_row_def)

text \<open>The glyph lies inside the screen, and its bits outside the framebuffer.\<close>

definition glyph_fits :: "mem \<Rightarrow> ptr \<Rightarrow> Glyph \<Rightarrow> bool" where
  "glyph_fits m fb g \<longleftrightarrow> (let f = framebuffer_at m fb in fb_ready m fb
     \<and> unat (g_x_off g) + unat (g_width g) \<le> unat (pixels_per_scanline f)
     \<and> unat (g_y_off g) + unat (g_height g) \<le> unat (height f)
     \<and> region (g_bitmap g) (unat (g_height g)) \<inter> region (base_address f) (4 * fb_area f + 4) = {})"

lemma add_offset:
  fixes n off :: u16
  assumes "k + unat off < unat n"
  shows "word_of_nat k + off < n" "unat (word_of_nat k + off) = k + unat off"
proof -
  have "k + unat off < 2 ^ 16" using assms unat_less_exp [of n] by simp
  then show "unat (word_of_nat k + off) = k + unat off"
    by (simp add: unat_word_ariths unat_of_nat_small)
  with assms show "word_of_nat k + off < n" by (simp add: word_less_nat_alt)
qed

lemma glyph_row_area:
  assumes "glyph_fits m fb g" "X \<le> unat (g_width g)" "y < unat (g_height g)"
  defines "f \<equiv> framebuffer_at m fb"
  shows "\<forall>(p, v) \<in> set (glyph_row f m g X y). p < fb_area f"
  using assms by (auto simp: glyph_row_def glyph_fits_def Let_def intro!: pixel_no_less)

lemma glyph_rows_area:
  assumes "glyph_fits m fb g" "Y \<le> unat (g_height g)"
  shows "\<forall>(p, v) \<in> set (concat (map (glyph_row (framebuffer_at m fb) m g (unat (g_width g))) [0..<Y])).
    p < fb_area (framebuffer_at m fb)"
proof -
  have "p < fb_area (framebuffer_at m fb)"
    if "k < Y" "(p, v) \<in> set (glyph_row (framebuffer_at m fb) m g (unat (g_width g)) k)" for p v k
    using glyph_row_area [OF assms(1) order_refl, of k] that assms(2) by auto
  then show ?thesis by auto
qed

text \<open>The inner loop, on a picture that the list \<open>ps\<close> has painted.\<close>

abbreviation glyph_pixel :: "ptr \<Rightarrow> Glyph \<Rightarrow> ptr \<Rightarrow> u16 \<Rightarrow> u16 \<Rightarrow> mem \<Rightarrow> mem" where
  "glyph_pixel fb g bm y x m \<equiv>
     (let color = (if 0 <s (scast (load8 m bm) :: u32) AND drop_bit (unat x) 0x80
        then ucast (g_fg_color g) else ucast (g_bg_color g))
      in Framebuffer__set_pixel fb (x + g_x_off g) (y + g_y_off g) color m)"

lemma print_glyph_row:
  assumes fits: "glyph_fits m fb g" and Y: "Y < unat (g_height g)"
  defines "f \<equiv> framebuffer_at m fb"
  assumes ps: "\<forall>(p, v) \<in> set ps. p < fb_area f"
  shows "for_bound (0 :: u16) (\<lambda>_. ucast (g_width g)) (glyph_pixel fb g (g_bitmap g + word_of_nat Y) (word_of_nat Y))
      (painted (base_address f) ps m)
    = painted (base_address f) (ps @ glyph_row f m g (unat (g_width g)) Y) m"
proof -
  let ?b = "base_address f" and ?H = "unat (g_height g)" and ?W = "unat (g_width g)"
  let ?bm = "g_bitmap g + word_of_nat Y"
  have ready: "fb_ready m fb"
    and xw: "unat (g_x_off g) + ?W \<le> unat (pixels_per_scanline f)"
    and yh: "unat (g_y_off g) + ?H \<le> unat (height f)"
    and font: "region (g_bitmap g) ?H \<inter> region ?b (4 * fb_area f + 4) = {}"
    using fits by (simp_all add: glyph_fits_def f_def Let_def)
  have n: "4 * fb_area f + 4 \<le> 2 ^ 64" using ready by (simp add: fb_ready_def f_def Let_def)
  have uW: "unat (ucast (g_width g) :: u16) = ?W" by (simp add: unat_ucast_up)
  have "?bm \<in> region (g_bitmap g) ?H"
    using Y unat_less_exp [of "g_height g"] by (auto intro!: region_offset)
  then have out: "?bm \<notin> region ?b (4 * fb_area f + 4)" using font by auto
  let ?Q = "\<lambda>X m'. m' = painted ?b (ps @ glyph_row f m g X Y) m \<and> X \<le> ?W"
  have "?Q (unat (ucast (g_width g) :: u16))
      (for_bound (0 :: u16) (\<lambda>_. ucast (g_width g)) (glyph_pixel fb g ?bm (word_of_nat Y)) (painted ?b ps m))"
  proof (rule for_bound_invariant [where P = ?Q and n = "ucast (g_width g)"])
    show "?Q 0 (painted ?b ps m)" by (simp add: glyph_row_def)
  next
    fix X m' assume "X < unat (ucast (g_width g) :: u16)" and Q: "?Q X m'"
    then have X: "X < ?W" "X \<le> ?W" using uW by simp_all
    have ar: "\<forall>(p, v) \<in> set (ps @ glyph_row f m g X Y). p < fb_area f"
      using ps glyph_row_area [OF fits X(2) Y] by (auto simp: f_def)
    then have "\<forall>(p, v) \<in> set (ps @ glyph_row f m g X Y). 4 * p + 8 \<le> 4 * fb_area f + 4" by fastforce
    from painted_outside [OF this n out] Q have "m' ?bm = m ?bm" by (simp only:)
    then have col: "(if 0 <s (scast (load8 m' ?bm) :: u32) AND drop_bit (unat (word_of_nat X :: u16)) 0x80
        then ucast (g_fg_color g) else ucast (g_bg_color g)) = ucast (glyph_color m g Y X)"
      using less_of_nat(2) [of X "ucast (g_width g) :: u16"] X(1) uW by (simp add: glyph_bit glyph_color_def load8_def)
    have "X + unat (g_x_off g) < unat (pixels_per_scanline f)" "Y + unat (g_y_off g) < unat (height f)"
      using X(1) Y xw yh by linarith+
    then have "Framebuffer__set_pixel fb (word_of_nat X + g_x_off g) (word_of_nat Y + g_y_off g)
        (ucast (glyph_color m g Y X)) m'
        = painted ?b ((ps @ glyph_row f m g X Y)
            @ [(pixel_no f (X + unat (g_x_off g)) (Y + unat (g_y_off g)), ucast (glyph_color m g Y X))]) m"
      using set_pixel_painted [OF ready ar [unfolded f_def], folded f_def,
          of "word_of_nat X + g_x_off g" "word_of_nat Y + g_y_off g" "ucast (glyph_color m g Y X)"]
        Q add_offset by simp
    then show "?Q (Suc X) (glyph_pixel fb g ?bm (word_of_nat Y) (word_of_nat X) m')"
      using X(1) by (simp only: Let_def col glyph_row_Suc append_assoc Suc_le_eq simp_thms)
  qed simp
  then show ?thesis by (simp add: uW)
qed

lemma print_glyph_painted:
  assumes fits: "glyph_fits m fb g"
  defines "f \<equiv> framebuffer_at m fb"
  shows "Framebuffer__print_glyph fb g m = painted (base_address f)
    (concat (map (glyph_row f m g (unat (g_width g))) [0..<unat (g_height g)])) m"
proof -
  let ?b = "base_address f" and ?H = "unat (g_height g)"
  let ?rows = "\<lambda>Y. concat (map (glyph_row f m g (unat (g_width g))) [0..<Y])"
  let ?P = "\<lambda>Y (m', bm). m' = painted ?b (?rows Y) m \<and> bm = g_bitmap g + word_of_nat Y \<and> Y \<le> ?H"
  let ?row = "\<lambda>y (m, bitmap). (for_bound (0 :: u16) (\<lambda>_. ucast (g_width g)) (glyph_pixel fb g bitmap y) m,
      bitmap + 1)"
  have uH: "unat (ucast (g_height g) :: u16) = ?H" by (simp add: unat_ucast_up)
  have "?P (unat (ucast (g_height g) :: u16)) (for_bound (0 :: u16) (\<lambda>_. ucast (g_height g)) ?row (m, g_bitmap g))"
  proof (rule for_bound_invariant [where P = ?P and n = "ucast (g_height g)"])
    show "?P 0 (m, g_bitmap g)" by simp
  next
    fix Y :: nat and s :: "mem \<times> ptr"
    show "ucast (g_height g) = (ucast (g_height g) :: u16)" ..
  next
    fix Y s assume "Y < unat (ucast (g_height g) :: u16)" and P: "?P Y s"
    then have Y: "Y < ?H" "Y \<le> ?H" using uH by simp_all
    note row = print_glyph_row [OF fits Y(1) glyph_rows_area [OF fits Y(2)], folded f_def]
    show "?P (Suc Y) (?row (word_of_nat Y) s)"
      using P Y row by (cases s) simp
  qed
  then show ?thesis
    unfolding Framebuffer__print_glyph_def uH by (simp split: prod.splits)
qed

section \<open>What the screen shows\<close>

lemma split_upt: "x < n \<Longrightarrow> [0..<n] = [0..<x] @ x # [Suc x..<n]"
  by (metis le_add_diff_inverse less_imp_le_nat upt_add_eq_append upt_conv_Cons zero_le)

text \<open>A row of a grid of writes, one by one: the last write to touch a pixel.\<close>

lemma all_columns_split:
  assumes "x < W" "y < H"
  shows "concat (map (column f c H) [0..<W])
    = (concat (map (column f c H) [0..<x]) @ column f c y x) @ (pixel_no f x y, c)
      # (map (\<lambda>y. (pixel_no f x y, c)) [Suc y..<H] @ concat (map (column f c H) [Suc x..<W]))"
  using assms by (simp add: split_upt [of x W] column_def [of f c H x] split_upt [of y H])
    (simp add: column_def)

lemma all_rows_split:
  assumes "x < W" "y < H"
  shows "concat (map (glyph_row f m g W) [0..<H])
    = (concat (map (glyph_row f m g W) [0..<y]) @ glyph_row f m g x y)
      @ (pixel_no f (x + unat (g_x_off g)) (y + unat (g_y_off g)), ucast (glyph_color m g y x))
      # (map (\<lambda>x. (pixel_no f (x + unat (g_x_off g)) (y + unat (g_y_off g)),
           ucast (glyph_color m g y x))) [Suc x..<W] @ concat (map (glyph_row f m g W) [Suc y..<H]))"
  using assms by (simp add: split_upt [of y H] glyph_row_def [of f m g W y] split_upt [of x W])
    (simp add: glyph_row_def)

text \<open>Pixels further along the same line, and on later lines, come later.\<close>

lemma pixel_no_line_less:
  assumes "y < y'" "x < unat (pixels_per_scanline f)"
  shows "pixel_no f x y < pixel_no f x' y'"
proof -
  let ?P = "unat (pixels_per_scanline f)"
  have "y * ?P + x < (y + 1) * ?P" using assms(2) by simp
  also have "\<dots> \<le> y' * ?P" using assms(1) by (intro mult_le_mono1) simp
  finally show ?thesis by (simp add: pixel_no_def)
qed

lemma area_bound:
  assumes "fb_ready m fb" "q < fb_area (framebuffer_at m fb)"
  shows "4 * q + 8 \<le> 2 ^ 64"
  using assms by (simp add: fb_ready_def Let_def)

text \<open>The last store to reach a pixel of the glyph is its own.\<close>

lemma glyph_shown:
  assumes "glyph_fits m fb g" "x < unat (g_width g)" "y < unat (g_height g)"
  shows "pix (base_address (framebuffer_at m fb)) (Framebuffer__print_glyph fb g m)
      (pixel_no (framebuffer_at m fb) (x + unat (g_x_off g)) (y + unat (g_y_off g)))
    = glyph_color m g y x"
proof -
  let ?f = "framebuffer_at m fb" and ?W = "unat (g_width g)" and ?H = "unat (g_height g)"
  let ?x = "\<lambda>x. x + unat (g_x_off g)" and ?y = "\<lambda>y. y + unat (g_y_off g)"
  let ?q = "pixel_no ?f (?x x) (?y y)"
  have fits: "fb_ready m fb" "unat (g_x_off g) + ?W \<le> unat (pixels_per_scanline ?f)"
    "unat (g_y_off g) + ?H \<le> unat (height ?f)"
    using assms(1) by (simp_all add: glyph_fits_def Let_def)
  have area: "pixel_no ?f (?x x') (?y y') < fb_area ?f" if "x' < ?W" "y' < ?H" for x' y'
    using fits(2,3) that by (intro pixel_no_less) linarith+
  note bound = area_bound [OF fits(1) area]
  have later: "?q < pixel_no ?f (?x x') (?y y')"
    if "y' = y \<and> x < x' \<or> y < y'" "x' < ?W" for x' y'
    using that fits(2) assms(2) pixel_no_line_less [of "?y y" "?y y'" "?x x" ?f "?x x'"]
    by (auto simp: pixel_no_def)
  have "\<forall>(p, v) \<in> set (map (\<lambda>x. (pixel_no ?f (?x x) (?y y), ucast (glyph_color m g y x))) [Suc x..<?W]
      @ concat (map (glyph_row ?f m g ?W) [Suc y..<?H])).
      4 * p + 8 \<le> 2 ^ 64 \<and> ?q \<noteq> p \<and> ?q \<noteq> p + 1"
  proof -
    have "4 * p + 8 \<le> 2 ^ 64 \<and> ?q \<noteq> p \<and> ?q \<noteq> p + 1"
      if "y' = y \<and> x < x' \<or> y < y'" "x' < ?W" "y' < ?H" "p = pixel_no ?f (?x x') (?y y')" for x' y' p
      using bound [OF that(2,3)] later [OF that(1,2)] that(4) by simp
    note one = this
    show ?thesis
    proof (clarify)
      fix p v assume pv: "(p, v) \<in> set (map (\<lambda>x. (pixel_no ?f (?x x) (?y y), ucast (glyph_color m g y x)))
        [Suc x..<?W] @ concat (map (glyph_row ?f m g ?W) [Suc y..<?H]))"
      then consider x' where "x < x'" "x' < ?W" "p = pixel_no ?f (?x x') (?y y)"
        | x' y' where "y < y'" "x' < ?W" "y' < ?H" "p = pixel_no ?f (?x x') (?y y')"
        by (auto simp: glyph_row_def Suc_le_eq)
      then show "4 * p + 8 \<le> 2 ^ 64 \<and> ?q \<noteq> p \<and> ?q \<noteq> p + 1"
        using one [of y] one assms(3) by cases blast+
    qed
  qed
  moreover have "(ucast (ucast (c :: u32) :: u64) :: u32) = c" for c
    by (rule bit_word_eqI) (auto simp: bit_simps)
  ultimately show ?thesis
    unfolding print_glyph_painted [OF assms(1)] all_rows_split [OF assms(2,3)]
    using bound [OF assms(2,3)] by (subst painted_last) auto
qed

text \<open>A screen of two by two pixels at \<open>0x1000\<close>, its structure at \<open>0x100\<close>.\<close>

definition small_screen :: mem where
  "small_screen = (\<lambda>_. 0)(0x101 := 0x10, 0x110 := 2, 0x112 := 2, 0x114 := 2, 0x116 := 4,
     0x200 := 0x80, 0x201 := 0x40)"

lemma small_framebuffer:
  "framebuffer_at small_screen 0x100 = \<lparr>base_address = 0x1000, buffer_size = 0, width = 2,
     height = 2, pixels_per_scanline = 2, bytes_per_pixel = 4\<rparr>"
  by code_simp

lemma small_screen_ready: "fb_ready small_screen 0x100"
  using regions_apart [of "0x100" 24 "0x1000" 20]
  by (simp add: fb_ready_def small_framebuffer fb_area_def)

section \<open>The last store to a pixel\<close>

lemma pixel_no_next:
  assumes "pixel_no f x y = pixel_no f x' y' + 1" "x < unat (pixels_per_scanline f)"
    and "x' < unat (pixels_per_scanline f)"
  shows "x = x' + 1 \<and> y = y' \<or> x = 0 \<and> y = y' + 1 \<and> x' + 1 = unat (pixels_per_scanline f)"
proof (cases "x' + 1 < unat (pixels_per_scanline f)")
  case True
  moreover have "pixel_no f x' y' + 1 = pixel_no f (x' + 1) y'" by (simp add: pixel_no_def)
  ultimately show ?thesis using assms pixel_no_inj [of x f "x' + 1" y y'] by simp
next
  case False
  then have P: "x' + 1 = unat (pixels_per_scanline f)" using assms(3) by simp
  then have "pixel_no f x' y' + 1 = pixel_no f 0 (y' + 1)" by (simp add: pixel_no_def)
  with P show ?thesis using assms pixel_no_inj [of x f 0 y "y' + 1"] by simp
qed

lemma pixel_no_apart:
  assumes "x < unat (pixels_per_scanline f)" "x' < unat (pixels_per_scanline f)"
    and "\<not> (x = x' \<and> y = y')" "\<not> (x = x' + 1 \<and> y = y')"
    and "\<not> (x = 0 \<and> y = y' + 1 \<and> x' + 1 = unat (pixels_per_scanline f))"
  shows "pixel_no f x y \<noteq> pixel_no f x' y' \<and> pixel_no f x y \<noteq> pixel_no f x' y' + 1"
proof
  show "pixel_no f x y \<noteq> pixel_no f x' y'" using assms(3) by (subst pixel_no_inj [OF assms(1,2)])
  show "pixel_no f x y \<noteq> pixel_no f x' y' + 1"
  proof
    assume "pixel_no f x y = pixel_no f x' y' + 1"
    from pixel_no_next [OF this assms(1,2)] assms(4,5) show False by blast
  qed
qed

text \<open>A pixel has the half of the colour that the last store to reach it has put there.\<close>

lemma fill_last_store:
  assumes ready: "fb_ready m fb"
  defines "f \<equiv> framebuffer_at m fb"
  assumes a: "a < unat (width f)" and b: "b < unat (height f)"
    and q: "q = pixel_no f a b \<or> q = pixel_no f a b + 1"
    and late: "\<And>x y. x < unat (width f) \<Longrightarrow> y < unat (height f) \<Longrightarrow> x = a \<and> b < y \<or> a < x
      \<Longrightarrow> q \<noteq> pixel_no f x y \<and> q \<noteq> pixel_no f x y + 1"
  shows "pix (base_address f) (Framebuffer__set_all_pixels fb c m) q
    = (if q = pixel_no f a b then ucast c else ucast (drop_bit 32 c))"
proof -
  let ?W = "unat (width f)" and ?H = "unat (height f)" and ?no = "pixel_no f"
  let ?later = "map (\<lambda>y. (?no a y, c)) [Suc b..<?H] @ concat (map (column f c ?H) [Suc a..<?W])"
  have "?W \<le> unat (pixels_per_scanline f)"
    using ready by (simp add: f_def fb_ready_def Let_def word_le_nat_alt)
  then have bound: "4 * ?no x y + 8 \<le> 2 ^ 64" if "x < ?W" "y < ?H" for x y
    using that unfolding f_def by (intro area_bound [OF ready] pixel_no_less) simp_all
  have "\<forall>(p, v) \<in> set ?later. 4 * p + 8 \<le> 2 ^ 64 \<and> q \<noteq> p \<and> q \<noteq> p + 1"
  proof (clarify)
    fix p v assume "(p, v) \<in> set ?later"
    then consider y where "b < y" "y < ?H" "p = ?no a y" | x y where "a < x" "x < ?W" "y < ?H" "p = ?no x y"
      by (auto simp: column_def Suc_le_eq)
    then show "4 * p + 8 \<le> 2 ^ 64 \<and> q \<noteq> p \<and> q \<noteq> p + 1"
      using a bound late by cases blast+
  qed
  then show ?thesis
    unfolding set_all_painted [OF ready, folded f_def] all_columns_split [OF a b]
    using bound [OF a b] q by (subst painted_last) auto
qed

section \<open>Properties\<close>

text \<open>The two ways the source has to build a colour agree: the macro \<^verbatim>\<open>rgb_to_int\<close> of colors.h
  and the function of the same name in colors.c give the same value on every three bytes, and
  the bytes are read back from it.\<close>

lemma rgb_to_int_agree:
  "RGB (ucast r) (ucast g) (ucast b) = rgb_to_int r g b
   \<and> ucast (rgb_to_int r g b) = b \<and> ucast (drop_bit 8 (rgb_to_int r g b)) = g
   \<and> ucast (drop_bit 16 (rgb_to_int r g b)) = r"
proof -
  let ?v = "ucast b OR push_bit 8 (ucast g) OR push_bit 16 (ucast r) :: u64"
  have s: "(scast (w :: u32) :: u64) = ucast w" if "\<not> bit w 31" for w
  proof -
    have "unat w < 2 ^ 31"
    proof (rule ccontr)
      assume "\<not> unat w < 2 ^ 31"
      then have "unat w div 2 ^ 31 = 1" using unat_less_exp [of w] by (simp add: div_nat_eqI)
      then have "bit (unat w) 31" by (simp add: bit_iff_odd)
      with that show False by (simp add: bit_unsigned_iff)
    qed
    then show ?thesis by (simp add: scast_small)
  qed
  have byte: "i < 8" if "bit (c :: u8) i" for c i
    using bit_imp_le_length [OF that] by simp
  have g: "(scast (push_bit 8 (ucast g :: u32)) :: u64) = push_bit 8 (ucast g)"
    by (subst s, auto simp: bit_simps intro!: bit_word_eqI, ((drule byte)+, linarith)+)
  have r: "(scast (push_bit 16 (ucast r :: u32)) :: u64) = push_bit 16 (ucast r)"
    by (subst s, auto simp: bit_simps intro!: bit_word_eqI, ((drule byte)+, linarith)+)
  have "ucast b AND push_bit 8 (ucast g) = (0 :: u64)"
    by (auto simp: bit_simps intro!: bit_word_eqI, ((drule byte)+, linarith)+)
  moreover have "(ucast b OR push_bit 8 (ucast g)) AND push_bit 16 (ucast r) = (0 :: u64)"
    by (auto simp: bit_simps intro!: bit_word_eqI, ((drule byte)+, linarith)+)
  ultimately have fn: "rgb_to_int r g b = ?v"
    by (simp add: rgb_to_int_def g r disjunctive_add_eq_or or.assoc)
  have m: "(255 :: u32) = mask 8" by (simp add: mask_eq_exp_minus_1)
  have and255: "ucast c AND 255 = (ucast c :: u32)" for c :: u8
    unfolding m by (auto simp: bit_simps dest: byte intro!: bit_word_eqI)
  have pu: "(ucast (push_bit k (ucast c :: u32)) :: u64) = push_bit k (ucast c)" if "k \<le> 16"
    for k and c :: u8
    using that by (intro bit_word_eqI) (auto simp: bit_simps, ((drule byte)+, linarith)+)
  have no31: "\<not> bit (ucast b OR push_bit 8 (ucast g) OR push_bit 16 (ucast r) :: u32) 31"
    by (auto simp: bit_simps, ((drule byte)+, linarith)+)
  have "RGB (ucast r) (ucast g) (ucast b) = ?v"
    unfolding RGB_def and255 s [OF no31] by (simp add: unsigned_or_eq pu pu [of 0, simplified])
  moreover have "ucast ?v = b" "ucast (drop_bit 8 ?v) = g" "ucast (drop_bit 16 ?v) = r"
    by (auto simp: bit_simps intro!: bit_word_eqI, ((drule byte)+, linarith)+)
  ultimately show ?thesis using fn by simp
qed

text \<open>C18. \<^verbatim>\<open>Framebuffer__print_glyph\<close> (framebuffer.c) shows the glyph: on a screen of four-byte
  pixels every pixel of the glyph has the foreground colour where its bit is set in the font,
  from the most significant bit of each row's byte on, and the background colour elsewhere.\<close>

theorem print_glyph_shows:
  assumes "glyph_fits m fb g" "x < unat (g_width g)" "y < unat (g_height g)"
  shows "pix (base_address (framebuffer_at m fb)) (Framebuffer__print_glyph fb g m)
      (pixel_no (framebuffer_at m fb) (x + unat (g_x_off g)) (y + unat (g_y_off g)))
    = glyph_color m g y x"
  using assms by (rule glyph_shown)

definition small_glyph :: Glyph where
  "small_glyph = \<lparr>g_bitmap = 0x200, g_x_off = 0, g_y_off = 0, g_height = 2, g_width = 2,
     g_fg_color = 7, g_bg_color = 0\<rparr>"

theorem print_glyph_shows_witness:
  "pix 0x1000 (Framebuffer__print_glyph 0x100 small_glyph small_screen) 3 = 7"
proof -
  have "glyph_fits small_screen 0x100 small_glyph"
    using small_screen_ready regions_apart [of "0x200" 2 "0x1000" 20]
    by (simp add: glyph_fits_def small_framebuffer small_glyph_def fb_area_def)
  from print_glyph_shows [OF this, of 1 1]
  have "pix 0x1000 (Framebuffer__print_glyph 0x100 small_glyph small_screen) 3
      = glyph_color small_screen small_glyph 1 1"
    by (simp add: small_framebuffer small_glyph_def pixel_no_def)
  moreover have "glyph_color small_screen small_glyph 1 1 = 7" by code_simp
  ultimately show ?thesis by simp
qed

text \<open>C34. \<^verbatim>\<open>Framebuffer__set_all_pixels\<close> (framebuffer.c) on a screen of four-byte pixels: a pixel is
  left with the low half of the colour, except that where the scan line is exactly as long as
  the line shown, the first pixel of every line but the top one is left with the high half,
  which is 0 for every colour of the kernel: the eight-byte store of the last pixel of the line
  above reaches it, and comes after it.\<close>

theorem set_all_pixels_shows:
  assumes "fb_ready m fb" "x < unat (width (framebuffer_at m fb))"
    and "y < unat (height (framebuffer_at m fb))" "1 < unat (width (framebuffer_at m fb))"
  shows "pix (base_address (framebuffer_at m fb)) (Framebuffer__set_all_pixels fb c m)
      (pixel_no (framebuffer_at m fb) x y)
    = (if x = 0 \<and> 0 < y \<and> width (framebuffer_at m fb) = pixels_per_scanline (framebuffer_at m fb)
       then ucast (drop_bit 32 c) else ucast c)"
proof -
  let ?f = "framebuffer_at m fb" and ?no = "pixel_no (framebuffer_at m fb)"
  let ?W = "unat (width ?f)" and ?P = "unat (pixels_per_scanline ?f)"
  have WP: "?W \<le> ?P" using assms(1) by (simp add: fb_ready_def Let_def word_le_nat_alt)
  show ?thesis
  proof (cases "x = 0 \<and> 0 < y \<and> ?W = ?P")
    case True
    let ?a = "?W - 1" and ?b = "y - 1"
    have q: "?no x y = ?no ?a ?b + 1"
      using True assms(4) by (cases y) (auto simp: pixel_no_def)
    have "?no x y \<noteq> ?no x' y' \<and> ?no x y \<noteq> ?no x' y' + 1"
      if "x' < ?W" "x' = ?a \<and> ?b < y' \<or> ?a < x'" for x' y'
    proof -
      have "x' = ?a" "?b < y'" using that by auto
      with True assms(4) show ?thesis by (intro pixel_no_apart) simp_all
    qed
    then have "pix (base_address ?f) (Framebuffer__set_all_pixels fb c m) (?no x y)
        = (if ?no x y = ?no ?a ?b then ucast c else ucast (drop_bit 32 c))"
      using assms(3,4) q by (intro fill_last_store [OF assms(1)]) auto
    then show ?thesis using True q by (simp add: word_unat_eq_iff)
  next
    case False
    have "?no x y \<noteq> ?no x' y' \<and> ?no x y \<noteq> ?no x' y' + 1"
      if "x' < ?W" "x' = x \<and> y < y' \<or> x < x'" for x' y'
    proof -
      have "x < ?P" "x' < ?P" using that(1) assms(2) WP by simp_all
      moreover have "\<not> (x = x' \<and> y = y')" "\<not> (x = x' + 1 \<and> y = y')" using that(2) by auto
      moreover have "\<not> (x = 0 \<and> y = y' + 1 \<and> x' + 1 = ?P)" using that(1) False WP by auto
      ultimately show ?thesis by (rule pixel_no_apart)
    qed
    then have "pix (base_address ?f) (Framebuffer__set_all_pixels fb c m) (?no x y)
        = (if ?no x y = ?no x y then ucast c else ucast (drop_bit 32 c))"
      using assms(2,3) by (intro fill_last_store [OF assms(1)]) auto
    then show ?thesis using False by auto
  qed
qed

theorem set_all_pixels_shows_witness:
  "pix 0x1000 (Framebuffer__set_all_pixels 0x100 BLUE small_screen) 2 = 0
   \<and> pix 0x1000 (Framebuffer__set_all_pixels 0x100 BLUE small_screen) 3 = 0xff"
proof -
  have c: "BLUE = 0xff" by code_simp
  show ?thesis
    using set_all_pixels_shows [OF small_screen_ready, of 0 1 BLUE]
      set_all_pixels_shows [OF small_screen_ready, of 1 1 BLUE]
    unfolding c by (simp add: small_framebuffer pixel_no_def)
qed

end
