(* ===== verification/Libc.thy ===== *)
theory Libc
  imports Memory "HOL-Library.Signed_Division"
begin

text \<open>
  The kernel's C library, \<^verbatim>\<open>src/src/libc/stdlib.c\<close>, on the byte memory: the loops that fill and
  copy memory, the string routines and \<open>itoa\<close>. A routine whose loop may not end returns an
  \<open>option\<close>; \<open>None\<close> is "the call does not return".
\<close>

unbundle bit_operations_syntax

section \<open>Memory operations\<close>

text \<open>\<^verbatim>\<open>while (n--) *p++ = v;\<close>\<close>

function memset :: "ptr \<Rightarrow> u8 \<Rightarrow> u64 \<Rightarrow> mem \<Rightarrow> mem" where
  "memset p v n m = (if n = 0 then m else memset (p + 1) v (n - 1) (store8 p v m))"
  by pat_completeness auto
termination
  by (relation "measure (\<lambda>(p, v, n, m). unat n)") (auto simp: measure_unat)

declare memset.simps [simp del]

text \<open>\<^verbatim>\<open>while (n--) *d++ = *s++;\<close>\<close>

function memcpy :: "ptr \<Rightarrow> ptr \<Rightarrow> u64 \<Rightarrow> mem \<Rightarrow> mem" where
  "memcpy d s n m =
     (if n = 0 then m else memcpy (d + 1) (s + 1) (n - 1) (store8 d (load8 m s) m))"
  by pat_completeness auto
termination
  by (relation "measure (\<lambda>(d, s, n, m). unat n)") (auto simp: measure_unat)

declare memcpy.simps [simp del]

lemma memset_apply:
  "memset p v n m x = (if x \<in> region p (unat n) then v else m x)"
proof (induction p v n m rule: memset.induct)
  case (1 p v n m)
  show ?case
  proof (cases "n = 0")
    case True
    then show ?thesis by (simp add: memset.simps)
  next
    case False
    then have n: "unat n = Suc (unat (n - 1))"
      by (metis Suc_unat_minus_one)
    have lt: "unat (n - 1) < 2 ^ 64" by (rule unat64_less)
    have IH: "memset (p + 1) v (n - 1) (store8 p v m) x =
        (if x \<in> region (p + 1) (unat (n - 1)) then v else store8 p v m x)"
      by (rule "1.IH" [OF False])
    show ?thesis
      using IH False region_Suc [of x p] region_not_before [OF lt, of p]
      by (cases "x = p") (simp_all add: memset.simps [of p v n] n store8_apply)
  qed
qed

lemma memcpy_apply:
  assumes "region d (unat n) \<inter> region s (unat n) = {}"
  shows "memcpy d s n m x = (if x \<in> region d (unat n) then m (s + (x - d)) else m x)"
  using assms
proof (induction d s n m rule: memcpy.induct)
  case (1 d s n m)
  show ?case
  proof (cases "n = 0")
    case True
    then show ?thesis by (simp add: memcpy.simps)
  next
    case False
    then have n: "unat n = Suc (unat (n - 1))"
      by (metis Suc_unat_minus_one)
    have lt: "unat (n - 1) < 2 ^ 64" by (rule unat64_less)
    have sub: "region (a + 1) (unat (n - 1)) \<subseteq> region a (unat n)" for a
      by (rule region_sub) (use n unat64_less [of n] in simp_all)
    have IH: "memcpy (d + 1) (s + 1) (n - 1) (store8 d (load8 m s) m) x =
        (if x \<in> region (d + 1) (unat (n - 1))
         then store8 d (load8 m s) m (s + 1 + (x - (d + 1))) else store8 d (load8 m s) m x)"
      using "1.IH" [OF False] "1.prems" sub [of d] sub [of s] by blast
    have d: "d \<in> region d (unat n)" using n by simp
    have "s + (x - d) \<noteq> d" if "x \<in> region d (unat n)"
    proof -
      from that have "s + (x - d) \<in> region s (unat n)" by (simp add: region_iff)
      with "1.prems" d show ?thesis by (metis IntI emptyE)
    qed
    then show ?thesis
      using IH False region_Suc [of x d] region_not_before [OF lt, of d] d
      by (auto simp: memcpy.simps [of d s n] n store8_apply load8_def)
  qed
qed

section \<open>C strings\<close>

text \<open>\<open>cstr m a s\<close>: the bytes \<open>s\<close>, none of them zero, and a terminating zero lie at \<open>a\<close>.\<close>

definition cstr :: "mem \<Rightarrow> ptr \<Rightarrow> u8 list \<Rightarrow> bool" where
  "cstr m a s \<longleftrightarrow> length s < 2 ^ 64 \<and> 0 \<notin> set s \<and>
     (\<forall>i < length s. m (a + word_of_nat i) = s ! i) \<and> m (a + word_of_nat (length s)) = 0"

text \<open>\<^verbatim>\<open>while (str[count] != '\0') count++;\<close>\<close>

partial_function (option) str_len_loop :: "mem \<Rightarrow> ptr \<Rightarrow> u64 \<Rightarrow> u64 option" where
  "str_len_loop m str count =
     (if load8 m (str + count) \<noteq> 0 then str_len_loop m str (count + 1) else Some count)"

definition str_len :: "mem \<Rightarrow> ptr \<Rightarrow> u64 option" where
  "str_len m str = str_len_loop m str 0"

lemma str_len_loop_cstr:
  "cstr m a s \<Longrightarrow> k \<le> length s \<Longrightarrow>
     str_len_loop m a (word_of_nat k) = Some (word_of_nat (length s))"
proof (induction "length s - k" arbitrary: k)
  case 0
  then show ?case by (simp add: str_len_loop.simps cstr_def load8_def)
next
  case (Suc d)
  then have "k < length s" by simp
  moreover from this Suc.prems have "m (a + word_of_nat k) \<noteq> 0"
    by (auto simp: cstr_def) (metis nth_mem)
  moreover have "str_len_loop m a (word_of_nat (Suc k)) = Some (word_of_nat (length s))"
    using Suc.hyps(1) [of "Suc k"] Suc.hyps(2) Suc.prems by simp
  ultimately show ?case
    by (simp add: str_len_loop.simps [of m a "word_of_nat k"] load8_def add.commute)
qed

lemma str_len_cstr: "cstr m a s \<Longrightarrow> str_len m a = Some (word_of_nat (length s))"
  using str_len_loop_cstr [of m a s 0] by (simp add: str_len_def)

lemma str_len_loop_stops: "str_len_loop m str c = Some r \<Longrightarrow> load8 m (str + r) = 0"
  by (rule str_len_loop.raw_induct [where P = "\<lambda>m str c r. load8 m (str + r) = 0"])
    (auto split: if_splits)

section \<open>Byte runs\<close>

text \<open>The \<open>n\<close> bytes at \<open>a\<close> as a list, and memory with a list of bytes written at \<open>a\<close>.\<close>

definition bytes_at :: "mem \<Rightarrow> ptr \<Rightarrow> nat \<Rightarrow> u8 list" where
  "bytes_at m a n = map (\<lambda>i. m (a + word_of_nat i)) [0..<n]"

definition write_bytes :: "ptr \<Rightarrow> u8 list \<Rightarrow> mem \<Rightarrow> mem" where
  "write_bytes a bs m x = (if x \<in> region a (length bs) then bs ! unat (x - a) else m x)"

lemma length_bytes_at [simp]: "length (bytes_at m a n) = n"
  by (simp add: bytes_at_def)

lemma nth_bytes_at [simp]: "i < n \<Longrightarrow> bytes_at m a n ! i = m (a + word_of_nat i)"
  by (simp add: bytes_at_def)

lemma write_bytes_Nil [simp]: "write_bytes a [] m = m"
  by (simp add: write_bytes_def fun_eq_iff)

lemma write_bytes_Cons:
  assumes "length bs < 2 ^ 64"
  shows "write_bytes a (b # bs) m = write_bytes (a + 1) bs (store8 a b m)"
proof
  fix x
  show "write_bytes a (b # bs) m x = write_bytes (a + 1) bs (store8 a b m) x"
  proof (cases "x = a")
    case True
    with assms show ?thesis by (simp add: write_bytes_def store8_def region_not_before)
  next
    case False
    from region_Suc [OF this] show ?thesis using False
      by (simp add: write_bytes_def store8_def)
  qed
qed

lemma write_bytes_at:
  assumes "i < length bs" "length bs \<le> 2 ^ 64"
  shows "write_bytes a bs m (a + word_of_nat i) = bs ! i"
  using assms by (simp add: write_bytes_def region_iff unat_of_nat_small)

lemma cstr_bytes:
  "cstr m a s \<longleftrightarrow> length s < 2 ^ 64 \<and> 0 \<notin> set s \<and> bytes_at m a (length s) = s
     \<and> m (a + word_of_nat (length s)) = 0"
  by (auto simp: cstr_def list_eq_iff_nth_eq)

section \<open>Reversing a buffer in place\<close>

function str_reverse_loop :: "ptr \<Rightarrow> int \<Rightarrow> int \<Rightarrow> mem \<Rightarrow> mem" where
  "str_reverse_loop str len i m =
     (if i < len sdiv 2 then
        let temp = load8 m (str + word_of_int i);
            m1 = store8 (str + word_of_int i) (load8 m (str + word_of_int (len - i - 1))) m;
            m2 = store8 (str + word_of_int (len - i - 1)) temp m1
        in str_reverse_loop str len (i + 1) m2
      else m)"
  by pat_completeness auto
termination
  by (relation "measure (\<lambda>(str, len, i, m). nat (len sdiv 2 - i))") auto

declare str_reverse_loop.simps [simp del]

definition str_reverse :: "ptr \<Rightarrow> int \<Rightarrow> mem \<Rightarrow> mem" where
  "str_reverse str len m = str_reverse_loop str len 0 m"

lemma sdiv_2_nat: "int n sdiv 2 = int (n div 2)"
  by (cases "n = 0") (simp_all add: signed_divide_int_def zdiv_int sgn_if)

text \<open>One round swaps two bytes.\<close>

definition swap_bytes :: "ptr \<Rightarrow> ptr \<Rightarrow> mem \<Rightarrow> mem" where
  "swap_bytes p q m = store8 q (load8 m p) (store8 p (load8 m q) m)"

lemma swap_bytes_apply:
  "swap_bytes p q m x = (if x = q then m p else if x = p then m q else m x)"
  by (simp add: swap_bytes_def store8_apply load8_def)

lemma str_reverse_loop_step:
  assumes "i < n div 2"
  shows "str_reverse_loop a (int n) (int i) m
    = str_reverse_loop a (int n) (int (Suc i)) (swap_bytes (a + word_of_nat i) (a + word_of_nat (n - 1 - i)) m)"
proof -
  have "int n - int i - 1 = int (n - 1 - i)" using assms by linarith
  then have j: "word_of_int (int n - int i - 1) = (word_of_nat (n - 1 - i) :: u64)"
    by (simp only: of_int_of_nat_eq)
  from assms have "int i < int n sdiv 2" by (simp add: sdiv_2_nat)
  then have "str_reverse_loop a (int n) (int i) m
      = str_reverse_loop a (int n) (int i + 1) (swap_bytes (a + word_of_nat i) (a + word_of_nat (n - 1 - i)) m)"
    by (simp only: str_reverse_loop.simps [of a "int n" "int i"] Let_def if_True j of_int_of_nat_eq swap_bytes_def)
  then show ?thesis by (simp only: of_nat_Suc add.commute)
qed

text \<open>Addresses by their distance from the start of the buffer.\<close>

lemma address_at:
  fixes a x :: ptr
  assumes "k < 2 ^ 64"
  shows "x = a + word_of_nat k \<longleftrightarrow> unat (x - a) = k"
proof -
  have "x = a + word_of_nat k \<longleftrightarrow> word_of_nat k = x - a" by (auto simp: algebra_simps)
  with assms show ?thesis by (simp add: word_of_nat_eq_iff_unat)
qed

lemma str_reverse_loop_apply:
  assumes "n \<le> 2 ^ 64" "i \<le> n div 2"
  shows "str_reverse_loop a (int n) (int i) m x =
    (if i \<le> unat (x - a) \<and> unat (x - a) < n - i
     then m (a + word_of_nat (n - 1 - unat (x - a))) else m x)"
  using assms(2)
proof (induction "n div 2 - i" arbitrary: i m)
  case 0
  then have "i = n div 2" by simp
  moreover have "n - 1 - unat (x - a) = unat (x - a)"
    if "i \<le> unat (x - a)" "unat (x - a) < n - i"
    using that \<open>i = n div 2\<close> by linarith
  ultimately show ?case by (simp add: str_reverse_loop.simps sdiv_2_nat)
next
  case (Suc d)
  define u where "u = unat (x - a)"
  define j where "j = n - 1 - i"
  let ?m2 = "swap_bytes (a + word_of_nat i) (a + word_of_nat j) m"
  have i: "i < n div 2" using Suc.hyps(2) by simp
  then have j: "i < j" "n - i = Suc j" "n - Suc i = j" "j < 2 ^ 64" using assms(1) by (simp_all add: j_def)
  have x: "x = a + word_of_nat k \<longleftrightarrow> u = k" if "k < 2 ^ 64" for k
    using address_at [OF that] by (simp add: u_def)
  then have m2x: "?m2 x = (if u = j then m (a + word_of_nat i) else if u = i then m (a + word_of_nat j) else m x)"
    using j by (simp add: swap_bytes_apply)
  have ne: "a + word_of_nat k \<noteq> a + word_of_nat l" if "k < 2 ^ 64" "l < 2 ^ 64" "k \<noteq> l" for k l
    using that address_at [OF that(1), of "a + word_of_nat l" a] by (simp add: unat_of_nat_small)
  have mid: "?m2 (a + word_of_nat (n - 1 - u)) = m (a + word_of_nat (n - 1 - u))" if "Suc i \<le> u" "u < j"
  proof -
    define k where "k = n - 1 - u"
    have "k < 2 ^ 64" "k \<noteq> i" "k \<noteq> j" "i < 2 ^ 64" using that j assms(1) by (simp_all add: k_def)
    then have "a + word_of_nat k \<noteq> a + word_of_nat i" "a + word_of_nat k \<noteq> a + word_of_nat j"
      using ne [of k i] ne [of k j] j(4) by blast+
    then show ?thesis unfolding k_def [symmetric] swap_bytes_apply by (simp only: if_False)
  qed
  have "str_reverse_loop a (int n) (int i) m x = (if Suc i \<le> u \<and> u < j then ?m2 (a + word_of_nat (n - 1 - u)) else ?m2 x)"
    using Suc.hyps(1) [of "Suc i" ?m2] Suc.hyps(2) i
    by (simp add: str_reverse_loop_step [OF i] j_def [symmetric] j(3) u_def)
  also have "\<dots> = (if i \<le> u \<and> u < Suc j then m (a + word_of_nat (n - 1 - u)) else m x)"
  proof -
    consider "u = i" | "u = j" | "Suc i \<le> u" "u < j" | "u < i" | "j < u" by linarith
    then show ?thesis by cases (use j mid m2x in auto)
  qed
  finally show ?case by (simp only: u_def j(2))
qed

lemma str_reverse_bytes:
  assumes "n \<le> 2 ^ 64"
  shows "bytes_at (str_reverse a (int n) m) a n = rev (bytes_at m a n)"
proof (rule nth_equalityI)
  fix i assume "i < length (bytes_at (str_reverse a (int n) m) a n)"
  then have i: "i < n" by simp
  with assms have "unat (word_of_nat i :: u64) = i" by (simp add: unat_of_nat_small)
  with i show "bytes_at (str_reverse a (int n) m) a n ! i = rev (bytes_at m a n) ! i"
    using str_reverse_loop_apply [OF assms, of 0 a m "a + word_of_nat i"]
    by (simp add: str_reverse_def rev_nth)
qed simp

lemma str_reverse_outside:
  assumes "n \<le> 2 ^ 64" "x \<notin> region a n"
  shows "str_reverse a (int n) m x = m x"
  using assms str_reverse_loop_apply [OF assms(1), of 0 a m x]
  by (simp add: str_reverse_def region_iff)

section \<open>Printing a number: \<open>itoa\<close>\<close>

text \<open>
  \<^verbatim>\<open>(rem > 9) ? (rem - 10) + 'a' : rem + '0'\<close>, stored into a \<^verbatim>\<open>char\<close>.
\<close>

definition digit_char :: "u64 \<Rightarrow> u8" where
  "digit_char rem = (if rem > 9 then ucast (rem - 10) + 97 else ucast rem + 48)"

text \<open>
  The digit loop. With base 0 the remainder raises the divide exception, whose handler never
  returns; with base 1 the number never shrinks and the loop does not end.
\<close>

partial_function (option) itoa_loop ::
  "u64 \<Rightarrow> ptr \<Rightarrow> u8 \<Rightarrow> int \<Rightarrow> mem \<Rightarrow> (mem \<times> int) option" where
  "itoa_loop num buf base i m =
     (if num = 0 then Some (m, i)
      else if base = 0 then None
      else itoa_loop (num div ucast base) buf base (i + 1)
             (store8 (buf + word_of_int i) (digit_char (num mod ucast base)) m))"

definition itoa :: "u64 \<Rightarrow> ptr \<Rightarrow> u8 \<Rightarrow> mem \<Rightarrow> mem option" where
  "itoa num buf base m =
     (if num = 0 then Some (store8 (buf + 1) 0 (store8 buf 48 m))
      else case itoa_loop num buf base 0 m of
        None \<Rightarrow> None
      | Some (m1, i) \<Rightarrow> Some (str_reverse buf i (store8 (buf + word_of_int i) 0 m1)))"

text \<open>The digits of a number, least significant first; the digits \<open>'0'\<close> to \<open>'9'\<close> and \<open>'a'\<close> to \<open>'z'\<close>
  of a base, and the number a digit string denotes.\<close>

fun digits_le :: "nat \<Rightarrow> nat \<Rightarrow> nat list" where
  "digits_le b n = (if b < 2 \<or> n = 0 then [] else n mod b # digits_le b (n div b))"

declare digits_le.simps [simp del]

definition numeral_chars :: "u64 \<Rightarrow> u8 \<Rightarrow> u8 list" where
  "numeral_chars num base =
     (if num = 0 then [48]
      else rev (map (\<lambda>d. digit_char (word_of_nat d)) (digits_le (unat base) (unat num))))"

definition char_digit :: "u8 \<Rightarrow> nat" where
  "char_digit c = (if c \<ge> 97 then unat c - 87 else unat c - 48)"

definition is_digit :: "nat \<Rightarrow> u8 \<Rightarrow> bool" where
  "is_digit b c = ((48 \<le> c \<and> c \<le> 57 \<or> 97 \<le> c \<and> c \<le> 122) \<and> char_digit c < b)"

definition parse_number :: "nat \<Rightarrow> u8 list \<Rightarrow> nat" where
  "parse_number b cs = foldl (\<lambda>n c. n * b + char_digit c) 0 cs"

lemma digits_le_less: "d \<in> set (digits_le b n) \<Longrightarrow> d < b"
proof (induction b n rule: digits_le.induct)
  case (1 b n)
  then show ?case by (auto simp: digits_le.simps [of b n] split: if_splits)
qed

lemma digits_le_length: "n < 2 ^ k \<Longrightarrow> length (digits_le b n) \<le> k"
proof (induction b n arbitrary: k rule: digits_le.induct)
  case (1 b n)
  show ?case
  proof (cases "b < 2 \<or> n = 0")
    case True
    then show ?thesis by (simp add: digits_le.simps [of b n])
  next
    case False
    then obtain k' where k: "k = Suc k'"
      using "1.prems" by (cases k) auto
    have "n div b \<le> n div 2" using False by (intro div_le_mono2) auto
    also have "n div 2 < 2 ^ k'" using "1.prems" k by (simp add: less_mult_imp_div_less)
    finally show ?thesis
      using "1.IH" [OF False] k False by (simp add: digits_le.simps [of b n])
  qed
qed

lemma digits_le_length_base: "n < b ^ k \<Longrightarrow> length (digits_le b n) \<le> k"
proof (induction b n arbitrary: k rule: digits_le.induct)
  case (1 b n)
  show ?case
  proof (cases "b < 2 \<or> n = 0")
    case True
    then show ?thesis by (simp add: digits_le.simps [of b n])
  next
    case False
    then obtain k' where k: "k = Suc k'"
      using "1.prems" by (cases k) auto
    have "n div b < b ^ k'" using "1.prems" k by (simp add: less_mult_imp_div_less mult.commute)
    then show ?thesis
      using "1.IH" [OF False] k False by (simp add: digits_le.simps [of b n])
  qed
qed

lemma digits_le_value:
  "2 \<le> b \<Longrightarrow> foldr (\<lambda>d n. n * b + d) (digits_le b n) 0 = n"
proof (induction b n rule: digits_le.induct)
  case (1 b n)
  then show ?case by (auto simp: digits_le.simps [of b n] mult.commute)
qed

lemma digits_le_last: "2 \<le> b \<Longrightarrow> n \<noteq> 0 \<Longrightarrow> last (digits_le b n) \<noteq> 0"
proof (induction b n rule: digits_le.induct)
  case (1 b n)
  show ?case
  proof (cases "n div b = 0")
    case True
    with "1.prems" have "n < b" by (simp add: div_eq_0_iff)
    with "1.prems" True show ?thesis by (simp add: digits_le.simps [of b n] digits_le.simps [of b 0])
  next
    case False
    with "1.prems" "1.IH" have "last (digits_le b (n div b)) \<noteq> 0" by simp
    moreover from "1.prems" False have "digits_le b (n div b) \<noteq> []"
      by (simp add: digits_le.simps [of b "n div b"])
    ultimately show ?thesis using "1.prems" by (simp add: digits_le.simps [of b n])
  qed
qed

lemma digits_le_nonempty: "2 \<le> b \<Longrightarrow> n \<noteq> 0 \<Longrightarrow> digits_le b n \<noteq> []"
  by (simp add: digits_le.simps)

lemma itoa_loop_digits:
  fixes num :: u64 and base :: u8
  assumes "2 \<le> unat base"
  shows "itoa_loop num buf base (int i) m =
    Some (write_bytes (buf + word_of_nat i)
            (map (\<lambda>d. digit_char (word_of_nat d)) (digits_le (unat base) (unat num))) m,
          int (i + length (digits_le (unat base) (unat num))))"
proof (induction "unat num" arbitrary: num i m rule: less_induct)
  case less
  let ?c = "\<lambda>d. digit_char (word_of_nat d)"
  let ?ds = "\<lambda>n. digits_le (unat base) (unat n)"
  show ?case
  proof (cases "num = 0")
    case True
    then show ?thesis by (simp add: itoa_loop.simps digits_le.simps)
  next
    case False
    have b: "unat (ucast base :: u64) = unat base"
      by (simp add: unat_ucast_up)
    have "base \<noteq> 0" using assms by auto
    have q: "unat (num div ucast base) = unat num div unat base"
      by (simp add: unat_div_distrib b)
    have r: "num mod ucast base = word_of_nat (unat num mod unat base)"
      by (metis unat_mod_distrib b word_of_unat)
    have "0 < unat num" using False by (simp add: unat_gt_0)
    then have lt: "unat (num div ucast base) < unat num" using assms by (simp add: q)
    have ds: "?ds num = unat num mod unat base # ?ds (num div ucast base)"
      using assms False by (subst digits_le.simps) (simp add: q unat_eq_zero)
    have len: "length (map ?c (?ds (num div ucast base))) < 2 ^ 64"
      using digits_le_length [OF unat64_less, of "unat base" "num div ucast base"] by simp
    have "itoa_loop num buf base (int i) m =
        itoa_loop (num div ucast base) buf base (int (Suc i))
          (store8 (buf + word_of_nat i) (?c (unat num mod unat base)) m)"
      using False \<open>base \<noteq> 0\<close>
      by (simp add: itoa_loop.simps [of num] r add.commute)
    also have "\<dots> = Some (write_bytes (buf + word_of_nat (Suc i)) (map ?c (?ds (num div ucast base)))
          (store8 (buf + word_of_nat i) (?c (unat num mod unat base)) m),
          int (Suc i + length (?ds (num div ucast base))))"
      by (rule less.hyps [OF lt])
    also have "write_bytes (buf + word_of_nat (Suc i)) (map ?c (?ds (num div ucast base)))
          (store8 (buf + word_of_nat i) (?c (unat num mod unat base)) m)
        = write_bytes (buf + word_of_nat i) (map ?c (?ds num)) m"
      unfolding ds list.map write_bytes_Cons [OF len] by (simp add: ac_simps)
    finally show ?thesis by (simp add: ds)
  qed
qed

lemma digit_char_range:
  assumes "d < 36"
  shows "digit_char (word_of_nat d) \<noteq> 0" "char_digit (digit_char (word_of_nat d)) = d"
    "is_digit (Suc d) (digit_char (word_of_nat d))"
proof -
  have "d \<in> set [0..<36]" using assms by simp
  moreover have "\<forall>d \<in> set [0..<36]. digit_char (word_of_nat d) \<noteq> 0
      \<and> char_digit (digit_char (word_of_nat d)) = d \<and> is_digit (Suc d) (digit_char (word_of_nat d))"
    by code_simp
  ultimately show "digit_char (word_of_nat d) \<noteq> 0" "char_digit (digit_char (word_of_nat d)) = d"
    "is_digit (Suc d) (digit_char (word_of_nat d))"
    by blast+
qed

lemma is_digit_mono: "is_digit b c \<Longrightarrow> b \<le> b' \<Longrightarrow> is_digit b' c"
  by (auto simp: is_digit_def)

lemma numeral_chars_length: "length (numeral_chars num base) \<le> 64"
  using digits_le_length [OF unat64_less, of "unat base" num] by (simp add: numeral_chars_def)

lemma numeral_chars_nonzero:
  assumes "unat base \<le> 36"
  shows "0 \<notin> set (numeral_chars num base)"
proof -
  have "digit_char (word_of_nat d) \<noteq> 0" if "d \<in> set (digits_le (unat base) (unat num))" for d
  proof (rule digit_char_range(1))
    from digits_le_less [OF that] assms show "d < 36" by simp
  qed
  then have "0 \<notin> set (map (\<lambda>d. digit_char (word_of_nat d)) (digits_le (unat base) (unat num)))"
    by (metis (no_types, lifting) imageE set_map)
  then show ?thesis by (simp only: numeral_chars_def set_rev split: if_split) simp
qed

lemma numeral_chars_digits:
  assumes "2 \<le> unat base" "unat base \<le> 36"
  shows "\<forall>c \<in> set (numeral_chars num base). is_digit (unat base) c"
proof -
  have "is_digit (unat base) (digit_char (word_of_nat d))" if "d \<in> set (digits_le (unat base) (unat num))" for d
  proof -
    from digits_le_less [OF that] assms have d: "d < 36" "Suc d \<le> unat base" by simp_all
    from is_digit_mono [OF digit_char_range(3) [OF d(1)] d(2)] show ?thesis .
  qed
  moreover have "is_digit (unat base) 48" using assms by (simp add: is_digit_def char_digit_def)
  ultimately show ?thesis by (simp add: numeral_chars_def)
qed

lemma numeral_chars_leading:
  assumes "2 \<le> unat base" "unat base \<le> 36" "num \<noteq> 0"
  shows "char_digit (hd (numeral_chars num base)) \<noteq> 0"
proof -
  let ?ds = "digits_le (unat base) (unat num)"
  have n: "unat num \<noteq> 0" using assms(3) by (simp add: unat_eq_zero)
  have ds: "?ds \<noteq> []" by (rule digits_le_nonempty [OF assms(1) n])
  then have "last ?ds < 36" using digits_le_less [OF last_in_set] assms(2) by (meson order_less_le_trans)
  with digits_le_last [OF assms(1) n] ds assms(3) show ?thesis
    by (simp add: numeral_chars_def hd_rev last_map digit_char_range(2))
qed

lemma foldr_digit_chars:
  assumes "b \<le> 36" "set ds \<subseteq> {..<b}"
  shows "foldr (\<lambda>c n. n * b + char_digit c) (map (\<lambda>d. digit_char (word_of_nat d)) ds) 0
      = foldr (\<lambda>d n. n * b + d) ds 0"
  using assms(2)
proof (induction ds)
  case Nil
  show ?case by simp
next
  case (Cons d ds)
  then have "d < 36" using assms(1) by simp
  from digit_char_range(2) [OF this] Cons show ?case by simp
qed

lemma numeral_chars_value:
  assumes "2 \<le> unat base" "unat base \<le> 36"
  shows "parse_number (unat base) (numeral_chars num base) = unat num"
proof (cases "num = 0")
  case True
  then show ?thesis by (simp add: numeral_chars_def parse_number_def char_digit_def)
next
  case False
  have "set (digits_le (unat base) (unat num)) \<subseteq> {..<unat base}"
    using digits_le_less by auto
  from foldr_digit_chars [OF assms(2) this] False show ?thesis
    unfolding numeral_chars_def parse_number_def foldl_conv_foldr
    by (simp only: if_False rev_rev_ident digits_le_value [OF assms(1)])
qed

text \<open>What \<open>itoa\<close> leaves in memory, for every base from 2 on.\<close>

lemma itoa_nonzero:
  fixes num :: u64
  assumes "2 \<le> unat base" "num \<noteq> 0"
  defines "n \<equiv> length (numeral_chars num base)"
  obtains m' where "itoa num buf base m = Some m'" "bytes_at m' buf n = numeral_chars num base"
    "m' (buf + word_of_nat n) = 0" "\<And>x. x \<notin> region buf (Suc n) \<Longrightarrow> m' x = m x"
proof -
  let ?cs = "map (\<lambda>d. digit_char (word_of_nat d)) (digits_le (unat base) (unat num))"
  have nc: "numeral_chars num base = rev ?cs" "n = length ?cs"
    using assms(2) by (simp_all add: numeral_chars_def n_def)
  have n: "n \<le> 64"
    using digits_le_length [OF unat64_less, of "unat base" num] by (simp add: nc(2))
  define m1 where "m1 = store8 (buf + word_of_nat n) 0 (write_bytes buf ?cs m)"
  have it: "itoa num buf base m = Some (str_reverse buf (int n) m1)"
    using assms(2) itoa_loop_digits [OF assms(1), of num buf 0 m]
    by (simp add: itoa_def m1_def nc(2))
  have fin: "buf + word_of_nat n \<notin> region buf n"
    using n by (simp add: region_iff unat_of_nat_small)
  have "bytes_at m1 buf n = ?cs"
  proof (rule nth_equalityI)
    fix i assume "i < length (bytes_at m1 buf n)"
    then have i: "i < n" by simp
    then have "buf + word_of_nat i \<in> region buf n" using n by (intro region_offset) simp_all
    with fin have "buf + word_of_nat i \<noteq> buf + word_of_nat n" by metis
    then show "bytes_at m1 buf n ! i = ?cs ! i"
      using i n by (simp add: m1_def store8_apply write_bytes_at nc(2))
  qed (simp add: nc(2))
  then have "bytes_at (str_reverse buf (int n) m1) buf n = numeral_chars num base"
    using n nc by (simp add: str_reverse_bytes)
  moreover have "str_reverse buf (int n) m1 (buf + word_of_nat n) = 0"
    using n fin by (simp add: str_reverse_outside m1_def store8_apply)
  moreover have "str_reverse buf (int n) m1 x = m x" if "x \<notin> region buf (Suc n)" for x
  proof -
    from that have "x \<notin> region buf n" "x \<noteq> buf + word_of_nat n"
      using n by (auto simp: region_iff unat_of_nat_small)
    then show ?thesis
      using n by (simp add: str_reverse_outside m1_def store8_apply write_bytes_def nc(2))
  qed
  ultimately show ?thesis
    using it nc by (intro that [of "str_reverse buf (int n) m1"]) simp_all
qed

lemma itoa_result:
  fixes num :: u64
  assumes "2 \<le> unat base"
  obtains m' where "itoa num buf base m = Some m'"
    and "bytes_at m' buf (length (numeral_chars num base)) = numeral_chars num base"
    and "m' (buf + word_of_nat (length (numeral_chars num base))) = 0"
    and "\<And>x. x \<notin> region buf (Suc (length (numeral_chars num base))) \<Longrightarrow> m' x = m x"
proof (cases "num = 0")
  case True
  let ?m' = "store8 (buf + 1) 0 (store8 buf 48 m)"
  show ?thesis
  proof (rule that [of ?m'])
    show "itoa num buf base m = Some ?m'" using True by (simp add: itoa_def)
    have "buf \<noteq> buf + 1" by simp
    with True show "bytes_at ?m' buf (length (numeral_chars num base)) = numeral_chars num base"
      by (simp add: numeral_chars_def bytes_at_def store8_apply)
    show "?m' (buf + word_of_nat (length (numeral_chars num base))) = 0"
      using True by (simp add: numeral_chars_def store8_apply)
    fix x assume "x \<notin> region buf (Suc (length (numeral_chars num base)))"
    then have "\<not> unat (x - buf) < 2" using True by (simp add: numeral_chars_def region_iff)
    then show "?m' x = m x" by (auto simp: store8_apply)
  qed
next
  case False
  then show ?thesis by (rule itoa_nonzero [OF assms]) (rule that)
qed

section \<open>Comparing strings\<close>

text \<open>
  \<^verbatim>\<open>while (*str1) { if (*str1 != *str2) break; str1++; str2++; }\<close>, then the difference of the
  two bytes the loop stopped at, truncated to \<^verbatim>\<open>uint8_t\<close>.
\<close>

partial_function (option) strcmp :: "mem \<Rightarrow> ptr \<Rightarrow> ptr \<Rightarrow> u8 option" where
  "strcmp m str1 str2 =
     (if load8 m str1 \<noteq> 0 then
        if load8 m str1 \<noteq> load8 m str2 then Some (load8 m str1 - load8 m str2)
        else strcmp m (str1 + 1) (str2 + 1)
      else Some (load8 m str1 - load8 m str2))"

function strncmp_loop :: "mem \<Rightarrow> ptr \<Rightarrow> ptr \<Rightarrow> u64 \<Rightarrow> ptr \<times> ptr \<times> u64" where
  "strncmp_loop m str1 str2 n =
     (if n \<noteq> 0 \<and> load8 m str1 \<noteq> 0 \<and> load8 m str1 = load8 m str2
      then strncmp_loop m (str1 + 1) (str2 + 1) (n - 1)
      else (str1, str2, n))"
  by pat_completeness auto
termination
  by (relation "measure (\<lambda>(m, str1, str2, n). unat n)") (auto simp: measure_unat)

declare strncmp_loop.simps [simp del]

definition strncmp :: "mem \<Rightarrow> ptr \<Rightarrow> ptr \<Rightarrow> u64 \<Rightarrow> u8" where
  "strncmp m str1 str2 n =
     (let (s1, s2, n) = strncmp_loop m str1 str2 n
      in if n = 0 then 0 else load8 m s1 - load8 m s2)"

text \<open>
  The first \<open>n\<close> bytes agree as C strings: byte by byte up to the first zero, which counts.
\<close>

fun agree :: "mem \<Rightarrow> ptr \<Rightarrow> ptr \<Rightarrow> nat \<Rightarrow> bool" where
  "agree m a b 0 = True"
| "agree m a b (Suc n) = (m a = m b \<and> (m a = 0 \<or> agree m (a + 1) (b + 1) n))"

lemma agree_iff:
  "agree m a b n \<longleftrightarrow> (\<forall>i < n. (\<forall>j < i. m (a + word_of_nat j) \<noteq> 0)
     \<longrightarrow> m (a + word_of_nat i) = m (b + word_of_nat i))"
  by (induction n arbitrary: a b) (auto simp: All_less_Suc2 ac_simps)

lemma strncmp_agree: "strncmp m a b n = 0 \<longleftrightarrow> agree m a b (unat n)"
proof (induction m a b n rule: strncmp_loop.induct)
  case (1 m a b n)
  show ?case
  proof (cases "n = 0")
    case True
    then show ?thesis by (simp add: strncmp_def strncmp_loop.simps)
  next
    case False
    then have n: "unat n = Suc (unat (n - 1))" by (simp add: Suc_unat_minus_one)
    show ?thesis
      using 1 False unfolding n
      by (auto simp: strncmp_def strncmp_loop.simps [of m a b n] load8_def)
  qed
qed

lemma strcmp_cstr:
  "length s < 2 ^ 64 \<Longrightarrow> cstr m a s \<Longrightarrow> cstr m b t
     \<Longrightarrow> \<exists>d. strcmp m a b = Some d \<and> (d = 0 \<longleftrightarrow> s = t)"
proof (induction s arbitrary: a b t)
  case Nil
  then show ?case
    by (cases t) (auto simp: strcmp.simps [of m a b] load8_def cstr_def All_less_Suc2)
next
  case (Cons c s)
  have c: "m a = c" "c \<noteq> 0" "cstr m (a + 1) s"
    using Cons.prems(2) by (auto simp: cstr_def All_less_Suc2 ac_simps)
  show ?case
  proof (cases t)
    case Nil
    with Cons.prems(3) c show ?thesis
      by (simp add: strcmp.simps [of m a b] load8_def cstr_def)
  next
    case (Cons c' t')
    then have c': "m b = c'" "c' \<noteq> 0" "cstr m (b + 1) t'"
      using Cons.prems(3) by (auto simp: cstr_def All_less_Suc2 ac_simps)
    from Cons.IH [OF _ c(3) c'(3)] Cons.prems(1)
    obtain d where "strcmp m (a + 1) (b + 1) = Some d" "d = 0 \<longleftrightarrow> s = t'" by auto
    with c c' \<open>t = c' # t'\<close> show ?thesis
      by (simp add: strcmp.simps [of m a b] load8_def)
  qed
qed

section \<open>Properties\<close>

text \<open>C33. \<^verbatim>\<open>memset\<close> and \<^verbatim>\<open>memcpy\<close> (stdlib.c) change the \<open>n\<close> bytes of their destination and no
  other: to the byte given, or to the bytes the source had before the call, where the two
  ranges do not overlap.\<close>

theorem memory_routines:
  assumes "region d (unat n) \<inter> region s (unat n) = {}"
  shows "memset p v n m x = (if unat (x - p) < unat n then v else m x)
    \<and> memcpy d s n m x = (if unat (x - d) < unat n then m (s + (x - d)) else m x)"
  using memcpy_apply [OF assms] by (simp add: memset_apply region_iff)

theorem memory_routines_witness:
  "memset 0x10 7 3 (\<lambda>_. 0) 0x12 = 7 \<and> memcpy 0x20 0x10 3 ((\<lambda>_. 0)(0x11 := 5)) 0x21 = 5"
  using memory_routines [of "0x20" 3 "0x10" "0x10" 7 "\<lambda>_. 0" "0x12"]
    memory_routines [of "0x20" 3 "0x10" "0x10" 7 "(\<lambda>_. 0)(0x11 := 5)" "0x21"]
  by (simp add: disjoint_iff region_interval)

text \<open>C32. \<^verbatim>\<open>str_len\<close> and \<^verbatim>\<open>str_reverse\<close> (stdlib.c) on a string of less than 2 GiB: the length is
  the number of bytes before the terminating zero, and reversing the string's bytes in place
  leaves the reversed string, with every byte outside it as it was.\<close>

theorem string_routines:
  assumes "cstr m a s" "length s < 2 ^ 31"
  shows "str_len m a = Some (word_of_nat (length s))
    \<and> cstr (str_reverse a (int (length s)) m) a (rev s)
    \<and> (unat (x - a) < length s \<or> str_reverse a (int (length s)) m x = m x)"
proof -
  have n: "length s \<le> 2 ^ 64" using assms(2) by simp
  have "a + word_of_nat (length s) \<notin> region a (length s)"
    using assms(2) by (simp add: region_iff unat_of_nat_small)
  with str_reverse_outside [OF n this] assms have "cstr (str_reverse a (int (length s)) m) a (rev s)"
    by (simp add: cstr_bytes str_reverse_bytes)
  then show ?thesis
    using str_len_cstr [OF assms(1)] str_reverse_outside [OF n, of x a] by (auto simp: region_iff)
qed

theorem string_routines_witness:
  "str_len ((\<lambda>_. 0)(0x10 := 65, 0x11 := 66)) 0x10 = Some 2
   \<and> str_reverse 0x10 2 ((\<lambda>_. 0)(0x10 := 65, 0x11 := 66)) 0x10 = 66"
proof -
  let ?m = "(\<lambda>_. 0)(0x10 := 65, 0x11 := 66 :: u8)"
  have "cstr ?m 0x10 [65, 66]" by (simp add: cstr_def All_less_Suc2)
  from string_routines [OF this]
  have "str_len ?m 0x10 = Some 2 \<and> cstr (str_reverse 0x10 2 ?m) 0x10 [66, 65]" by simp
  then show ?thesis by (simp add: cstr_def All_less_Suc2)
qed

text \<open>C15. \<^verbatim>\<open>itoa\<close> (stdlib.c) in a base from 2 to 36 returns, leaves in the buffer a terminated string
  of at most 64 characters, all of them digits of that base, with no leading zero unless the number
  is 0, that reads back as the number in that base, and writes to no byte behind the terminator.\<close>

theorem itoa_roundtrip:
  assumes "2 \<le> base" "base \<le> 36"
  shows "\<exists>m' s. itoa num buf base m = Some m' \<and> cstr m' buf s \<and> length s \<le> 64
    \<and> parse_number (unat base) s = unat num
    \<and> (\<forall>c \<in> set s. is_digit (unat base) c)
    \<and> (num \<noteq> 0 \<longrightarrow> char_digit (hd s) \<noteq> 0)
    \<and> (\<forall>x. length s < unat (x - buf) \<longrightarrow> m' x = m x)"
proof -
  have b: "2 \<le> unat base" "unat base \<le> 36" using assms by (simp_all add: word_le_nat_alt)
  obtain m' where m': "itoa num buf base m = Some m'"
    "bytes_at m' buf (length (numeral_chars num base)) = numeral_chars num base"
    "m' (buf + word_of_nat (length (numeral_chars num base))) = 0"
    "\<And>x. x \<notin> region buf (Suc (length (numeral_chars num base))) \<Longrightarrow> m' x = m x"
    using itoa_result [OF b(1), of num buf m] by blast
  have "cstr m' buf (numeral_chars num base)"
    using m' numeral_chars_length [of num base] numeral_chars_nonzero [OF b(2)]
    by (simp add: cstr_bytes)
  with m' numeral_chars_length numeral_chars_value [OF b] numeral_chars_digits [OF b]
    numeral_chars_leading [OF b] show ?thesis
    by (intro exI [of _ m'] exI [of _ "numeral_chars num base"]) (simp add: region_iff)
qed

theorem itoa_roundtrip_witness:
  "\<exists>m' s. itoa 123 0x100 10 (\<lambda>_. 0xff) = Some m' \<and> cstr m' 0x100 s \<and> parse_number 10 s = 123"
  using itoa_roundtrip [of 10 123 "0x100" "\<lambda>_. 0xff"] by auto

text \<open>C31. \<^verbatim>\<open>itoa\<close> (stdlib.c) returns exactly when the number is 0 or the base is at least 2: in
  base 1 its loop does not end, in base 0 it divides by zero.\<close>

theorem itoa_returns_iff:
  "itoa num buf base m = None \<longleftrightarrow> num \<noteq> 0 \<and> base < 2"
proof -
  have stuck: "n = 0" if "itoa_loop n b 1 i m = Some r" for n b i m r
  proof -
    have "(1 :: u8) = 1 \<longrightarrow> n = 0"
      by (rule itoa_loop.raw_induct [OF _ that, where P = "\<lambda>num buf base i m r. base = 1 \<longrightarrow> num = 0"])
        (auto split: if_splits)
    then show ?thesis by simp
  qed
  consider "base = 0" | "base = 1" | "2 \<le> base"
  proof -
    have "unat base = 0 \<or> unat base = 1 \<or> 2 \<le> unat base" by linarith
    then show thesis using that by (auto simp: word_unat_eq_iff word_le_nat_alt)
  qed
  then show ?thesis
  proof cases
    case 1
    then show ?thesis by (simp add: itoa_def itoa_loop.simps [of num])
  next
    case 2
    have "itoa_loop num buf 1 0 m = None" if "num \<noteq> 0"
      using stuck [of num buf 0 m] that by (cases "itoa_loop num buf 1 0 m") auto
    with 2 show ?thesis by (simp add: itoa_def)
  next
    case 3
    then have b: "2 \<le> unat base" by (simp add: word_le_nat_alt)
    then have "itoa num buf base m \<noteq> None"
      using itoa_result [OF b, of num buf m] by (metis option.distinct(1))
    moreover have "\<not> base < 2" using 3 by simp
    ultimately show ?thesis by blast
  qed
qed

text \<open>C30. \<^verbatim>\<open>strncmp\<close> (stdlib.c) returns 0 exactly when the strings agree on their first \<open>n\<close> bytes
  up to the first zero; \<^verbatim>\<open>strcmp\<close> on two terminated strings returns, with 0 exactly when they are
  equal: the truncation of the difference to eight bits never makes it 0.\<close>

theorem string_comparison:
  assumes "cstr m a s" "cstr m b t"
  shows "(strncmp m p q n = 0 \<longleftrightarrow> (\<forall>i < unat n. (\<forall>j < i. m (p + word_of_nat j) \<noteq> 0)
        \<longrightarrow> m (p + word_of_nat i) = m (q + word_of_nat i)))
    \<and> (\<exists>d. strcmp m a b = Some d \<and> (d = 0 \<longleftrightarrow> s = t))"
proof -
  have "length s < 2 ^ 64" using assms(1) by (simp add: cstr_def)
  from strcmp_cstr [OF this assms] show ?thesis
    unfolding strncmp_agree agree_iff by blast
qed

theorem string_comparison_witness:
  "strcmp ((\<lambda>_. 0)(0x10 := 65, 0x20 := 65, 0x21 := 66)) 0x10 0x20 \<noteq> Some 0"
proof -
  let ?m = "(\<lambda>_. 0)(0x10 := 65, 0x20 := 65, 0x21 := 66 :: u8)"
  have "cstr ?m 0x10 [65]" "cstr ?m 0x20 [65, 66]" by (simp_all add: cstr_def All_less_Suc2)
  from string_comparison [OF this] show ?thesis by auto
qed

end
