(* ===== verification/Console.thy ===== *)
theory Console
  imports Framebuffer Libc
begin

text \<open>
  The console, \<^verbatim>\<open>src/src/console/console.c\<close> and \<^verbatim>\<open>console.h\<close>: a cursor, the characters it draws on
  the framebuffer, and formatted output. \<open>fb\<close> is \<^verbatim>\<open>kernel.framebuffer\<close>; the state is the memory
  and the global \<^verbatim>\<open>cursor\<close>.
\<close>

unbundle bit_operations_syntax

section \<open>The cursor\<close>

record ConsoleCursor =
  line :: u16
  column :: u16
  max_lines :: u16
  max_columns :: u16
  fg_color :: u32
  bg_color :: u32

abbreviation CURSOR_MAX_LINES :: u16 where "CURSOR_MAX_LINES \<equiv> 37"
abbreviation CURSOR_MAX_COLUMNS :: u16 where "CURSOR_MAX_COLUMNS \<equiv> 100"

definition initial_cursor :: ConsoleCursor where
  "initial_cursor = \<lparr>line = 0, column = 0, max_lines = CURSOR_MAX_LINES, max_columns = CURSOR_MAX_COLUMNS,
     fg_color = ucast WHITE, bg_color = ucast BLACK\<rparr>"

definition ConsoleCursor__new_line :: "ConsoleCursor \<Rightarrow> ConsoleCursor" where
  "ConsoleCursor__new_line self = self\<lparr>column := 0, line := line self + 1\<rparr>"

text \<open>\<^verbatim>\<open>self->column + 1 == self->max_columns\<close> compares two values of type \<^verbatim>\<open>int\<close>.\<close>

definition ConsoleCursor__next :: "ConsoleCursor \<Rightarrow> ConsoleCursor" where
  "ConsoleCursor__next self =
     (if (ucast (column self) + 1 :: u32) = ucast (max_columns self)
      then ConsoleCursor__new_line self
      else self\<lparr>column := column self + 1\<rparr>)"

definition ConsoleCursor__back :: "ConsoleCursor \<Rightarrow> ConsoleCursor" where
  "ConsoleCursor__back self =
     (if column self = 0 then
        if line self > 0 then self\<lparr>column := max_columns self, line := line self - 1\<rparr> else self
      else self\<lparr>column := column self - 1\<rparr>)"

definition ConsoleCursor__reset :: "ConsoleCursor \<Rightarrow> ConsoleCursor" where
  "ConsoleCursor__reset self = self\<lparr>column := 0, line := 0\<rparr>"

definition ConsoleCursor__gotoxy :: "ConsoleCursor \<Rightarrow> u16 \<Rightarrow> u16 \<Rightarrow> ConsoleCursor" where
  "ConsoleCursor__gotoxy self x y = self\<lparr>column := x, line := y\<rparr>"

definition ConsoleCursor__set_fg_color :: "ConsoleCursor \<Rightarrow> u32 \<Rightarrow> ConsoleCursor" where
  "ConsoleCursor__set_fg_color self color = self\<lparr>fg_color := color\<rparr>"

definition ConsoleCursor__set_bg_color :: "ConsoleCursor \<Rightarrow> u32 \<Rightarrow> ConsoleCursor" where
  "ConsoleCursor__set_bg_color self color = self\<lparr>bg_color := color\<rparr>"

section \<open>The console\<close>

text \<open>The font is in memory: a pointer to its header (whose \<^verbatim>\<open>charsize\<close> is at offset 3), the size
  of a glyph and a pointer to the glyphs.\<close>

record PsfHeader =
  psf_magic :: "u8 list"
  psf_mode :: u8
  psf_charsize :: u8

definition psf_header_at :: "mem \<Rightarrow> ptr \<Rightarrow> PsfHeader" where
  "psf_header_at m p = \<lparr>psf_magic = [load8 m p, load8 m (p + 1)], psf_mode = load8 m (p + 2),
     psf_charsize = load8 m (p + 3)\<rparr>"

record ConsoleFont =
  charsize :: u8
  glyph_height :: u8
  glyph_width :: u8
  glyph_buffer :: ptr

definition font_at :: "mem \<Rightarrow> ptr \<Rightarrow> ConsoleFont" where
  "font_at m p = \<lparr>charsize = psf_charsize (psf_header_at m (load64 m p)), glyph_height = load8 m (p + 8),
     glyph_width = load8 m (p + 9), glyph_buffer = load64 m (p + 16)\<rparr>"

text \<open>The console's cursor is always the global one, which is part of the state below.\<close>

record Console =
  console_font :: ptr
  console_framebuffer :: ptr
  console_initialized :: bool

definition Console__init :: "ptr \<Rightarrow> ptr \<Rightarrow> Console \<Rightarrow> Console" where
  "Console__init font framebuffer console =
     (if console_initialized console then console
      else console\<lparr>console_font := font, console_framebuffer := framebuffer,
                   console_initialized := True\<rparr>)"

record screen =
  s_ram :: mem
  s_cursor :: ConsoleCursor

definition on_cursor :: "(ConsoleCursor \<Rightarrow> ConsoleCursor) \<Rightarrow> screen \<Rightarrow> screen" where
  "on_cursor f s = s\<lparr>s_cursor := f (s_cursor s)\<rparr>"

definition char_glyph :: "ConsoleFont \<Rightarrow> ConsoleCursor \<Rightarrow> u16 \<Rightarrow> Glyph" where
  "char_glyph font c chr =
     \<lparr>g_bitmap = glyph_buffer font + scast (ucast chr * ucast (charsize font) :: u32),
      g_x_off = column c * ucast (glyph_width font),
      g_y_off = line c * ucast (glyph_height font),
      g_height = glyph_height font, g_width = glyph_width font,
      g_fg_color = fg_color c, g_bg_color = bg_color c\<rparr>"

definition Console__print_char :: "ptr \<Rightarrow> Console \<Rightarrow> u16 \<Rightarrow> screen \<Rightarrow> screen" where
  "Console__print_char fb self chr s =
     (if chr = 10 then on_cursor ConsoleCursor__new_line s
      else if chr = 9 then
        on_cursor ConsoleCursor__next (on_cursor ConsoleCursor__next (on_cursor ConsoleCursor__next s))
      else
        let glyph = char_glyph (font_at (s_ram s) (console_font self)) (s_cursor s) chr;
            s1 = s\<lparr>s_ram := Framebuffer__print_glyph fb glyph (s_ram s)\<rparr>
        in on_cursor ConsoleCursor__next s1)"

definition Console__clear_screen :: "ptr \<Rightarrow> Console \<Rightarrow> screen \<Rightarrow> screen" where
  "Console__clear_screen fb self s =
     on_cursor ConsoleCursor__reset
       (for_bound (0 :: u32) (\<lambda>s. ucast (max_lines (s_cursor s)) * ucast (max_columns (s_cursor s)))
          (\<lambda>_. Console__print_char fb self 0x20)
          (on_cursor ConsoleCursor__reset s))"

text \<open>A \<^verbatim>\<open>char\<close> of the string is signed and is converted to \<^verbatim>\<open>uint16_t\<close> with its sign.\<close>

partial_function (option) Console__print_str :: "ptr \<Rightarrow> Console \<Rightarrow> ptr \<Rightarrow> screen \<Rightarrow> screen option" where
  "Console__print_str fb self str s =
     (if load8 (s_ram s) str \<noteq> 0
      then Console__print_str fb self (str + 1)
             (Console__print_char fb self (scast (load8 (s_ram s) str)) s)
      else Some s)"

text \<open>\<open>str\<close> is the address of the local array of 32 bytes.\<close>

definition Console__print_int :: "ptr \<Rightarrow> Console \<Rightarrow> ptr \<Rightarrow> u64 \<Rightarrow> u8 \<Rightarrow> screen \<Rightarrow> screen option" where
  "Console__print_int fb self str num base s =
     (case itoa num str base (s_ram s) of None \<Rightarrow> None
      | Some m \<Rightarrow> Console__print_str fb self str (s\<lparr>s_ram := m\<rparr>))"

section \<open>Formatted output\<close>

text \<open>
  One argument rendered: \<^verbatim>\<open>str_len\<close> of the source of the copy and \<^verbatim>\<open>memcpy\<close> into the buffer at
  \<open>j\<close>. \<open>buf\<close> and \<open>temp_buf\<close> are the addresses of the local arrays; the variable arguments are a
  list of 64-bit values, and asking for one more than there are has no defined result.
\<close>

definition copy_arg :: "ptr \<Rightarrow> u16 \<Rightarrow> ptr \<Rightarrow> mem \<Rightarrow> (mem \<times> u16) option" where
  "copy_arg buf j arg m =
     (case str_len m arg of None \<Rightarrow> None
      | Some temp_len \<Rightarrow> Some (memcpy (buf + ucast j) arg temp_len m, j + ucast temp_len))"

definition print_number :: "ptr \<Rightarrow> ptr \<Rightarrow> u16 \<Rightarrow> u64 \<Rightarrow> u8 \<Rightarrow> mem \<Rightarrow> (mem \<times> u16) option" where
  "print_number buf temp_buf j arg base m =
     (case itoa arg temp_buf base m of None \<Rightarrow> None | Some m1 \<Rightarrow> copy_arg buf j temp_buf m1)"

definition format_arg ::
  "ptr \<Rightarrow> ptr \<Rightarrow> u8 \<Rightarrow> u16 \<Rightarrow> u64 list \<Rightarrow> mem \<Rightarrow> (mem \<times> u16 \<times> u64 list) option" where
  "format_arg buf temp_buf c j args m =
     (if c = 115 then
        (case args of [] \<Rightarrow> None | arg # rest \<Rightarrow>
           map_option (\<lambda>(m', j'). (m', j', rest)) (copy_arg buf j arg m))
      else if c = 100 then
        (case args of [] \<Rightarrow> None | arg # rest \<Rightarrow>
           map_option (\<lambda>(m', j'). (m', j', rest)) (print_number buf temp_buf j arg 10 m))
      else if c = 112 then
        (case args of [] \<Rightarrow> None | arg # rest \<Rightarrow>
           map_option (\<lambda>(m', j'). (m', j', rest)) (print_number buf temp_buf j arg 16 m))
      else Some (m, j, args))"

partial_function (option) printf_loop ::
  "ptr \<Rightarrow> ptr \<Rightarrow> ptr \<Rightarrow> u64 \<Rightarrow> u16 \<Rightarrow> u16 \<Rightarrow> bool \<Rightarrow> u64 list \<Rightarrow> mem \<Rightarrow> (mem \<times> u16) option" where
  "printf_loop str buf temp_buf len i j is_percent args m =
     (if ucast i < len then
        if is_percent then
          (case format_arg buf temp_buf (load8 m (str + ucast i)) j args m of None \<Rightarrow> None
           | Some (m', j', args') \<Rightarrow> printf_loop str buf temp_buf len (i + 1) j' False args' m')
        else if load8 m (str + ucast i) = 37 then
          printf_loop str buf temp_buf len (i + 1) j True args m
        else
          printf_loop str buf temp_buf len (i + 1) (j + 1) False args
            (store8 (buf + ucast j) (load8 m (str + ucast i)) m)
      else Some (m, j))"

text \<open>The two buffers are passed as a pair \<open>(buf, temp_buf)\<close>.\<close>

definition Console__printf ::
  "ptr \<Rightarrow> Console \<Rightarrow> ptr \<times> ptr \<Rightarrow> ptr \<Rightarrow> u64 list \<Rightarrow> screen \<Rightarrow> screen option" where
  "Console__printf fb self bufs str args s =
     (let (buf, temp_buf) = bufs;
          m1 = memset buf 0 4096 (s_ram s);
          m2 = memset temp_buf 0 64 m1
      in case str_len m2 str of None \<Rightarrow> None
      | Some len \<Rightarrow>
          (case printf_loop str buf temp_buf len 0 0 False args m2 of None \<Rightarrow> None
           | Some (m3, j) \<Rightarrow>
               Console__print_str fb self buf (s\<lparr>s_ram := store8 (buf + ucast j) 0 m3\<rparr>)))"

section \<open>The text that a format describes\<close>

text \<open>
  The characters of a format with its arguments, \<open>L\<close> giving the string at an address; the flag
  says whether the last character was a percent sign. \<open>None\<close> where an argument is missing.
\<close>

fun fmt_out :: "(u64 \<Rightarrow> u8 list) \<Rightarrow> bool \<Rightarrow> u8 list \<Rightarrow> u64 list \<Rightarrow> u8 list option" where
  "fmt_out L p [] args = Some []"
| "fmt_out L False (c # cs) args =
     (if c = 37 then fmt_out L True cs args else map_option (\<lambda>out. c # out) (fmt_out L False cs args))"
| "fmt_out L True (c # cs) args =
     (if c = 115 \<or> c = 100 \<or> c = 112 then
        (case args of [] \<Rightarrow> None | a # rest \<Rightarrow>
           map_option (\<lambda>out. (if c = 115 then L a else if c = 100 then numeral_chars a 10
                              else numeral_chars a 16) @ out) (fmt_out L False cs rest))
      else fmt_out L False cs args)"

text \<open>The addresses the format reads strings from.\<close>

fun fmt_strings :: "bool \<Rightarrow> u8 list \<Rightarrow> u64 list \<Rightarrow> u64 set" where
  "fmt_strings p [] args = {}"
| "fmt_strings False (c # cs) args = fmt_strings (c = 37) cs args"
| "fmt_strings True (c # cs) args =
     (if c = 115 \<or> c = 100 \<or> c = 112 then
        (case args of [] \<Rightarrow> {} | a # rest \<Rightarrow>
           (if c = 115 then {a} else {}) \<union> fmt_strings False cs rest)
      else fmt_strings False cs args)"

text \<open>A string in memory that the two buffers do not overlap.\<close>

definition string_at :: "ptr \<Rightarrow> ptr \<Rightarrow> mem \<Rightarrow> ptr \<Rightarrow> u8 list \<Rightarrow> bool" where
  "string_at buf temp_buf m a s \<longleftrightarrow> cstr m a s \<and> length s < 2 ^ 63
     \<and> region a (Suc (length s)) \<inter> (region buf 4096 \<union> region temp_buf 64) = {}"

definition outside_buffers :: "ptr \<Rightarrow> ptr \<Rightarrow> mem \<Rightarrow> mem \<Rightarrow> bool" where
  "outside_buffers buf temp_buf m m' \<longleftrightarrow>
     (\<forall>x. x \<notin> region buf 4096 \<longrightarrow> x \<notin> region temp_buf 64 \<longrightarrow> m' x = m x)"

lemma cstr_cong:
  assumes "cstr m a s" "\<And>x. x \<in> region a (Suc (length s)) \<Longrightarrow> m' x = m x" "length s < 2 ^ 63"
  shows "cstr m' a s"
proof -
  have "m' (a + word_of_nat i) = m (a + word_of_nat i)" if "i \<le> length s" for i
    using that assms(3) by (intro assms(2) region_offset) simp_all
  with assms(1) show ?thesis by (simp add: cstr_def)
qed

lemma string_at_kept:
  assumes "string_at buf temp_buf m a s" "outside_buffers buf temp_buf m m'"
  shows "string_at buf temp_buf m' a s"
proof -
  have "cstr m' a s"
    using assms by (intro cstr_cong [of m a s m']) (auto simp: string_at_def outside_buffers_def)
  with assms(1) show ?thesis by (simp add: string_at_def)
qed

text \<open>Appending bytes to the output in the buffer.\<close>

lemma bytes_append:
  assumes "\<And>x. m' x = (if x \<in> region (buf + word_of_nat j) (length xs)
      then xs ! unat (x - (buf + word_of_nat j)) else m x)"
    and "j + length xs < 2 ^ 63"
  shows "bytes_at m' buf (j + length xs) = bytes_at m buf j @ xs"
proof (rule nth_equalityI)
  fix i assume "i < length (bytes_at m' buf (j + length xs))"
  then have i: "i < j + length xs" by simp
  have d: "buf + word_of_nat i - (buf + word_of_nat j) = word_of_nat i - word_of_nat j" by simp
  show "bytes_at m' buf (j + length xs) ! i = (bytes_at m buf j @ xs) ! i"
  proof (cases "i < j")
    case True
    have "unat (word_of_nat i - word_of_nat j :: u64) = 2 ^ 64 + i - j"
      using True assms(2) by (simp add: unat_sub_if' unat_of_nat_small)
    then have "buf + word_of_nat i \<notin> region (buf + word_of_nat j) (length xs)"
      using True assms(2) unfolding region_iff d by simp
    with i True show ?thesis by (simp add: assms(1) nth_append)
  next
    case False
    then have "unat (word_of_nat i - word_of_nat j :: u64) = i - j"
      using i assms(2) by (simp add: unat_sub_if' unat_of_nat_small)
    moreover have "i - j < length xs" using False i by simp
    ultimately show ?thesis using False i by (simp add: assms(1) nth_append region_iff d)
  qed
qed simp

text \<open>A string copied behind the output: \<^verbatim>\<open>memcpy(buf + j, arg, str_len(arg))\<close>.\<close>

lemma copy_arg_appends:
  assumes "cstr m arg s" "region arg (Suc (length s)) \<inter> region buf 4096 = {}"
    and "j + length s < 4096"
  obtains m' where "copy_arg buf (word_of_nat j) arg m = Some (m', word_of_nat (j + length s))"
    and "bytes_at m' buf (j + length s) = bytes_at m buf j @ s"
    and "\<And>x. x \<notin> region buf 4096 \<Longrightarrow> m' x = m x"
proof -
  define n :: u64 where "n = word_of_nat (length s)"
  have n: "unat n = length s" using assms(3) by (simp add: n_def unat_of_nat_small)
  have j: "ucast (word_of_nat j :: u16) = (word_of_nat j :: u64)"
    using assms(3) by (simp add: ucast_of_nat_up)
  have nj: "(ucast n :: u16) = word_of_nat (length s)"
    using assms(3) by (simp add: n_def word_unat_eq_iff unsigned_ucast_eq unsigned_of_nat take_bit_nat_eq_self)
  let ?d = "buf + word_of_nat j"
  have "region ?d (length s) \<subseteq> region buf 4096"
    using assms(3) by (intro region_sub) (simp_all add: unat_of_nat_small)
  moreover have "region arg (length s) \<subseteq> region arg (Suc (length s))"
    by (rule region_mono) simp
  ultimately have dis: "region ?d (unat n) \<inter> region arg (unat n) = {}"
    using assms(2) unfolding n by blast
  let ?m' = "memcpy ?d arg n m"
  have at: "?m' x = (if x \<in> region ?d (length s) then s ! unat (x - ?d) else m x)" for x
  proof -
    have "m (arg + (x - ?d)) = s ! unat (x - ?d)" if "unat (x - ?d) < length s"
      using assms(1) that unfolding cstr_def by (metis word_of_unat)
    then show ?thesis by (simp add: memcpy_apply [OF dis] n region_iff)
  qed
  show ?thesis
  proof (rule that [of ?m'])
    show "copy_arg buf (word_of_nat j) arg m = Some (?m', word_of_nat (j + length s))"
      using str_len_cstr [OF assms(1)] by (simp add: copy_arg_def j n_def [symmetric] nj)
    show "bytes_at ?m' buf (j + length s) = bytes_at m buf j @ s"
      using at assms(3) by (intro bytes_append) auto
    show "?m' x = m x" if "x \<notin> region buf 4096" for x
      using that at [of x] \<open>region ?d (length s) \<subseteq> region buf 4096\<close> by auto
  qed
qed

text \<open>A number rendered into \<open>temp_buf\<close> and copied.\<close>

lemma numeral_chars_short:
  assumes "10 \<le> unat base"
  shows "length (numeral_chars num base) \<le> 20"
proof -
  have "unat num < 10 ^ 20" using unat64_less [of num] by simp
  also have "(10 :: nat) ^ 20 \<le> unat base ^ 20" by (rule power_mono [OF assms]) simp
  finally show ?thesis
    using digits_le_length_base [of "unat num" "unat base" 20] assms
    by (simp add: numeral_chars_def)
qed

lemma print_number_appends:
  assumes base: "10 \<le> unat base" "unat base \<le> 36"
    and bufs: "region buf 4096 \<inter> region temp_buf 64 = {}"
    and "j + length (numeral_chars num base) < 4096"
  obtains m' where "print_number buf temp_buf (word_of_nat j) num base m
      = Some (m', word_of_nat (j + length (numeral_chars num base)))"
    and "bytes_at m' buf (j + length (numeral_chars num base))
      = bytes_at m buf j @ numeral_chars num base"
    and "outside_buffers buf temp_buf m m'"
proof -
  define s where "s = numeral_chars num base"
  have len: "length s \<le> 20" unfolding s_def by (rule numeral_chars_short [OF base(1)])
  have "2 \<le> unat base" using base(1) by simp
  from itoa_result [OF this, of num temp_buf m, folded s_def]
  obtain m1 where m1: "itoa num temp_buf base m = Some m1"
      "bytes_at m1 temp_buf (length s) = s" "m1 (temp_buf + word_of_nat (length s)) = 0"
      "\<And>x. x \<notin> region temp_buf (Suc (length s)) \<Longrightarrow> m1 x = m x"
    by blast
  have sub: "region temp_buf (Suc (length s)) \<subseteq> region temp_buf 64"
    using len by (intro region_mono) simp
  have m1_out: "m1 x = m x" if "x \<notin> region temp_buf 64" for x
    using that sub m1(4) by blast
  have "0 \<notin> set s" unfolding s_def by (rule numeral_chars_nonzero [OF base(2)])
  with m1 len have "cstr m1 temp_buf s" by (simp add: cstr_bytes)
  moreover have "region temp_buf (Suc (length s)) \<inter> region buf 4096 = {}"
    using sub bufs by blast
  ultimately obtain m' where m':
      "copy_arg buf (word_of_nat j) temp_buf m1 = Some (m', word_of_nat (j + length s))"
      "bytes_at m' buf (j + length s) = bytes_at m1 buf j @ s"
      "\<And>x. x \<notin> region buf 4096 \<Longrightarrow> m' x = m1 x"
    using copy_arg_appends [of m1 temp_buf s buf j] assms(4) unfolding s_def by blast
  have "bytes_at m1 buf j = bytes_at m buf j"
  proof (rule nth_equalityI)
    fix i assume "i < length (bytes_at m1 buf j)"
    then have i: "i < j" by simp
    then have "buf + word_of_nat i \<in> region buf 4096"
      using assms(4) by (intro region_offset) simp_all
    with bufs have "buf + word_of_nat i \<notin> region temp_buf 64" by blast
    with i show "bytes_at m1 buf j ! i = bytes_at m buf j ! i" by (simp add: m1_out)
  qed simp
  with m' m1(1) m1_out show ?thesis
    by (intro that [of m']) (simp_all add: print_number_def s_def outside_buffers_def)
qed

lemma outside_buffers_trans:
  "outside_buffers b t m1 m2 \<Longrightarrow> outside_buffers b t m2 m3 \<Longrightarrow> outside_buffers b t m1 m3"
  by (simp add: outside_buffers_def)

text \<open>One conversion of the format.\<close>

lemma format_arg_appends:
  assumes bufs: "region buf 4096 \<inter> region temp_buf 64 = {}"
    and "c = 115 \<or> c = 100 \<or> c = 112"
    and "c = 115 \<Longrightarrow> string_at buf temp_buf m a (L a)"
    and "t = (if c = 115 then L a else if c = 100 then numeral_chars a 10 else numeral_chars a 16)"
    and "j + length t < 4096"
  obtains m' where "format_arg buf temp_buf c (word_of_nat j) (a # rest) m
      = Some (m', word_of_nat (j + length t), rest)"
    and "bytes_at m' buf (j + length t) = bytes_at m buf j @ t"
    and "outside_buffers buf temp_buf m m'"
proof (cases "c = 115")
  case True
  with assms have "string_at buf temp_buf m a t" by simp
  then have "cstr m a t" "region a (Suc (length t)) \<inter> region buf 4096 = {}"
    by (auto simp: string_at_def)
  from copy_arg_appends [OF this assms(5)] obtain m' where
      "copy_arg buf (word_of_nat j) a m = Some (m', word_of_nat (j + length t))"
      "bytes_at m' buf (j + length t) = bytes_at m buf j @ t"
      "\<And>x. x \<notin> region buf 4096 \<Longrightarrow> m' x = m x" by blast
  with True show ?thesis
    by (intro that [of m']) (simp_all add: format_arg_def outside_buffers_def)
next
  case False
  define base :: u8 where "base = (if c = 100 then 10 else 16)"
  have t: "t = numeral_chars a base" using False assms(2,4) by (simp add: base_def)
  have base: "10 \<le> unat base" "unat base \<le> 36" by (simp_all add: base_def)
  from print_number_appends [OF base bufs, of j a m] assms(5) obtain m' where
      "print_number buf temp_buf (word_of_nat j) a base m = Some (m', word_of_nat (j + length t))"
      "bytes_at m' buf (j + length t) = bytes_at m buf j @ t"
      "outside_buffers buf temp_buf m m'"
    unfolding t by blast
  with False assms(2) show ?thesis
    by (intro that [of m']) (auto simp: format_arg_def base_def)
qed

text \<open>The loop over the format, from its \<open>i\<close>-th character on.\<close>

lemma printf_loop_step:
  assumes "i < length fmt" "length fmt < 2 ^ 16" "string_at buf temp_buf m str fmt"
  shows "printf_loop str buf temp_buf (word_of_nat (length fmt)) (word_of_nat i) (word_of_nat j) p args m =
    (if p then
       (case format_arg buf temp_buf (fmt ! i) (word_of_nat j) args m of None \<Rightarrow> None
        | Some (m', j', args') \<Rightarrow> printf_loop str buf temp_buf (word_of_nat (length fmt))
            (word_of_nat (Suc i)) j' False args' m')
     else if fmt ! i = 37 then
       printf_loop str buf temp_buf (word_of_nat (length fmt)) (word_of_nat (Suc i)) (word_of_nat j) True args m
     else
       printf_loop str buf temp_buf (word_of_nat (length fmt)) (word_of_nat (Suc i))
         (word_of_nat (Suc j)) False args (store8 (buf + ucast (word_of_nat j :: u16)) (fmt ! i) m))"
proof -
  have "ucast (word_of_nat i :: u16) = (word_of_nat i :: u64)"
    using assms(1,2) by (simp add: ucast_of_nat_up)
  moreover have "(word_of_nat i :: u64) < word_of_nat (length fmt)"
    using assms(1,2) by (simp add: word_less_nat_alt unat_of_nat_small)
  moreover have "load8 m (str + word_of_nat i) = fmt ! i"
    using assms(1,3) by (simp add: string_at_def cstr_def load8_def)
  ultimately show ?thesis
    unfolding of_nat_Suc add.commute [of 1] by (subst printf_loop.simps) simp
qed

text \<open>
  What the loop does from a state on: it returns, with the text \<open>out\<close> after the \<open>j\<close> characters there
  were. A text that is appended first goes in front.
\<close>

definition loop_appends :: "ptr \<Rightarrow> ptr \<Rightarrow> mem \<Rightarrow> nat \<Rightarrow> u8 list \<Rightarrow> (mem \<times> u16) option \<Rightarrow> bool" where
  "loop_appends buf temp_buf m j out r \<longleftrightarrow>
     (\<exists>m'. r = Some (m', word_of_nat (j + length out))
        \<and> bytes_at m' buf (j + length out) = bytes_at m buf j @ out \<and> outside_buffers buf temp_buf m m')"

lemma loop_appends_after:
  assumes "loop_appends buf temp_buf m1 (j + length t) out r"
    and "bytes_at m1 buf (j + length t) = bytes_at m buf j @ t" "outside_buffers buf temp_buf m m1"
  shows "loop_appends buf temp_buf m j (t @ out) r"
  using assms outside_buffers_trans [OF assms(3)] by (auto simp: loop_appends_def add.assoc)

lemma char_appended:
  assumes "j < 4095"
  shows "bytes_at (store8 (buf + word_of_nat j) c m) buf (j + length [c]) = bytes_at m buf j @ [c]"
    and "outside_buffers buf temp_buf m (store8 (buf + word_of_nat j) c m)"
proof -
  show "bytes_at (store8 (buf + word_of_nat j) c m) buf (j + length [c]) = bytes_at m buf j @ [c]"
    using assms by (intro bytes_append) (auto simp: store8_apply region_iff unsigned_eq_0_iff)
  have "buf + word_of_nat j \<in> region buf 4096" using assms by (intro region_offset) simp_all
  then show "outside_buffers buf temp_buf m (store8 (buf + word_of_nat j) c m)"
    by (auto simp: outside_buffers_def store8_apply)
qed

lemma printf_loop_run:
  assumes "region buf 4096 \<inter> region temp_buf 64 = {}" "length fmt < 2 ^ 16"
  shows "i \<le> length fmt \<Longrightarrow> drop i fmt = cs \<Longrightarrow> string_at buf temp_buf m str fmt
    \<Longrightarrow> (\<And>a. a \<in> fmt_strings p cs args \<Longrightarrow> string_at buf temp_buf m a (L a))
    \<Longrightarrow> fmt_out L p cs args = Some out \<Longrightarrow> j + length out < 4096
    \<Longrightarrow> loop_appends buf temp_buf m j out
          (printf_loop str buf temp_buf (word_of_nat (length fmt)) (word_of_nat i) (word_of_nat j) p args m)"
proof (induction "length fmt - i" arbitrary: i cs m p args j out)
  case 0
  then have "i = length fmt" "cs = []" by auto
  moreover from this 0 have "out = []" by simp
  ultimately show ?case
    using assms(2) by (subst printf_loop.simps) (simp add: ucast_of_nat_up outside_buffers_def loop_appends_def)
next
  case (Suc d)
  then have lt: "i < length fmt" by simp
  then obtain c cs' where cs: "cs = c # cs'" "c = fmt ! i" "drop (Suc i) fmt = cs'"
    using Suc.prems(2) by (metis Cons_nth_drop_Suc)
  note unf = printf_loop_step [OF lt assms(2) Suc.prems(3), folded cs(2)]
  note IH = Suc.hyps(1) [of "Suc i" cs']
  have d: "d = length fmt - Suc i" using Suc.hyps(2) by simp
  consider "\<not> p" "c = 37" | "\<not> p" "c \<noteq> 37" | "p" "\<not> (c = 115 \<or> c = 100 \<or> c = 112)"
    | "p" "c = 115 \<or> c = 100 \<or> c = 112" by blast
  then show ?case
  proof cases
    case 1
    then show ?thesis using IH [of m True args out j] d lt cs Suc.prems unfolding unf by simp
  next
    case 2
    with Suc.prems(5) cs obtain out' where out: "out = c # out'"
        "fmt_out L False cs' args = Some out'" by auto
    have j: "ucast (word_of_nat j :: u16) = (word_of_nat j :: u64)" and j4: "j < 4095"
      using Suc.prems(6) out by (simp_all add: ucast_of_nat_up)
    let ?m1 = "store8 (buf + word_of_nat j) c m"
    note ap = char_appended(1) [OF j4, of buf c m] char_appended(2) [OF j4, of buf temp_buf m c]
    have "string_at buf temp_buf ?m1 str fmt" by (rule string_at_kept [OF Suc.prems(3) ap(2)])
    moreover have "string_at buf temp_buf ?m1 a (L a)" if "a \<in> fmt_strings False cs' args" for a
      using that 2 cs by (intro string_at_kept [OF Suc.prems(4) ap(2)]) simp
    ultimately have "loop_appends buf temp_buf ?m1 (j + length [c]) out' (printf_loop str buf temp_buf
        (word_of_nat (length fmt)) (word_of_nat (Suc i)) (word_of_nat (Suc j)) False args ?m1)"
      using IH [of ?m1 False args out' "Suc j"] d lt cs(3) out Suc.prems(6) by simp
    from loop_appends_after [OF this ap] show ?thesis unfolding unf j using 2 out by simp
  next
    case 3
    then have "format_arg buf temp_buf c (word_of_nat j) args m = Some (m, word_of_nat j, args)"
      by (simp add: format_arg_def)
    then show ?thesis
      using 3 IH [of m False args out j] d lt cs Suc.prems unfolding unf by simp
  next
    case c: 4
    with Suc.prems(5) cs obtain a rest where args: "args = a # rest"
      by (cases args) auto
    define t where
      "t = (if c = 115 then L a else if c = 100 then numeral_chars a 10 else numeral_chars a 16)"
    from c Suc.prems(5) cs args obtain out' where out: "out = t @ out'"
        "fmt_out L False cs' rest = Some out'" unfolding t_def by auto
    have La: "c = 115 \<Longrightarrow> string_at buf temp_buf m a (L a)"
      using c(1) cs args by (intro Suc.prems(4)) simp
    have jt: "j + length t < 4096" using Suc.prems(6) out by simp
    obtain m1 where m1: "format_arg buf temp_buf c (word_of_nat j) (a # rest) m
          = Some (m1, word_of_nat (j + length t), rest)"
        "bytes_at m1 buf (j + length t) = bytes_at m buf j @ t"
        "outside_buffers buf temp_buf m m1"
      by (rule format_arg_appends [where L = L and rest = rest, OF assms(1) c(2) La t_def jt])
    have "string_at buf temp_buf m1 str fmt" by (rule string_at_kept [OF Suc.prems(3) m1(3)])
    moreover have "string_at buf temp_buf m1 b (L b)" if "b \<in> fmt_strings False cs' rest" for b
      using that c cs args by (intro string_at_kept [OF Suc.prems(4) m1(3)]) auto
    ultimately have "loop_appends buf temp_buf m1 (j + length t) out' (printf_loop str buf temp_buf
        (word_of_nat (length fmt)) (word_of_nat (Suc i)) (word_of_nat (j + length t)) False rest m1)"
      using IH [of m1 False rest out' "j + length t"] d lt cs(3) out Suc.prems(6) by simp
    from loop_appends_after [OF this m1(2,3)] show ?thesis
      unfolding unf unfolding args m1(1) using c(1) out by simp
  qed
qed

lemma fmt_out_nonzero:
  "fmt_out L p cs args = Some out \<Longrightarrow> 0 \<notin> set cs
    \<Longrightarrow> (\<And>a. a \<in> fmt_strings p cs args \<Longrightarrow> 0 \<notin> set (L a)) \<Longrightarrow> 0 \<notin> set out"
proof (induction L p cs args arbitrary: out rule: fmt_out.induct)
  case (3 L c cs args)
  have "0 \<notin> set (numeral_chars a 10)" "0 \<notin> set (numeral_chars a 16)" for a
    by (simp_all add: numeral_chars_nonzero)
  with 3 show ?case by (auto split: if_splits list.splits)
qed (auto split: if_splits)

text \<open>
  The buffer after the formatting: \<open>buf[j] = '\<backslash>0'\<close> ends the text that the format describes.
\<close>

lemma printf_buffer:
  assumes bufs: "region buf 4096 \<inter> region temp_buf 64 = {}"
    and "string_at buf temp_buf m str fmt" "length fmt < 2 ^ 16"
    and "\<And>a. a \<in> fmt_strings False fmt args \<Longrightarrow> string_at buf temp_buf m a (L a)"
    and "fmt_out L False fmt args = Some out" "length out < 4096"
  obtains m' where
    "Console__printf fb self (buf, temp_buf) str args (s\<lparr>s_ram := m\<rparr>)
       = Console__print_str fb self buf (s\<lparr>s_ram := m'\<rparr>)"
    and "cstr m' buf out" "outside_buffers buf temp_buf m m'"
proof -
  let ?m2 = "memset temp_buf 0 64 (memset buf 0 4096 m)"
  have ob: "outside_buffers buf temp_buf m ?m2"
    by (simp add: outside_buffers_def memset_apply)
  have str: "string_at buf temp_buf ?m2 str fmt" by (rule string_at_kept [OF assms(2) ob])
  have "string_at buf temp_buf ?m2 a (L a)" if "a \<in> fmt_strings False fmt args" for a
    by (rule string_at_kept [OF assms(4) [OF that] ob])
  then obtain m3 where m3: "printf_loop str buf temp_buf (word_of_nat (length fmt)) 0 0 False args ?m2
        = Some (m3, word_of_nat (length out))"
      "bytes_at m3 buf (length out) = out" "outside_buffers buf temp_buf ?m2 m3"
    using printf_loop_run [OF bufs assms(3), of 0 fmt ?m2 str False args L out 0] str assms(5,6)
    unfolding add_0 loop_appends_def by (auto simp: bytes_at_def [of _ _ 0])
  let ?m' = "store8 (buf + word_of_nat (length out)) 0 m3"
  have "str_len ?m2 str = Some (word_of_nat (length fmt))"
    using str str_len_cstr by (simp add: string_at_def)
  moreover have j: "ucast (word_of_nat (length out) :: u16) = (word_of_nat (length out) :: u64)"
    using assms(6) by (simp add: ucast_of_nat_up)
  ultimately have run: "Console__printf fb self (buf, temp_buf) str args (s\<lparr>s_ram := m\<rparr>)
       = Console__print_str fb self buf (s\<lparr>s_ram := ?m'\<rparr>)"
    using m3(1) by (simp add: Console__printf_def)
  have "bytes_at ?m' buf (length out) = out"
  proof (rule nth_equalityI)
    fix i assume "i < length (bytes_at ?m' buf (length out))"
    then have i: "i < length out" by simp
    then have "buf + word_of_nat i \<noteq> buf + word_of_nat (length out)"
      using assms(6) by (simp add: word_of_nat_eq_iff_unat unat_of_nat_small)
    with i show "bytes_at ?m' buf (length out) ! i = out ! i"
      by (metis m3(2) nth_bytes_at store8_apply)
  qed simp
  moreover have "0 \<notin> set out"
  proof (rule fmt_out_nonzero [OF assms(5)])
    show "0 \<notin> set fmt" using assms(2) by (simp add: string_at_def cstr_def)
    show "0 \<notin> set (L a)" if "a \<in> fmt_strings False fmt args" for a
      using assms(4) [OF that] by (simp add: string_at_def cstr_def)
  qed
  ultimately have "cstr ?m' buf out" using assms(6) by (simp add: cstr_bytes store8_apply)
  moreover have "buf + word_of_nat (length out) \<in> region buf 4096"
    using assms(6) by (intro region_offset) simp_all
  then have "outside_buffers buf temp_buf m ?m'"
    using outside_buffers_trans [OF ob m3(3)] by (auto simp: outside_buffers_def store8_apply)
  ultimately show ?thesis using that [OF run] by blast
qed

end
