(* ===== verification/Console_Text.thy ===== *)
theory Console_Text
  imports Console
begin

text \<open>
  What text looks like on the screen: the cursor's path, the functional behaviour of the print
  routines of \<^verbatim>\<open>src/src/console/console.c\<close> where the text fits on the screen, and the properties
  of the console.
\<close>

unbundle bit_operations_syntax

section \<open>The framebuffer as a separate object\<close>

definition screen_area :: "mem \<Rightarrow> ptr \<Rightarrow> ptr set" where
  "screen_area m fb =
     region (base_address (framebuffer_at m fb)) (4 * fb_area (framebuffer_at m fb) + 4)"

definition off_screen :: "ptr \<Rightarrow> mem \<Rightarrow> mem \<Rightarrow> bool" where
  "off_screen fb m m' \<longleftrightarrow> (\<forall>x. x \<notin> screen_area m fb \<longrightarrow> m' x = m x)"

text \<open>The structures the console reads lie outside the framebuffer.\<close>

definition console_ready :: "mem \<Rightarrow> ptr \<Rightarrow> Console \<Rightarrow> bool" where
  "console_ready m fb self \<longleftrightarrow> fb_ready m fb
     \<and> region (console_font self) 24 \<inter> screen_area m fb = {}
     \<and> load64 m (console_font self) + 3 \<notin> screen_area m fb"

lemma off_screen_framebuffer:
  assumes "fb_ready m fb" "off_screen fb m m'"
  shows "framebuffer_at m' fb = framebuffer_at m fb"
proof (rule framebuffer_at_cong)
  fix x assume "x \<in> region fb 24"
  then have "x \<notin> screen_area m fb"
    using assms(1) by (auto simp: fb_ready_def screen_area_def Let_def)
  with assms(2) show "m' x = m x" by (simp add: off_screen_def)
qed

lemma off_screen_font:
  assumes "console_ready m fb self" "off_screen fb m m'"
  shows "font_at m' (console_font self) = font_at m (console_font self)"
proof -
  let ?p = "console_font self"
  have same: "m' x = m x" if "x \<in> region ?p 24" for x
    using assms that by (auto simp: console_ready_def off_screen_def)
  have "region ?p 8 \<subseteq> region ?p 24" "region (?p + 8) 1 \<subseteq> region ?p 24"
    "region (?p + 9) 1 \<subseteq> region ?p 24" "region (?p + 16) 8 \<subseteq> region ?p 24"
    by (rule region_sub, simp_all)+
  then have "load64 m' ?p = load64 m ?p" "load64 m' (?p + 16) = load64 m (?p + 16)"
    "load8 m' (?p + 8) = load8 m (?p + 8)" "load8 m' (?p + 9) = load8 m (?p + 9)"
    by (auto intro!: load64_cong load8_cong same)
  moreover from this(1) have "load8 m' (load64 m' ?p + 3) = load8 m (load64 m ?p + 3)"
    using assms by (simp add: console_ready_def off_screen_def load8_def)
  ultimately show ?thesis by (simp add: font_at_def psf_header_at_def)
qed

lemma off_screen_area:
  "fb_ready m fb \<Longrightarrow> off_screen fb m m' \<Longrightarrow> screen_area m' fb = screen_area m fb"
  using off_screen_framebuffer [of m fb m'] by (simp add: screen_area_def)

lemma off_screen_ready: "fb_ready m fb \<Longrightarrow> off_screen fb m m' \<Longrightarrow> fb_ready m' fb"
  using off_screen_framebuffer [of m fb m'] by (simp add: fb_ready_def)

lemma off_screen_trans:
  assumes "fb_ready m fb" "off_screen fb m m1" "off_screen fb m1 m2"
  shows "off_screen fb m m2"
  using assms by (simp add: off_screen_def off_screen_area [OF assms(1,2)])

lemma off_screen_console:
  assumes "console_ready m fb self" "off_screen fb m m'"
  shows "console_ready m' fb self"
proof -
  have r: "fb_ready m fb" using assms(1) by (simp add: console_ready_def)
  have "load64 m' (console_font self) = load64 m (console_font self)"
  proof (rule load64_cong)
    fix x assume "x \<in> region (console_font self) 8"
    then have "x \<in> region (console_font self) 24"
      using region_mono [of 8 24 "console_font self"] by auto
    with assms show "m' x = m x" by (auto simp: console_ready_def off_screen_def)
  qed
  with assms(1) off_screen_area [OF r assms(2)] off_screen_ready [OF r assms(2)]
  show ?thesis by (simp add: console_ready_def)
qed

lemma off_screen_glyph_fits:
  "fb_ready m fb \<Longrightarrow> off_screen fb m m' \<Longrightarrow> glyph_fits m' fb g = glyph_fits m fb g"
  using off_screen_framebuffer [of m fb m'] off_screen_ready [of m fb m']
  by (simp add: glyph_fits_def)

text \<open>A glyph changes its own pixels, the one to the right of each row, and nothing else.\<close>

lemma glyph_writes:
  assumes "glyph_fits m fb g"
    and "(p, v) \<in> set (concat (map (glyph_row (framebuffer_at m fb) m g (unat (g_width g)))
      [0..<unat (g_height g)]))"
  obtains x y where "x < unat (g_width g)" "y < unat (g_height g)"
    and "p = pixel_no (framebuffer_at m fb) (x + unat (g_x_off g)) (y + unat (g_y_off g))"
    and "p < fb_area (framebuffer_at m fb)"
proof -
  from assms(2) obtain x y where xy: "x < unat (g_width g)" "y < unat (g_height g)"
    "p = pixel_no (framebuffer_at m fb) (x + unat (g_x_off g)) (y + unat (g_y_off g))"
    by (auto simp: glyph_row_def)
  moreover have "p < fb_area (framebuffer_at m fb)"
    using xy assms(1) by (auto simp: glyph_fits_def Let_def intro!: pixel_no_less)
  ultimately show ?thesis by (rule that)
qed

lemma painted_off_screen:
  assumes "fb_ready m fb" "\<And>p v. (p, v) \<in> set ws \<Longrightarrow> p < fb_area (framebuffer_at m fb)"
  shows "off_screen fb m (painted (base_address (framebuffer_at m fb)) ws m)"
  unfolding off_screen_def
proof (intro allI impI)
  fix x assume "x \<notin> screen_area m fb"
  moreover have "4 * fb_area (framebuffer_at m fb) + 4 \<le> 2 ^ 64"
    using assms(1) by (simp add: fb_ready_def Let_def)
  moreover have "\<forall>(p, v) \<in> set ws. 4 * p + 8 \<le> 4 * fb_area (framebuffer_at m fb) + 4"
    using assms(2) by (fastforce simp: Suc_le_eq)
  ultimately show "painted (base_address (framebuffer_at m fb)) ws m x = m x"
    by (intro painted_outside) (simp_all add: screen_area_def)
qed

lemma set_all_off_screen:
  assumes "fb_ready m fb"
  shows "off_screen fb m (Framebuffer__set_all_pixels fb c m)"
  unfolding set_all_painted [OF assms]
proof (rule painted_off_screen [OF assms])
  let ?f = "framebuffer_at m fb"
  fix p v assume "(p, v) \<in> set (concat (map (Framebuffer.column ?f c (unat (height ?f))) [0..<unat (width ?f)]))"
  moreover have "unat (width ?f) \<le> unat (pixels_per_scanline ?f)"
    using assms by (simp add: fb_ready_def Let_def word_le_nat_alt)
  ultimately show "p < fb_area ?f"
    by (auto simp: Framebuffer.column_def intro!: pixel_no_less)
qed

lemma print_glyph_off_screen:
  assumes "glyph_fits m fb g"
  shows "off_screen fb m (Framebuffer__print_glyph fb g m)"
  unfolding print_glyph_painted [OF assms]
proof (rule painted_off_screen)
  show "fb_ready m fb" using assms by (simp add: glyph_fits_def Let_def)
qed (rule glyph_writes [OF assms])

lemma print_glyph_keeps:
  assumes "glyph_fits m fb g" "q < fb_area (framebuffer_at m fb)"
    and "\<And>x y. x < unat (g_width g) \<Longrightarrow> y < unat (g_height g) \<Longrightarrow>
      q \<noteq> pixel_no (framebuffer_at m fb) (x + unat (g_x_off g)) (y + unat (g_y_off g))
      \<and> q \<noteq> pixel_no (framebuffer_at m fb) (x + unat (g_x_off g)) (y + unat (g_y_off g)) + 1"
  shows "pix (base_address (framebuffer_at m fb)) (Framebuffer__print_glyph fb g m) q
    = pix (base_address (framebuffer_at m fb)) m q"
proof -
  have r: "fb_ready m fb" using assms(1) by (simp add: glyph_fits_def Let_def)
  have "4 * q + 4 \<le> 2 ^ 64" using area_bound [OF r assms(2)] by simp
  moreover have "\<forall>(p, v) \<in> set (concat (map (glyph_row (framebuffer_at m fb) m g (unat (g_width g)))
      [0..<unat (g_height g)])). 4 * p + 8 \<le> 2 ^ 64 \<and> q \<noteq> p \<and> q \<noteq> p + 1"
  proof clarify
    fix p v assume "(p, v) \<in> set (concat (map (glyph_row (framebuffer_at m fb) m g (unat (g_width g)))
      [0..<unat (g_height g)]))"
    from glyph_writes [OF assms(1) this] obtain x y where
      xy: "x < unat (g_width g)" "y < unat (g_height g)"
      "p = pixel_no (framebuffer_at m fb) (x + unat (g_x_off g)) (y + unat (g_y_off g))"
      and p: "p < fb_area (framebuffer_at m fb)" .
    show "4 * p + 8 \<le> 2 ^ 64 \<and> q \<noteq> p \<and> q \<noteq> p + 1"
      using area_bound [OF r p] assms(3) [OF xy(1,2)] xy(3) by simp
  qed
  ultimately show ?thesis unfolding print_glyph_painted [OF assms(1)] by (intro painted_kept)
qed

section \<open>Printing a text\<close>

text \<open>Where a character leaves the cursor.\<close>

definition cursor_after :: "u8 \<Rightarrow> ConsoleCursor \<Rightarrow> ConsoleCursor" where
  "cursor_after c cur = (if c = 10 then ConsoleCursor__new_line cur
     else if c = 9 then ConsoleCursor__next (ConsoleCursor__next (ConsoleCursor__next cur))
     else ConsoleCursor__next cur)"

abbreviation print_chars :: "ptr \<Rightarrow> Console \<Rightarrow> u8 list \<Rightarrow> screen \<Rightarrow> screen" where
  "print_chars fb self cs \<equiv> fold (\<lambda>c. Console__print_char fb self (scast c)) cs"

text \<open>Every glyph of the text, drawn where the cursor then is, lies on the screen.\<close>

fun text_fits :: "mem \<Rightarrow> ptr \<Rightarrow> Console \<Rightarrow> u8 list \<Rightarrow> ConsoleCursor \<Rightarrow> bool" where
  "text_fits m fb self [] cur = True"
| "text_fits m fb self (c # cs) cur =
     ((c = 9 \<or> c = 10 \<or> glyph_fits m fb (char_glyph (font_at m (console_font self)) cur (scast c)))
      \<and> text_fits m fb self cs (cursor_after c cur))"

lemma scast_char_eq: "(scast (c :: u8) :: u16) = scast d \<longleftrightarrow> c = d"
proof
  have "(ucast (scast x :: u16) :: u8) = x" for x :: u8
  proof (rule bit_word_eqI)
    fix n assume "n < LENGTH(8)"
    then have "n = 7 \<or> n < 7" by auto
    then show "bit (ucast (scast x :: u16) :: u8) n \<longleftrightarrow> bit x n"
      by (auto simp: bit_simps min_def)
  qed
  then show "(scast c :: u16) = scast d \<Longrightarrow> c = d" by metis
qed simp

lemma char_codes: "(scast (c :: u8) :: u16) = 10 \<longleftrightarrow> c = 10" "(scast (c :: u8) :: u16) = 9 \<longleftrightarrow> c = 9"
  using scast_char_eq [of c 10] scast_char_eq [of c 9] by simp_all

lemma text_fits_off_screen:
  assumes "console_ready m fb self" "off_screen fb m m'"
  shows "text_fits m' fb self cs cur = text_fits m fb self cs cur"
proof -
  have "fb_ready m fb" using assms(1) by (simp add: console_ready_def)
  from off_screen_glyph_fits [OF this assms(2)] off_screen_font [OF assms] show ?thesis
    by (induction cs arbitrary: cur) simp_all
qed

lemma print_char_step:
  assumes "console_ready (s_ram s) fb self" "text_fits (s_ram s) fb self (c # cs) (s_cursor s)"
  shows "s_cursor (Console__print_char fb self (scast c) s) = cursor_after c (s_cursor s)"
    and "off_screen fb (s_ram s) (s_ram (Console__print_char fb self (scast c) s))"
proof -
  show "s_cursor (Console__print_char fb self (scast c) s) = cursor_after c (s_cursor s)"
    by (simp add: Console__print_char_def char_codes cursor_after_def on_cursor_def Let_def)
  show "off_screen fb (s_ram s) (s_ram (Console__print_char fb self (scast c) s))"
    using assms(2) print_glyph_off_screen
    by (auto simp: Console__print_char_def char_codes on_cursor_def Let_def off_screen_def)
qed

lemma print_chars_result:
  "console_ready (s_ram s) fb self \<Longrightarrow> text_fits (s_ram s) fb self cs (s_cursor s)
    \<Longrightarrow> s_cursor (print_chars fb self cs s) = fold cursor_after cs (s_cursor s)
      \<and> off_screen fb (s_ram s) (s_ram (print_chars fb self cs s))"
proof (induction cs arbitrary: s)
  case Nil
  then show ?case by (simp add: off_screen_def)
next
  case (Cons c cs)
  let ?s1 = "Console__print_char fb self (scast c) s"
  note st = print_char_step [OF Cons.prems]
  note r = off_screen_console [OF Cons.prems(1) st(2)]
  have "text_fits (s_ram ?s1) fb self cs (s_cursor ?s1)"
    using Cons.prems(2) text_fits_off_screen [OF Cons.prems(1) st(2)] by (simp add: st(1))
  from Cons.IH [OF r this] show ?case
    using st off_screen_trans [OF _ st(2)] Cons.prems(1) by (simp add: console_ready_def)
qed

text \<open>The loop of \<^verbatim>\<open>Console__print_str\<close> ends and prints the characters one by one.\<close>

lemma print_str_chars:
  "cstr (s_ram s) a cs \<Longrightarrow> length cs < 2 ^ 63
    \<Longrightarrow> region a (Suc (length cs)) \<inter> screen_area (s_ram s) fb = {}
    \<Longrightarrow> console_ready (s_ram s) fb self \<Longrightarrow> text_fits (s_ram s) fb self cs (s_cursor s)
    \<Longrightarrow> Console__print_str fb self a s = Some (print_chars fb self cs s)"
proof (induction cs arbitrary: a s)
  case Nil
  then show ?case by (simp add: Console__print_str.simps [of fb self a] cstr_def load8_def)
next
  case (Cons c cs)
  let ?s1 = "Console__print_char fb self (scast c) s"
  note st = print_char_step [OF Cons.prems(4,5)]
  have r: "fb_ready (s_ram s) fb" using Cons.prems(4) by (simp add: console_ready_def)
  have c: "s_ram s a = c" "c \<noteq> 0" "cstr (s_ram s) (a + 1) cs"
    using Cons.prems(1) by (auto simp: cstr_def All_less_Suc2 ac_simps)
  have sub: "region (a + 1) (Suc (length cs)) \<subseteq> region a (Suc (length (c # cs)))"
    using Cons.prems(2) by (intro region_sub) simp_all
  have "cstr (s_ram ?s1) (a + 1) cs"
  proof (rule cstr_cong [OF c(3)])
    fix x assume "x \<in> region (a + 1) (Suc (length cs))"
    with sub Cons.prems(3) have "x \<notin> screen_area (s_ram s) fb" by blast
    with st(2) show "s_ram ?s1 x = s_ram s x" by (simp add: off_screen_def)
  qed (use Cons.prems(2) in simp)
  moreover have "region (a + 1) (Suc (length cs)) \<inter> screen_area (s_ram ?s1) fb = {}"
    using sub Cons.prems(3) off_screen_area [OF r st(2)] by blast
  moreover have "text_fits (s_ram ?s1) fb self cs (s_cursor ?s1)"
    using Cons.prems(5) text_fits_off_screen [OF Cons.prems(4) st(2)] by (simp add: st(1))
  ultimately have "Console__print_str fb self (a + 1) ?s1 = Some (print_chars fb self cs ?s1)"
    using Cons.prems(2) off_screen_console [OF Cons.prems(4) st(2)] by (intro Cons.IH) simp_all
  then show ?case
    using c by (simp add: Console__print_str.simps [of fb self a] load8_def)
qed

section \<open>A line of text\<close>

text \<open>Printable characters that all fit on the cursor's line, with at least one pixel to spare.\<close>

definition line_fits :: "mem \<Rightarrow> ptr \<Rightarrow> Console \<Rightarrow> u8 list \<Rightarrow> ConsoleCursor \<Rightarrow> bool" where
  "line_fits m fb self cs cur \<longleftrightarrow> console_ready m fb self
     \<and> (\<forall>c \<in> set cs. c \<noteq> 9 \<and> c \<noteq> 10 \<and>
         region (glyph_buffer (font_at m (console_font self))
             + scast (ucast (scast c :: u16) * ucast (charsize (font_at m (console_font self))) :: u32))
           (unat (glyph_height (font_at m (console_font self)))) \<inter> screen_area m fb = {})
     \<and> unat (ConsoleCursor.column cur) + length cs < unat (max_columns cur)
     \<and> (unat (ConsoleCursor.column cur) + length cs) * unat (glyph_width (font_at m (console_font self)))
         < unat (pixels_per_scanline (framebuffer_at m fb))
     \<and> (unat (line cur) + 1) * unat (glyph_height (font_at m (console_font self)))
         \<le> unat (height (framebuffer_at m fb))"

lemma line_fits_off_screen:
  assumes "console_ready m fb self" "off_screen fb m m'"
  shows "line_fits m' fb self cs cur = line_fits m fb self cs cur"
proof -
  have "fb_ready m fb" using assms(1) by (simp add: console_ready_def)
  note same = off_screen_framebuffer [OF this assms(2)] off_screen_area [OF this assms(2)]
    off_screen_font [OF assms]
  show ?thesis using off_screen_console [OF assms] assms(1) by (simp only: line_fits_def same)
qed

lemma small_product:
  fixes a b n :: u16
  assumes "unat a * unat b \<le> unat n"
  shows "unat (a * b) = unat a * unat b"
  using assms unat_less_exp [of n] by (simp add: unat_word_ariths)

lemma line_fits_Cons:
  assumes "line_fits m fb self (c # cs) cur"
  shows "glyph_fits m fb (char_glyph (font_at m (console_font self)) cur (scast c))"
    and "cursor_after c cur = cur\<lparr>ConsoleCursor.column := ConsoleCursor.column cur + 1\<rparr>"
    and "unat (ConsoleCursor.column cur + 1) = unat (ConsoleCursor.column cur) + 1"
    and "line_fits m fb self cs (cursor_after c cur)"
    and "unat (g_x_off (char_glyph (font_at m (console_font self)) cur (scast c)))
      = unat (ConsoleCursor.column cur) * unat (glyph_width (font_at m (console_font self)))"
    and "unat (g_y_off (char_glyph (font_at m (console_font self)) cur (scast c)))
      = unat (line cur) * unat (glyph_height (font_at m (console_font self)))"
proof -
  let ?font = "font_at m (console_font self)" and ?f = "framebuffer_at m fb"
  define n where "n = unat (ConsoleCursor.column cur)"
  define w where "w = unat (glyph_width ?font)"
  have col: "n + Suc (length cs) < unat (max_columns cur)"
    and x: "(n + Suc (length cs)) * w < unat (pixels_per_scanline ?f)"
    and y: "(unat (line cur) + 1) * unat (glyph_height ?font) \<le> unat (height ?f)"
    and c: "c \<noteq> 9" "c \<noteq> 10"
    using assms by (simp_all add: line_fits_def n_def w_def)
  have "(n + 1) * w \<le> (n + Suc (length cs)) * w" by (intro mult_le_mono1) simp
  with x have x1: "(n + 1) * w \<le> unat (pixels_per_scanline ?f)" by linarith
  then have xo: "unat (ConsoleCursor.column cur) * unat (ucast (glyph_width ?font) :: u16)
      \<le> unat (pixels_per_scanline ?f)"
    by (simp add: n_def w_def unat_ucast_up)
  have yo: "unat (line cur) * unat (ucast (glyph_height ?font) :: u16) \<le> unat (height ?f)"
    using y by (simp add: unat_ucast_up)
  show X: "unat (g_x_off (char_glyph ?font cur (scast c)))
      = unat (ConsoleCursor.column cur) * unat (glyph_width ?font)"
    using small_product [OF xo] by (simp add: char_glyph_def unat_ucast_up)
  show Y: "unat (g_y_off (char_glyph ?font cur (scast c)))
      = unat (line cur) * unat (glyph_height ?font)"
    using small_product [OF yo] by (simp add: char_glyph_def unat_ucast_up)
  have "n + 1 < 2 ^ 16" using col unat_less_exp [of "max_columns cur"] by simp
  then show U: "unat (ConsoleCursor.column cur + 1) = unat (ConsoleCursor.column cur) + 1"
    by (simp add: n_def unat_word_ariths)
  have "(ucast (ConsoleCursor.column cur) + 1 :: u32) \<noteq> ucast (max_columns cur)"
  proof
    assume "(ucast (ConsoleCursor.column cur) + 1 :: u32) = ucast (max_columns cur)"
    then have "unat (ucast (ConsoleCursor.column cur) + 1 :: u32) = unat (max_columns cur)"
      by (simp add: unat_ucast_up)
    then show False
      using col unat_less_exp [of "ConsoleCursor.column cur"]
      by (simp add: unat_word_ariths unat_ucast_up n_def)
  qed
  then show A: "cursor_after c cur = cur\<lparr>ConsoleCursor.column := ConsoleCursor.column cur + 1\<rparr>"
    using c by (simp add: cursor_after_def ConsoleCursor__next_def)
  show "line_fits m fb self cs (cursor_after c cur)"
    using assms U by (simp add: line_fits_def A)
  show "glyph_fits m fb (char_glyph ?font cur (scast c))"
    unfolding glyph_fits_def Let_def X Y
    using assms x1 y
    by (auto simp: line_fits_def console_ready_def char_glyph_def n_def w_def screen_area_def)
qed

lemma line_fits_text: "line_fits m fb self cs cur \<Longrightarrow> text_fits m fb self cs cur"
proof (induction cs arbitrary: cur)
  case (Cons c cs)
  from line_fits_Cons [OF Cons.prems] Cons.IH show ?case by simp
qed simp

text \<open>The pixel of the screen that is column \<open>x\<close>, row \<open>y\<close> of the character cell \<open>k\<close> of a line.\<close>

definition cell_pixel :: "mem \<Rightarrow> ptr \<Rightarrow> Console \<Rightarrow> nat \<Rightarrow> nat \<Rightarrow> nat \<Rightarrow> nat \<Rightarrow> nat" where
  "cell_pixel m fb self ln k x y = pixel_no (framebuffer_at m fb)
     (x + k * unat (glyph_width (font_at m (console_font self))))
     (y + ln * unat (glyph_height (font_at m (console_font self))))"

lemma print_char_glyph:
  assumes "(c :: u8) \<noteq> 9" "c \<noteq> 10"
  shows "s_ram (Console__print_char fb self (scast c) s)
    = Framebuffer__print_glyph fb (char_glyph (font_at (s_ram s) (console_font self)) (s_cursor s) (scast c)) (s_ram s)"
  using assms by (simp add: Console__print_char_def char_codes on_cursor_def Let_def)

lemma line_step:
  assumes "line_fits (s_ram s) fb self (c # cs) (s_cursor s)"
  shows "console_ready (s_ram s) fb self"
    and "off_screen fb (s_ram s) (s_ram (Console__print_char fb self (scast c) s))"
    and "s_cursor (Console__print_char fb self (scast c) s)
      = (s_cursor s)\<lparr>ConsoleCursor.column := ConsoleCursor.column (s_cursor s) + 1\<rparr>"
    and "line_fits (s_ram (Console__print_char fb self (scast c) s)) fb self cs
      (s_cursor (Console__print_char fb self (scast c) s))"
proof -
  show r: "console_ready (s_ram s) fb self" using assms by (simp add: line_fits_def)
  note st = print_char_step [OF r line_fits_text [OF assms]]
  show "off_screen fb (s_ram s) (s_ram (Console__print_char fb self (scast c) s))" by (rule st)
  show "s_cursor (Console__print_char fb self (scast c) s)
      = (s_cursor s)\<lparr>ConsoleCursor.column := ConsoleCursor.column (s_cursor s) + 1\<rparr>"
    using st(1) line_fits_Cons(2) [OF assms] by simp
  show "line_fits (s_ram (Console__print_char fb self (scast c) s)) fb self cs
      (s_cursor (Console__print_char fb self (scast c) s))"
    using line_fits_Cons(4) [OF assms] line_fits_off_screen [OF r st(2)] st(1) by simp
qed

text \<open>Characters leave the pixels to their left alone.\<close>

lemma line_keeps_left:
  "line_fits (s_ram s) fb self cs (s_cursor s)
    \<Longrightarrow> X < unat (ConsoleCursor.column (s_cursor s)) * unat (glyph_width (font_at (s_ram s) (console_font self)))
    \<Longrightarrow> Y < unat (height (framebuffer_at (s_ram s) fb))
    \<Longrightarrow> pix (base_address (framebuffer_at (s_ram s) fb)) (s_ram (print_chars fb self cs s))
          (pixel_no (framebuffer_at (s_ram s) fb) X Y)
      = pix (base_address (framebuffer_at (s_ram s) fb)) (s_ram s)
          (pixel_no (framebuffer_at (s_ram s) fb) X Y)"
proof (induction cs arbitrary: s)
  case (Cons c cs)
  let ?s1 = "Console__print_char fb self (scast c) s" and ?f = "framebuffer_at (s_ram s) fb"
  let ?font = "font_at (s_ram s) (console_font self)"
  let ?g = "char_glyph ?font (s_cursor s) (scast c)"
  define w where "w = unat (glyph_width ?font)"
  define n where "n = unat (ConsoleCursor.column (s_cursor s))"
  note st = line_step [OF Cons.prems(1)]
  note lf = line_fits_Cons [OF Cons.prems(1)]
  have r: "fb_ready (s_ram s) fb" using st(1) by (simp add: console_ready_def)
  note same = off_screen_framebuffer [OF r st(2)] off_screen_font [OF st(1,2)]
  have c: "c \<noteq> 9" "c \<noteq> 10" and
    px: "(n + Suc (length cs)) * w < unat (pixels_per_scanline ?f)"
    using Cons.prems(1) by (simp_all add: line_fits_def n_def w_def)
  have X: "X < n * w" using Cons.prems(2) by (simp add: n_def w_def)
  have xo: "unat (g_x_off ?g) = n * w" "unat (g_width ?g) = w"
    using lf(5) by (simp_all add: n_def w_def char_glyph_def)
  have "(n + 1) * w \<le> (n + Suc (length cs)) * w" by (intro mult_le_mono1) simp
  with px have "(n + 1) * w < unat (pixels_per_scanline ?f)" by linarith
  then have w1: "n * w + w < unat (pixels_per_scanline ?f)" by simp
  have XP: "X < unat (pixels_per_scanline ?f)" using X w1 by linarith
  have "pix (base_address ?f) (s_ram ?s1) (pixel_no ?f X Y)
      = pix (base_address ?f) (s_ram s) (pixel_no ?f X Y)"
    unfolding print_char_glyph [OF c]
  proof (rule print_glyph_keeps [OF lf(1)])
    show "pixel_no ?f X Y < fb_area ?f" using XP Cons.prems(3) by (rule pixel_no_less)
    fix x y assume x: "x < unat (g_width ?g)"
    have "pixel_no ?f (x + unat (g_x_off ?g)) (y + unat (g_y_off ?g)) + 1
        = pixel_no ?f (x + unat (g_x_off ?g) + 1) (y + unat (g_y_off ?g))"
      by (simp add: pixel_no_def)
    moreover have "x + unat (g_x_off ?g) + 1 < unat (pixels_per_scanline ?f)"
      using x xo w1 by simp
    ultimately show "pixel_no ?f X Y \<noteq> pixel_no ?f (x + unat (g_x_off ?g)) (y + unat (g_y_off ?g))
      \<and> pixel_no ?f X Y \<noteq> pixel_no ?f (x + unat (g_x_off ?g)) (y + unat (g_y_off ?g)) + 1"
      using X XP xo(1) by (simp add: pixel_no_inj)
  qed
  moreover have "X < unat (ConsoleCursor.column (s_cursor ?s1)) * w"
    using X lf(3) st(3) by (simp add: n_def)
  ultimately show ?case
    using Cons.IH [OF st(4)] Cons.prems(3) by (simp add: same w_def)
qed simp

text \<open>They leave the lines above alone.\<close>

lemma line_keeps_above:
  "line_fits (s_ram s) fb self cs (s_cursor s)
    \<Longrightarrow> Y < unat (line (s_cursor s)) * unat (glyph_height (font_at (s_ram s) (console_font self)))
    \<Longrightarrow> X < unat (pixels_per_scanline (framebuffer_at (s_ram s) fb))
    \<Longrightarrow> pix (base_address (framebuffer_at (s_ram s) fb)) (s_ram (print_chars fb self cs s))
          (pixel_no (framebuffer_at (s_ram s) fb) X Y)
      = pix (base_address (framebuffer_at (s_ram s) fb)) (s_ram s)
          (pixel_no (framebuffer_at (s_ram s) fb) X Y)"
proof (induction cs arbitrary: s)
  case (Cons c cs)
  let ?s1 = "Console__print_char fb self (scast c) s" and ?f = "framebuffer_at (s_ram s) fb"
  let ?font = "font_at (s_ram s) (console_font self)"
  let ?g = "char_glyph ?font (s_cursor s) (scast c)"
  note st = line_step [OF Cons.prems(1)]
  note lf = line_fits_Cons [OF Cons.prems(1)]
  have r: "fb_ready (s_ram s) fb" using st(1) by (simp add: console_ready_def)
  note same = off_screen_framebuffer [OF r st(2)] off_screen_font [OF st(1,2)]
  have c: "c \<noteq> 9" "c \<noteq> 10" using Cons.prems(1) by (simp_all add: line_fits_def)
  have Y: "Y < unat (g_y_off ?g)" using Cons.prems(2) lf(6) by simp
  have "(unat (line (s_cursor s)) + 1) * unat (glyph_height ?font) \<le> unat (height ?f)"
    using Cons.prems(1) by (simp add: line_fits_def)
  then have "Y < unat (height ?f)" using Cons.prems(2) by simp
  with Cons.prems(3) have XY: "pixel_no ?f X Y < fb_area ?f" by (rule pixel_no_less)
  have "pix (base_address ?f) (s_ram ?s1) (pixel_no ?f X Y)
      = pix (base_address ?f) (s_ram s) (pixel_no ?f X Y)"
    unfolding print_char_glyph [OF c]
  proof (rule print_glyph_keeps [OF lf(1) XY])
    fix x y
    have "pixel_no ?f X Y < Suc Y * unat (pixels_per_scanline ?f)"
      using Cons.prems(3) by (simp add: pixel_no_def)
    also have "\<dots> \<le> (y + unat (g_y_off ?g)) * unat (pixels_per_scanline ?f)"
      using Y by (intro mult_le_mono1) simp
    finally have "pixel_no ?f X Y < pixel_no ?f (x + unat (g_x_off ?g)) (y + unat (g_y_off ?g))"
      by (simp add: pixel_no_def)
    then show "pixel_no ?f X Y \<noteq> pixel_no ?f (x + unat (g_x_off ?g)) (y + unat (g_y_off ?g))
      \<and> pixel_no ?f X Y \<noteq> pixel_no ?f (x + unat (g_x_off ?g)) (y + unat (g_y_off ?g)) + 1" by simp
  qed
  then show ?case
    using Cons.IH [OF st(4)] Cons.prems(2,3) by (simp add: same st(3))
qed simp

lemma line_cursor:
  "line_fits m fb self cs c \<Longrightarrow> fold cursor_after cs c
    = c\<lparr>ConsoleCursor.column := ConsoleCursor.column c + word_of_nat (length cs)\<rparr>"
proof (induction cs arbitrary: c)
  case (Cons d cs)
  from line_fits_Cons [OF Cons.prems] Cons.IH show ?case by (simp add: ac_simps)
qed simp

lemma text_fits_append:
  "text_fits m fb self (cs @ ds) cur
    \<longleftrightarrow> text_fits m fb self cs cur \<and> text_fits m fb self ds (fold cursor_after cs cur)"
  by (induction cs arbitrary: cur) auto

text \<open>The whole line.\<close>

lemma line_shown:
  "line_fits (s_ram s) fb self cs (s_cursor s) \<Longrightarrow> k < length cs
    \<Longrightarrow> x < unat (glyph_width (font_at (s_ram s) (console_font self)))
    \<Longrightarrow> y < unat (glyph_height (font_at (s_ram s) (console_font self)))
    \<Longrightarrow> pix (base_address (framebuffer_at (s_ram s) fb)) (s_ram (print_chars fb self cs s))
          (cell_pixel (s_ram s) fb self (unat (line (s_cursor s)))
             (unat (ConsoleCursor.column (s_cursor s)) + k) x y)
      = glyph_color (s_ram s)
          (char_glyph (font_at (s_ram s) (console_font self)) (s_cursor s) (scast (cs ! k))) y x"
proof (induction cs arbitrary: s k)
  case (Cons c cs)
  let ?s1 = "Console__print_char fb self (scast c) s" and ?f = "framebuffer_at (s_ram s) fb"
  let ?font = "font_at (s_ram s) (console_font self)"
  let ?g = "char_glyph ?font (s_cursor s) (scast c)"
  note st = line_step [OF Cons.prems(1)]
  note lf = line_fits_Cons [OF Cons.prems(1)]
  have r: "fb_ready (s_ram s) fb" using st(1) by (simp add: console_ready_def)
  note same = off_screen_framebuffer [OF r st(2)] off_screen_font [OF st(1,2)]
  have c: "c \<noteq> 9" "c \<noteq> 10" using Cons.prems(1) by (simp_all add: line_fits_def)
  show ?case
  proof (cases k)
    case 0
    have cell: "cell_pixel (s_ram s) fb self (unat (line (s_cursor s)))
        (unat (ConsoleCursor.column (s_cursor s))) x y
        = pixel_no ?f (x + unat (g_x_off ?g)) (y + unat (g_y_off ?g))"
      by (simp add: cell_pixel_def lf(5,6))
    have g: "unat (g_width ?g) = unat (glyph_width ?font)" "unat (g_height ?g) = unat (glyph_height ?font)"
      by (simp_all add: char_glyph_def)
    have X: "x + unat (g_x_off ?g) < unat (ConsoleCursor.column (s_cursor ?s1))
        * unat (glyph_width (font_at (s_ram ?s1) (console_font self)))"
      using Cons.prems(3) lf(3) st(3) by (simp add: lf(5) same)
    have "unat (g_y_off ?g) + unat (g_height ?g) \<le> unat (height ?f)"
      using lf(1) by (simp add: glyph_fits_def Let_def)
    then have Y: "y + unat (g_y_off ?g) < unat (height (framebuffer_at (s_ram ?s1) fb))"
      using Cons.prems(4) g by (simp add: same)
    have "pix (base_address ?f) (s_ram ?s1) (pixel_no ?f (x + unat (g_x_off ?g)) (y + unat (g_y_off ?g)))
        = glyph_color (s_ram s) ?g y x"
      unfolding print_char_glyph [OF c]
      by (rule glyph_shown [OF lf(1)]) (use Cons.prems(3,4) g in simp_all)
    with line_keeps_left [OF st(4) X Y] show ?thesis by (simp add: 0 cell same)
  next
    case (Suc k')
    have ci: "cs ! k' \<in> set cs" using Cons.prems(2) Suc by simp
    let ?g1 = "\<lambda>cur. char_glyph ?font cur (scast (cs ! k'))"
    have col: "glyph_color (s_ram ?s1) (?g1 (s_cursor ?s1)) y x = glyph_color (s_ram s) (?g1 (s_cursor s)) y x"
    proof (rule glyph_color_kept [OF _ Cons.prems(4)])
      fix q assume "q \<in> region (g_bitmap (?g1 (s_cursor s))) (unat (glyph_height ?font))"
      then have "q \<notin> screen_area (s_ram s) fb"
        using Cons.prems(1) ci by (auto simp: line_fits_def char_glyph_def)
      then show "s_ram ?s1 q = s_ram s q" using st(2) by (simp add: off_screen_def)
    qed (simp_all add: char_glyph_def st(3))
    have "pix (base_address ?f) (s_ram (print_chars fb self cs ?s1))
        (cell_pixel (s_ram ?s1) fb self (unat (line (s_cursor ?s1)))
          (unat (ConsoleCursor.column (s_cursor ?s1)) + k') x y)
        = glyph_color (s_ram ?s1) (?g1 (s_cursor ?s1)) y x"
      using Cons.IH [OF st(4), of k'] Cons.prems(2-4) Suc by (simp add: same)
    then show ?thesis
      unfolding col using lf(3) st(3) by (simp add: Suc cell_pixel_def same)
  qed
qed simp

section \<open>The path of the cursor\<close>

definition position :: "ConsoleCursor \<Rightarrow> nat" where
  "position c = unat (line c) * unat (max_columns c) + unat (ConsoleCursor.column c)"

lemma column_wraps:
  "(ucast (ConsoleCursor.column c) + 1 :: u32) = ucast (max_columns c)
     \<longleftrightarrow> unat (ConsoleCursor.column c) + 1 = unat (max_columns c)"
proof -
  have "unat (ucast (ConsoleCursor.column c) + 1 :: u32) = unat (ConsoleCursor.column c) + 1"
    using unat_less_exp [of "ConsoleCursor.column c"] by (simp add: unat_word_ariths unat_ucast_up)
  then show ?thesis by (simp add: word_unat_eq_iff unat_ucast_up)
qed

text \<open>The blanks of \<^verbatim>\<open>Console__clear_screen\<close>: the cursor before the \<open>k\<close>-th.\<close>

definition cell_cursor :: "ConsoleCursor \<Rightarrow> nat \<Rightarrow> ConsoleCursor" where
  "cell_cursor c k = c\<lparr>ConsoleCursor.column := word_of_nat (k mod unat (max_columns c)),
     line := word_of_nat (k div unat (max_columns c))\<rparr>"

lemma next_cell:
  assumes "0 < unat (max_columns c)"
  shows "ConsoleCursor__next (cell_cursor c k) = cell_cursor c (Suc k)"
proof -
  let ?n = "unat (max_columns c)"
  have lt: "k mod ?n < 2 ^ 16"
    using order_less_trans [OF mod_less_divisor [OF assms, of k]] unat_less_exp [of "max_columns c"]
    by simp
  have w: "(ucast (ConsoleCursor.column (cell_cursor c k)) + 1 :: u32) = ucast (max_columns (cell_cursor c k))
      \<longleftrightarrow> Suc (k mod ?n) = ?n"
    unfolding column_wraps using lt by (simp add: cell_cursor_def unat_of_nat_small)
  show ?thesis
  proof (cases "Suc (k mod ?n) = ?n")
    case True
    then show ?thesis
      using w by (simp add: ConsoleCursor__next_def ConsoleCursor__new_line_def cell_cursor_def
          mod_Suc div_Suc add.commute)
  next
    case False
    then show ?thesis
      using w by (simp add: ConsoleCursor__next_def cell_cursor_def mod_Suc div_Suc add.commute)
  qed
qed

lemma print_blank_cursor:
  "s_cursor (Console__print_char fb self 0x20 s) = ConsoleCursor__next (s_cursor s)"
  by (simp add: Console__print_char_def on_cursor_def Let_def)

lemma clear_path:
  assumes "0 < unat (max_columns (s_cursor s))"
  shows "s_cursor (for_range 0 (n :: u32) (\<lambda>_. Console__print_char fb self 0x20)
      (on_cursor ConsoleCursor__reset s)) = cell_cursor (s_cursor s) (unat n)"
proof (rule for_bound_invariant [where P = "\<lambda>k t. s_cursor t = cell_cursor (s_cursor s) k" and n = n])
  show "s_cursor (on_cursor ConsoleCursor__reset s) = cell_cursor (s_cursor s) 0"
    by (simp add: on_cursor_def ConsoleCursor__reset_def cell_cursor_def)
qed (simp_all add: print_blank_cursor next_cell assms)

lemma next_keeps_size:
  "max_columns (ConsoleCursor__next c) = max_columns c" "max_lines (ConsoleCursor__next c) = max_lines c"
  by (simp_all add: ConsoleCursor__next_def ConsoleCursor__new_line_def)

lemma clear_screen_loop:
  "Console__clear_screen fb self s
    = on_cursor ConsoleCursor__reset
        (for_range (0 :: u32) (ucast (max_lines (s_cursor s)) * ucast (max_columns (s_cursor s)))
          (\<lambda>_. Console__print_char fb self 0x20) (on_cursor ConsoleCursor__reset s))"
  unfolding Console__clear_screen_def
  by (subst for_bound_constant)
    (simp_all add: print_blank_cursor next_keeps_size on_cursor_def ConsoleCursor__reset_def)

text \<open>A screen of eight by two pixels at \<open>0x1000\<close>, its structure at \<open>0x100\<close>; a font of two by one
  pixels at \<open>0x200\<close> with its header at \<open>0x300\<close> and the glyph of the letter A at \<open>0x482\<close>; the texts
  \<open>A\<close> at \<open>0x700\<close> and \<open>%s\<close> at \<open>0x710\<close>.\<close>

definition small_console :: Console where
  "small_console = \<lparr>console_font = 0x200, console_framebuffer = 0x100, console_initialized = True\<rparr>"

definition text_screen :: mem where
  "text_screen = (\<lambda>_. 0)(0x101 := 0x10, 0x110 := 8, 0x112 := 2, 0x114 := 8, 0x116 := 4,
     0x201 := 3, 0x208 := 2, 0x209 := 1, 0x211 := 4, 0x303 := 2,
     0x482 := 0x80, 0x483 := 0x00, 0x700 := 65, 0x710 := 37, 0x711 := 115)"

section \<open>Properties\<close>

text \<open>C36. The cursor (console.c): from a column inside the line \<^verbatim>\<open>ConsoleCursor__next\<close> moves one
  position on in reading order and stays inside the line. \<^verbatim>\<open>ConsoleCursor__back\<close> takes the move
  back, except that over the end of a line it leaves the column at \<^verbatim>\<open>max_columns\<close>, one past the
  last one.\<close>

theorem cursor_moves:
  assumes "ConsoleCursor.column c < max_columns c" "line c < 0xffff"
  shows "position (ConsoleCursor__next c) = position c + 1
    \<and> ConsoleCursor.column (ConsoleCursor__next c) < max_columns (ConsoleCursor__next c)
    \<and> ConsoleCursor__back (ConsoleCursor__next c)
      = (if unat (ConsoleCursor.column c) + 1 = unat (max_columns c)
         then c\<lparr>ConsoleCursor.column := max_columns c\<rparr> else c)"
proof -
  have lt: "unat (ConsoleCursor.column c) < unat (max_columns c)"
    using assms(1) by (simp add: word_less_nat_alt)
  have l: "unat (line c + 1) = unat (line c) + 1" "line c + 1 \<noteq> 0"
    using unat_Suc_less [OF assms(2)] by (auto simp: word_unat_eq_iff)
  show ?thesis
  proof (cases "unat (ConsoleCursor.column c) + 1 = unat (max_columns c)")
    case True
    then have "(ucast (ConsoleCursor.column c) + 1 :: u32) = ucast (max_columns c)"
      by (simp only: column_wraps)
    moreover have "0 < max_columns c" using assms(1) by (simp add: word_less_nat_alt)
    ultimately show ?thesis using True l
      by (simp add: ConsoleCursor__next_def ConsoleCursor__new_line_def ConsoleCursor__back_def
          position_def word_gt_0)
  next
    case False
    then have w: "(ucast (ConsoleCursor.column c) + 1 :: u32) \<noteq> ucast (max_columns c)"
      by (simp only: column_wraps not_False_eq_True)
    have "unat (ConsoleCursor.column c + 1) = unat (ConsoleCursor.column c) + 1"
      using unat_Suc_less [OF assms(1)] by simp
    moreover from this have "ConsoleCursor.column c + 1 \<noteq> 0" by (auto simp: word_unat_eq_iff)
    ultimately show ?thesis using False lt w
      by (simp add: ConsoleCursor__next_def ConsoleCursor__back_def position_def word_less_nat_alt)
  qed
qed

theorem cursor_moves_witness:
  "position (ConsoleCursor__next (initial_cursor\<lparr>ConsoleCursor.column := 99\<rparr>)) = 100
   \<and> ConsoleCursor.column (ConsoleCursor__back (ConsoleCursor__next
       (initial_cursor\<lparr>ConsoleCursor.column := 99\<rparr>))) = 100"
  using cursor_moves [of "initial_cursor\<lparr>ConsoleCursor.column := 99\<rparr>"]
  by (simp add: initial_cursor_def position_def)

text \<open>C35. \<^verbatim>\<open>Console__clear_screen\<close> (console.c) prints one blank in every cell: the \<open>k\<close>-th where the
  cursor is in line \<open>k div max_columns\<close>, column \<open>k mod max_columns\<close>, for each of the
  \<open>max_lines * max_columns\<close> cells, and leaves the cursor in the first.\<close>

theorem clear_screen_sweeps:
  assumes "0 < unat (max_columns (s_cursor s))"
  shows "Console__clear_screen fb self s
      = on_cursor ConsoleCursor__reset
          (for_range (0 :: u32) (ucast (max_lines (s_cursor s)) * ucast (max_columns (s_cursor s)))
            (\<lambda>_. Console__print_char fb self 0x20) (on_cursor ConsoleCursor__reset s))
    \<and> s_cursor (for_range 0 (k :: u32) (\<lambda>_. Console__print_char fb self 0x20)
          (on_cursor ConsoleCursor__reset s))
      = (s_cursor s)\<lparr>ConsoleCursor.column := word_of_nat (unat k mod unat (max_columns (s_cursor s))),
          line := word_of_nat (unat k div unat (max_columns (s_cursor s)))\<rparr>
    \<and> s_cursor (Console__clear_screen fb self s)
      = (s_cursor s)\<lparr>ConsoleCursor.column := 0, line := 0\<rparr>"
  using clear_path [OF assms]
  by (simp add: clear_screen_loop cell_cursor_def on_cursor_def ConsoleCursor__reset_def)

theorem clear_screen_sweeps_witness:
  "s_cursor (for_range 0 (250 :: u32) (\<lambda>_. Console__print_char 0x100 small_console 0x20)
      (on_cursor ConsoleCursor__reset \<lparr>s_ram = \<lambda>_. 0, s_cursor = initial_cursor\<rparr>))
    = initial_cursor\<lparr>ConsoleCursor.column := 50, line := 2\<rparr>"
  using clear_screen_sweeps [of "\<lparr>s_ram = \<lambda>_. 0, s_cursor = initial_cursor\<rparr>" "0x100" small_console 250]
  by (simp add: initial_cursor_def)

text \<open>C14. \<^verbatim>\<open>Console__print_str\<close> (console.c) shows the text: where a string of printable characters
  fits on the cursor's line, the call returns, the cursor has moved on by its length, no byte
  outside the framebuffer has changed, and every pixel of every character's cell is the
  foreground colour where the font has a bit and the background colour elsewhere.\<close>

theorem print_str_shows_line:
  assumes "cstr (s_ram s) a cs" "region a (Suc (length cs)) \<inter> screen_area (s_ram s) fb = {}"
    and "line_fits (s_ram s) fb self cs (s_cursor s)"
  shows "\<exists>s'. Console__print_str fb self a s = Some s'
    \<and> s_cursor s' = (s_cursor s)\<lparr>ConsoleCursor.column :=
        ConsoleCursor.column (s_cursor s) + word_of_nat (length cs)\<rparr>
    \<and> (\<forall>x. x \<notin> screen_area (s_ram s) fb \<longrightarrow> s_ram s' x = s_ram s x)
    \<and> (\<forall>k x y. k < length cs \<longrightarrow> x < unat (glyph_width (font_at (s_ram s) (console_font self)))
        \<longrightarrow> y < unat (glyph_height (font_at (s_ram s) (console_font self)))
        \<longrightarrow> pix (base_address (framebuffer_at (s_ram s) fb)) (s_ram s')
              (cell_pixel (s_ram s) fb self (unat (line (s_cursor s)))
                 (unat (ConsoleCursor.column (s_cursor s)) + k) x y)
            = glyph_color (s_ram s)
                (char_glyph (font_at (s_ram s) (console_font self)) (s_cursor s) (scast (cs ! k))) y x)"
proof -
  have r: "console_ready (s_ram s) fb self" using assms(3) by (simp add: line_fits_def)
  have "length cs < 2 ^ 63"
    using assms(3) unat_less_exp [of "max_columns (s_cursor s)"] by (simp add: line_fits_def)
  note run = print_str_chars [OF assms(1) this assms(2) r line_fits_text [OF assms(3)]]
  note res = print_chars_result [OF r line_fits_text [OF assms(3)]]
  from assms(3) res run line_shown [OF assms(3)] line_cursor [OF assms(3)] show ?thesis
    by (auto simp: off_screen_def)
qed

lemma text_screen_framebuffer:
  "framebuffer_at text_screen 0x100 = \<lparr>base_address = 0x1000, buffer_size = 0, width = 8,
     height = 2, pixels_per_scanline = 8, bytes_per_pixel = 4\<rparr>"
  by code_simp

lemma text_screen_font:
  "font_at text_screen 0x200 = \<lparr>charsize = 2, glyph_height = 2, glyph_width = 1, glyph_buffer = 0x400\<rparr>"
  by code_simp

lemma text_screen_area: "screen_area text_screen 0x100 = region 0x1000 68"
  by (simp add: screen_area_def text_screen_framebuffer fb_area_def)

lemma text_screen_ready: "console_ready text_screen 0x100 small_console"
proof -
  have "load64 text_screen 0x200 + 3 = 0x303" by code_simp
  then show ?thesis
    using regions_apart [of "0x100" 24 "0x1000" 68] regions_apart [of "0x200" 24 "0x1000" 68]
    by (simp add: console_ready_def small_console_def text_screen_area fb_ready_def
        text_screen_framebuffer fb_area_def region_iff)
qed

lemma text_screen_line: "line_fits text_screen 0x100 small_console [65] initial_cursor"
  using text_screen_ready regions_apart [of "0x482" 2 "0x1000" 68]
  by (simp add: line_fits_def text_screen_framebuffer text_screen_font text_screen_area
      small_console_def initial_cursor_def)

theorem print_str_shows_line_witness:
  "\<exists>s'. Console__print_str 0x100 small_console 0x700 \<lparr>s_ram = text_screen, s_cursor = initial_cursor\<rparr>
      = Some s'
    \<and> pix 0x1000 (s_ram s') 0 = ucast WHITE \<and> pix 0x1000 (s_ram s') 8 = ucast BLACK"
proof -
  let ?s = "\<lparr>s_ram = text_screen, s_cursor = initial_cursor\<rparr>"
  have c: "cstr (s_ram ?s) 0x700 [65]" by (simp add: cstr_def text_screen_def)
  have r: "region 0x700 (Suc (length [65 :: u8])) \<inter> screen_area (s_ram ?s) 0x100 = {}"
  proof -
    have "Suc (length [65 :: u8]) = 2" by simp
    then show ?thesis
      using regions_apart [of "0x700" 2 "0x1000" 68]
      by (simp only: text_screen_area screen.simps) simp
  qed
  have l: "line_fits (s_ram ?s) 0x100 small_console [65] (s_cursor ?s)"
    using text_screen_line by simp
  have cell: "cell_pixel text_screen 0x100 small_console 0 0 0 0 = 0"
    "cell_pixel text_screen 0x100 small_console 0 0 0 1 = 8"
    by (simp_all add: cell_pixel_def pixel_no_def text_screen_framebuffer text_screen_font small_console_def)
  have col: "glyph_color text_screen (char_glyph (font_at text_screen 0x200) initial_cursor (scast (65 :: u8))) 0 0
      = ucast WHITE"
    "glyph_color text_screen (char_glyph (font_at text_screen 0x200) initial_cursor (scast (65 :: u8))) 1 0
      = ucast BLACK"
    by code_simp+
  from print_str_shows_line [OF c r l] obtain s' where s':
    "Console__print_str 0x100 small_console 0x700 ?s = Some s'"
    and px: "\<forall>k x y. k < length [65 :: u8] \<longrightarrow> x < unat (glyph_width (font_at (s_ram ?s) (console_font small_console)))
        \<longrightarrow> y < unat (glyph_height (font_at (s_ram ?s) (console_font small_console)))
        \<longrightarrow> pix (base_address (framebuffer_at (s_ram ?s) 0x100)) (s_ram s')
              (cell_pixel (s_ram ?s) 0x100 small_console (unat (line (s_cursor ?s)))
                 (unat (ConsoleCursor.column (s_cursor ?s)) + k) x y)
            = glyph_color (s_ram ?s)
                (char_glyph (font_at (s_ram ?s) (console_font small_console)) (s_cursor ?s) (scast ([65 :: u8] ! k))) y x"
    by blast
  have sc: "console_font small_console = 0x200" "line initial_cursor = 0"
    "ConsoleCursor.column initial_cursor = 0"
    by (simp_all add: small_console_def initial_cursor_def)
  have "pix 0x1000 (s_ram s') 0 = ucast WHITE" "pix 0x1000 (s_ram s') 8 = ucast BLACK"
    using px [rule_format, of 0 0 0] px [rule_format, of 0 0 1] col
    by (simp_all add: text_screen_framebuffer text_screen_font cell [unfolded One_nat_def] sc)
  with s' show ?thesis by blast
qed

text \<open>The buffers of \<^verbatim>\<open>Console__printf\<close> lie apart from what the console reads and draws on.\<close>

definition buffers_apart :: "mem \<Rightarrow> ptr \<Rightarrow> Console \<Rightarrow> ptr \<Rightarrow> ptr \<Rightarrow> bool" where
  "buffers_apart m fb self buf temp_buf \<longleftrightarrow> region buf 4096 \<inter> region temp_buf 64 = {}
     \<and> (region buf 4096 \<union> region temp_buf 64)
       \<inter> (screen_area m fb \<union> region fb 24 \<union> region (console_font self) 24
          \<union> {load64 m (console_font self) + 3}) = {}"

text \<open>What the console reads apart from the text: the two structures and the font's header.\<close>

definition console_reads :: "mem \<Rightarrow> ptr \<Rightarrow> Console \<Rightarrow> ptr set" where
  "console_reads m fb self =
     region fb 24 \<union> region (console_font self) 24 \<union> {load64 m (console_font self) + 3}"

lemma console_same:
  assumes out: "\<And>x. x \<in> console_reads m fb self \<Longrightarrow> m' x = m x"
  shows "framebuffer_at m' fb = framebuffer_at m fb" "screen_area m' fb = screen_area m fb"
    and "load64 m' (console_font self) = load64 m (console_font self)"
    and "font_at m' (console_font self) = font_at m (console_font self)"
    and "console_ready m' fb self = console_ready m fb self"
    and "text_fits m' fb self cs cur = text_fits m fb self cs cur"
    and "line_fits m' fb self cs cur = line_fits m fb self cs cur"
proof -
  show f: "framebuffer_at m' fb = framebuffer_at m fb"
    by (rule framebuffer_at_cong) (simp add: out console_reads_def)
  then show area: "screen_area m' fb = screen_area m fb" by (simp add: screen_area_def)
  show l: "load64 m' (console_font self) = load64 m (console_font self)"
  proof (rule load64_cong)
    fix x assume "x \<in> region (console_font self) 8"
    then have "x \<in> region (console_font self) 24"
      using region_mono [of 8 24 "console_font self"] by auto
    then show "m' x = m x" by (simp add: out console_reads_def)
  qed
  have fr: "fb_ready m' fb = fb_ready m fb" using f by (simp add: fb_ready_def)
  with area l show r: "console_ready m' fb self = console_ready m fb self"
    by (simp add: console_ready_def)
  show ft: "font_at m' (console_font self) = font_at m (console_font self)"
  proof -
    let ?p = "console_font self"
    have "region (?p + 16) 8 \<subseteq> region ?p 24" "?p + 8 \<in> region ?p 24" "?p + 9 \<in> region ?p 24"
      by (rule region_sub, simp_all, simp_all add: region_iff)
    then have "load64 m' (?p + 16) = load64 m (?p + 16)"
      "load8 m' (?p + 8) = load8 m (?p + 8)" "load8 m' (?p + 9) = load8 m (?p + 9)"
      by (auto intro!: load64_cong load8_cong out simp: console_reads_def)
    moreover have "load8 m' (load64 m ?p + 3) = load8 m (load64 m ?p + 3)"
      by (rule load8_cong) (simp add: out console_reads_def)
    ultimately show ?thesis by (simp add: font_at_def psf_header_at_def l)
  qed
  have "glyph_fits m' fb g = glyph_fits m fb g" for g
    using f fr by (simp add: glyph_fits_def)
  then show "text_fits m' fb self cs cur = text_fits m fb self cs cur"
    using ft by (induction cs arbitrary: cur) simp_all
  show "line_fits m' fb self cs cur = line_fits m fb self cs cur"
    by (simp only: line_fits_def f area ft r)
qed

lemma buffers_apart_same:
  assumes "console_ready m fb self" "buffers_apart m fb self buf temp_buf"
    and "outside_buffers buf temp_buf m m'"
  shows "console_ready m' fb self" "screen_area m' fb = screen_area m fb"
    and "text_fits m' fb self cs cur = text_fits m fb self cs cur"
proof -
  have "m' x = m x" if "x \<in> console_reads m fb self" for x
    using that assms(2,3) unfolding buffers_apart_def outside_buffers_def console_reads_def by blast
  note same = console_same [of m fb self m', OF this]
  from same assms(1) show "console_ready m' fb self" "screen_area m' fb = screen_area m fb"
    "text_fits m' fb self cs cur = text_fits m fb self cs cur" by blast+
qed

lemma printf_run:
  assumes "buffers_apart (s_ram s) fb self buf temp_buf"
    and "string_at buf temp_buf (s_ram s) str fmt" "length fmt < 2 ^ 16"
    and "\<And>a. a \<in> fmt_strings False fmt args \<Longrightarrow> string_at buf temp_buf (s_ram s) a (L a)"
    and "fmt_out L False fmt args = Some out" "length out < 4096"
    and "console_ready (s_ram s) fb self" "text_fits (s_ram s) fb self out (s_cursor s)"
  shows "\<exists>m'. Console__printf fb self (buf, temp_buf) str args s
        = Some (print_chars fb self out (s\<lparr>s_ram := m'\<rparr>))
      \<and> outside_buffers buf temp_buf (s_ram s) m'"
proof -
  have bufs: "region buf 4096 \<inter> region temp_buf 64 = {}"
    using assms(1) by (simp add: buffers_apart_def)
  obtain m' where m': "Console__printf fb self (buf, temp_buf) str args (s\<lparr>s_ram := s_ram s\<rparr>)
      = Console__print_str fb self buf (s\<lparr>s_ram := m'\<rparr>)"
    "cstr m' buf out" "outside_buffers buf temp_buf (s_ram s) m'"
    by (rule printf_buffer [OF bufs assms(2-6), where fb = fb and self = self and s = s])
      (assumption | rule that)+
  note same = buffers_apart_same [OF assms(7,1) m'(3)]
  have "region buf (Suc (length out)) \<subseteq> region buf 4096"
    using assms(6) by (intro region_mono) simp
  then have "region buf (Suc (length out)) \<inter> screen_area m' fb = {}"
    using assms(1) same(2) unfolding buffers_apart_def by blast
  then have "Console__print_str fb self buf (s\<lparr>s_ram := m'\<rparr>)
      = Some (print_chars fb self out (s\<lparr>s_ram := m'\<rparr>))"
    using m'(2) assms(6,8) same(1,3) by (intro print_str_chars) simp_all
  with m' show ?thesis by auto
qed

text \<open>C12. \<^verbatim>\<open>Console__printf\<close> (console.c) prints what its format describes: with \<open>%s\<close>, \<open>%d\<close> and \<open>%p\<close>
  replaced by the string at the next argument and by its decimal and hexadecimal numeral, any
  other character after a percent sign dropped. The call returns, having printed exactly those
  characters, for a format of less than 64 KiB whose text is shorter than the buffer of 4096
  bytes and fits on the screen.\<close>

theorem printf_prints_format:
  assumes "buffers_apart (s_ram s) fb self buf temp_buf"
    and "string_at buf temp_buf (s_ram s) str fmt" "length fmt < 2 ^ 16"
    and "\<And>a. a \<in> fmt_strings False fmt args \<Longrightarrow> string_at buf temp_buf (s_ram s) a (L a)"
    and "fmt_out L False fmt args = Some out" "length out < 4096"
    and "console_ready (s_ram s) fb self" "text_fits (s_ram s) fb self out (s_cursor s)"
  shows "\<exists>m'. Console__printf fb self (buf, temp_buf) str args s
        = Some (print_chars fb self out (s\<lparr>s_ram := m'\<rparr>))
      \<and> outside_buffers buf temp_buf (s_ram s) m'"
  using assms by (rule printf_run)

theorem printf_prints_format_witness:
  "\<exists>m'. Console__printf 0x100 small_console (0x2000, 0x4000) 0x710 [0x700]
        \<lparr>s_ram = text_screen, s_cursor = initial_cursor\<rparr>
      = Some (print_chars 0x100 small_console [65] \<lparr>s_ram = m', s_cursor = initial_cursor\<rparr>)"
proof -
  let ?s = "\<lparr>s_ram = text_screen, s_cursor = initial_cursor\<rparr>"
  have l3: "load64 text_screen 0x200 + 3 = 0x303" by code_simp
  have far: "region a n \<inter> region b k = {}"
    if "unat a + n \<le> 0x1044" "0x2000 \<le> unat b" "unat b + k \<le> 2 ^ 64" for a b :: ptr and n k
    using that by (intro regions_apart) simp_all
  have "buffers_apart text_screen 0x100 small_console 0x2000 0x4000"
    using regions_apart [of "0x2000" 4096 "0x4000" 64] far [of "0x1000" 68 "0x2000" 4096]
      far [of "0x1000" 68 "0x4000" 64] far [of "0x100" 24 "0x2000" 4096] far [of "0x100" 24 "0x4000" 64]
      far [of "0x200" 24 "0x2000" 4096] far [of "0x200" 24 "0x4000" 64]
    by (simp add: buffers_apart_def small_console_def text_screen_area l3 Int_Un_distrib
        Int_Un_distrib2 Int_commute region_iff)
  moreover have st: "string_at 0x2000 0x4000 text_screen a s"
    if "cstr text_screen a s" "length s < 3" "unat a < 0x1000" for a s
    using that far [of a "Suc (length s)" "0x2000" 4096] far [of a "Suc (length s)" "0x4000" 64]
    by (simp add: string_at_def Int_Un_distrib)
  have A: "string_at 0x2000 0x4000 text_screen 0x700 [65]"
    by (rule st) (simp_all add: cstr_def text_screen_def)
  have "string_at 0x2000 0x4000 text_screen 0x710 [37, 115]"
    by (rule st) (simp_all add: cstr_def text_screen_def All_less_Suc2)
  moreover have "string_at 0x2000 0x4000 text_screen a ((\<lambda>_. [65]) a)"
    if "a \<in> fmt_strings False [37, 115] [0x700]" for a
    using that A by simp
  moreover have "fmt_out (\<lambda>_. [65]) False [37, 115] [0x700] = Some [65]" by simp
  moreover have "text_fits text_screen 0x100 small_console [65] initial_cursor"
    by (rule line_fits_text [OF text_screen_line])
  ultimately show ?thesis
    using printf_prints_format [of ?s "0x100" small_console "0x2000" "0x4000" "0x710" "[37, 115]" "[0x700]"
        "\<lambda>_. [65]" "[65]"] text_screen_ready
    by auto
qed

end
