(* ===== verification/Mmap.thy ===== *)
theory Mmap
  imports Memory
begin

text \<open>
  The memory map that the firmware hands over, \<^verbatim>\<open>src/src/memory/mmap.c\<close>: an array of
  descriptors in memory, with a stride the firmware chooses.
\<close>

unbundle bit_operations_syntax

section \<open>Data\<close>

datatype efi_memory_type =
    EFI_RESERVED_MEMORY_TYPE
  | EFI_LOADER_CODE
  | EFI_LOADER_DATA
  | EFI_BOOT_SERVICES_CODE
  | EFI_BOOT_SERVICES_DATA
  | EFI_RUNTIME_SERVICES_CODE
  | EFI_RUNTIME_SERVICES_DATA
  | EFI_CONVENTIONAL_MEMORY
  | EFI_UNUSABLE_MEMORY
  | EFI_ACPI_RECLAIM_MEMORY
  | EFI_ACPI_MEMORY_NVS
  | EFI_MEMORY_MAPPED_IO
  | EFI_MEMORY_MAPPED_IO_PORT_SPACE
  | EFI_PAL_CODE
  | EFI_MAX_MEMORY_TYPE

text \<open>The value C gives to each constant of the enumeration.\<close>

fun efi_code :: "efi_memory_type \<Rightarrow> u32" where
  "efi_code EFI_RESERVED_MEMORY_TYPE = 0"
| "efi_code EFI_LOADER_CODE = 1"
| "efi_code EFI_LOADER_DATA = 2"
| "efi_code EFI_BOOT_SERVICES_CODE = 3"
| "efi_code EFI_BOOT_SERVICES_DATA = 4"
| "efi_code EFI_RUNTIME_SERVICES_CODE = 5"
| "efi_code EFI_RUNTIME_SERVICES_DATA = 6"
| "efi_code EFI_CONVENTIONAL_MEMORY = 7"
| "efi_code EFI_UNUSABLE_MEMORY = 8"
| "efi_code EFI_ACPI_RECLAIM_MEMORY = 9"
| "efi_code EFI_ACPI_MEMORY_NVS = 10"
| "efi_code EFI_MEMORY_MAPPED_IO = 11"
| "efi_code EFI_MEMORY_MAPPED_IO_PORT_SPACE = 12"
| "efi_code EFI_PAL_CODE = 13"
| "efi_code EFI_MAX_MEMORY_TYPE = 14"

record EfiMemoryDescriptor =
  efi_type :: u32
  efi_pad :: u32
  physical_addr :: ptr
  virtual_addr :: ptr
  number_of_pages :: u64
  attribute :: u64

text \<open>The descriptor at an address: the fields at the offsets of the C structure.\<close>

definition efi_desc :: "mem \<Rightarrow> ptr \<Rightarrow> EfiMemoryDescriptor" where
  "efi_desc m d = \<lparr>efi_type = load32 m d, efi_pad = load32 m (d + 4),
     physical_addr = load64 m (d + 8), virtual_addr = load64 m (d + 16),
     number_of_pages = load64 m (d + 24), attribute = load64 m (d + 32)\<rparr>"

record MemoryData =
  memory_map :: ptr
  map_sz :: u64
  descriptor_sz :: u64
  entries :: u64

definition memory_data :: "mem \<Rightarrow> ptr \<Rightarrow> MemoryData" where
  "memory_data m p = \<lparr>memory_map = load64 m p, map_sz = load64 m (p + 8),
     descriptor_sz = load64 m (p + 16), entries = load64 m (p + 24)\<rparr>"

section \<open>Operations\<close>

text \<open>\<open>md\<close> is the pointer \<^verbatim>\<open>kernel.memory\<close>.\<close>

definition get_memory_descriptor :: "ptr \<Rightarrow> u64 \<Rightarrow> mem \<Rightarrow> ptr" where
  "get_memory_descriptor md n m =
     memory_map (memory_data m md) + n * descriptor_sz (memory_data m md)"

text \<open>
  The loop counts with a \<^verbatim>\<open>uint32_t\<close> against a 64-bit bound, so it ends only for a map of fewer
  than \<open>2 ^ 32\<close> entries.
\<close>

partial_function (option) page_frames_loop :: "ptr \<Rightarrow> mem \<Rightarrow> u32 \<Rightarrow> u64 \<Rightarrow> u64 option" where
  "page_frames_loop md m i result =
     (if ucast i < entries (memory_data m md)
      then page_frames_loop md m (i + 1)
             (result + number_of_pages (efi_desc m (get_memory_descriptor md (ucast i) m)))
      else Some result)"

definition get_number_of_page_frames :: "ptr \<Rightarrow> mem \<Rightarrow> u64 option" where
  "get_number_of_page_frames md m = page_frames_loop md m 0 0"

section \<open>The map as a list of descriptors\<close>

definition efi_map :: "ptr \<Rightarrow> mem \<Rightarrow> EfiMemoryDescriptor list" where
  "efi_map md m = map (\<lambda>i. efi_desc m (get_memory_descriptor md (word_of_nat i) m))
     [0..<unat (entries (memory_data m md))]"

definition total_pages :: "EfiMemoryDescriptor list \<Rightarrow> nat" where
  "total_pages ds = sum_list (map (\<lambda>d. unat (number_of_pages d)) ds)"

lemma length_efi_map [simp]: "length (efi_map md m) = unat (entries (memory_data m md))"
  by (simp add: efi_map_def)

lemma page_frames_loop_sum:
  assumes "entries (memory_data m md) < 2 ^ 32" "i \<le> unat (entries (memory_data m md))"
  shows "page_frames_loop md m (word_of_nat i) r =
    Some (r + word_of_nat (total_pages (drop i (efi_map md m))))"
  using assms(2)
proof (induction "unat (entries (memory_data m md)) - i" arbitrary: i r)
  case 0
  let ?n = "entries (memory_data m md)"
  have n32: "unat ?n < 2 ^ 32" using assms(1) by (simp add: word_less_nat_alt)
  then have "ucast (word_of_nat i :: u32) = (word_of_nat i :: u64)"
    using 0 by (intro ucast_of_nat_up) simp_all
  moreover have "i = unat ?n" using 0 by simp
  ultimately show ?case by (simp add: page_frames_loop.simps total_pages_def)
next
  case (Suc d)
  let ?n = "entries (memory_data m md)"
  let ?d = "efi_desc m (get_memory_descriptor md (word_of_nat i) m)"
  have n32: "unat ?n < 2 ^ 32" using assms(1) by (simp add: word_less_nat_alt)
  have i: "i < unat ?n" using Suc by simp
  have u: "ucast (word_of_nat i :: u32) = (word_of_nat i :: u64)"
    using i n32 by (intro ucast_of_nat_up) simp_all
  have "word_of_nat i < ?n"
    using i n32 by (simp add: word_less_nat_alt unat_of_nat_small)
  moreover have "drop i (efi_map md m) = ?d # drop (Suc i) (efi_map md m)"
    using i by (simp add: Cons_nth_drop_Suc [symmetric] efi_map_def)
  moreover have "page_frames_loop md m (word_of_nat (Suc i)) (r + number_of_pages ?d)
      = Some (r + number_of_pages ?d + word_of_nat (total_pages (drop (Suc i) (efi_map md m))))"
    using Suc.hyps(1) [of "Suc i"] Suc.hyps(2) i by simp
  ultimately show ?case
    by (simp add: page_frames_loop.simps [of md m "word_of_nat i"] u total_pages_def
        add.commute add.left_commute)
qed

lemma page_frames_total:
  assumes "entries (memory_data m md) < 2 ^ 32"
  shows "get_number_of_page_frames md m = Some (word_of_nat (total_pages (efi_map md m)))"
  using page_frames_loop_sum [OF assms, of 0 0] by (simp add: get_number_of_page_frames_def)

lemma page_frames_loop_returns:
  "page_frames_loop md m i r = Some x \<Longrightarrow> \<exists>j :: u32. entries (memory_data m md) \<le> ucast j"
  by (rule page_frames_loop.raw_induct
        [where P = "\<lambda>md m i r x. \<exists>j :: u32. entries (memory_data m md) \<le> ucast j"])
    (auto simp: not_less split: if_splits)

lemma page_frames_diverge:
  assumes "2 ^ 32 \<le> entries (memory_data m md)"
  shows "get_number_of_page_frames md m = None"
proof (rule ccontr)
  assume "get_number_of_page_frames md m \<noteq> None"
  then obtain j :: u32 where "entries (memory_data m md) \<le> ucast j"
    by (auto simp: get_number_of_page_frames_def dest: page_frames_loop_returns)
  with assms have "2 ^ 32 \<le> (ucast j :: u64)" by (rule order_trans)
  then have "2 ^ 32 \<le> unat j" by (simp add: word_le_nat_alt unat_ucast_up)
  then show False using unat_less_exp [of j] by simp
qed

section \<open>Reads of the map are local\<close>

lemma efi_desc_cong:
  assumes "\<And>x. x \<in> region d 40 \<Longrightarrow> m x = m' x"
  shows "efi_desc m d = efi_desc m' d"
proof -
  have sub: "region (d + word_of_nat k) n \<subseteq> region d 40" if "k + n \<le> 40" for k n
    using that by (intro region_sub) (simp_all add: unat_of_nat_small)
  have l32: "load32 m (d + word_of_nat k) = load32 m' (d + word_of_nat k)" if "k + 4 \<le> 40" for k
    using sub [OF that] assms by (intro load32_cong) auto
  have l64: "load64 m (d + word_of_nat k) = load64 m' (d + word_of_nat k)" if "k + 8 \<le> 40" for k
    using sub [OF that] assms by (intro load64_cong) auto
  show ?thesis
    using l32 [of 0] l32 [of 4] l64 [of 8] l64 [of 16] l64 [of 24] l64 [of 32]
    by (simp add: efi_desc_def)
qed

lemma memory_data_cong:
  assumes "\<And>x. x \<in> region p 32 \<Longrightarrow> m x = m' x"
  shows "memory_data m p = memory_data m' p"
proof -
  have sub: "region (p + word_of_nat k) n \<subseteq> region p 32" if "k + n \<le> 32" for k n
    using that by (intro region_sub) (simp_all add: unat_of_nat_small)
  have l64: "load64 m (p + word_of_nat k) = load64 m' (p + word_of_nat k)" if "k + 8 \<le> 32" for k
    using sub [OF that] assms by (intro load64_cong) auto
  show ?thesis
    using l64 [of 0] l64 [of 8] l64 [of 16] l64 [of 24] by (simp add: memory_data_def)
qed

text \<open>The firmware's tables lie outside a set of addresses.\<close>

definition map_separate :: "ptr \<Rightarrow> mem \<Rightarrow> ptr set \<Rightarrow> bool" where
  "map_separate md m R \<longleftrightarrow> region md 32 \<inter> R = {}
     \<and> (\<forall>i < unat (entries (memory_data m md)).
          region (get_memory_descriptor md (word_of_nat i) m) 40 \<inter> R = {})"

section \<open>Properties\<close>

text \<open>C23. \<^verbatim>\<open>get_number_of_page_frames\<close> (mmap.c) returns the sum of the sizes of all regions of the
  map for fewer than \<open>2 ^ 32\<close> descriptors, and does not return for more: its 32-bit counter wraps
  around before it reaches the number of descriptors.\<close>

theorem page_frames_counted:
  "get_number_of_page_frames md m
    = (if unat (entries (memory_data m md)) < 2 ^ 32
       then Some (word_of_nat (total_pages (efi_map md m))) else None)"
proof (cases "entries (memory_data m md) < 2 ^ 32")
  case True
  then show ?thesis using page_frames_total [OF True] by (simp add: word_less_nat_alt)
next
  case False
  then have "2 ^ 32 \<le> entries (memory_data m md)" by simp
  from page_frames_diverge [OF this] False show ?thesis by (simp add: word_less_nat_alt)
qed

end
