(* ===== verification/Pmem.thy ===== *)
theory Pmem
  imports Libc Mmap
begin

text \<open>
  The physical memory allocator, \<^verbatim>\<open>src/src/memory/pmem.c\<close>. Its book-keeping is an array of page
  frames that lies in the memory it manages, and the counters of the global
  \<^verbatim>\<open>physical_memory\<close>. The operations work on both; \<open>frame_addr\<close> and \<open>frame_st\<close> read the
  array back as two functions of the frame number.
\<close>

unbundle bit_operations_syntax

section \<open>Data\<close>

abbreviation FRAME_SZ :: u64 where "FRAME_SZ \<equiv> 4096"
abbreviation PAGE_SZ :: u64 where "PAGE_SZ \<equiv> FRAME_SZ"

abbreviation FREE_FRAME :: u8 where "FREE_FRAME \<equiv> 0"
abbreviation LOCKED_FRAME :: u8 where "LOCKED_FRAME \<equiv> 1"
abbreviation RESERVED_FRAME :: u8 where "RESERVED_FRAME \<equiv> 2"

text \<open>\<^verbatim>\<open>sizeof(PageFrame)\<close>: a pointer, a byte and seven bytes of padding.\<close>

abbreviation PageFrame_sz :: u64 where "PageFrame_sz \<equiv> 16"

record PhysicalMemory =
  free_frames :: u64
  reserved_frames :: u64
  locked_frames :: u64
  frames :: u64
  frame_array :: ptr
  initialized :: bool

record pstate =
  ram :: mem
  pm :: PhysicalMemory

section \<open>The array of page frames\<close>

text \<open>\<^verbatim>\<open>&physical_memory.array[index]\<close>: the frame's address is at offset 0, its state at 8.\<close>

definition frame_ptr :: "pstate \<Rightarrow> u64 \<Rightarrow> ptr" where
  "frame_ptr s index = frame_array (pm s) + index * PageFrame_sz"

definition frame_addr_at :: "pstate \<Rightarrow> u64 \<Rightarrow> ptr" where
  "frame_addr_at s index = load64 (ram s) (frame_ptr s index)"

definition PhysicalMemory__set_frame_state :: "u64 \<Rightarrow> u8 \<Rightarrow> pstate \<Rightarrow> pstate" where
  "PhysicalMemory__set_frame_state index state s =
     s\<lparr>ram := store8 (frame_ptr s index + 8) state (ram s)\<rparr>"

definition PhysicalMemory__get_frame_state :: "u64 \<Rightarrow> pstate \<Rightarrow> u8" where
  "PhysicalMemory__get_frame_state index s = load8 (ram s) (frame_ptr s index + 8)"

function frame_index_loop :: "u64 \<Rightarrow> u64 \<Rightarrow> pstate \<Rightarrow> u64" where
  "frame_index_loop ptr i s =
     (if i < frames (pm s) then
        let p1 = frame_addr_at s i; p2 = p1 + PAGE_SZ
        in if p1 \<le> ptr \<and> p2 > ptr then i else frame_index_loop ptr (i + 1) s
      else -1)"
  by pat_completeness auto
termination
  by (relation "measure (\<lambda>(ptr, i, s). unat (frames (pm s)) - unat i)")
    (auto simp: unat_Suc_less word_less_nat_alt)

declare frame_index_loop.simps [simp del]

definition PhysicalMemory__get_frame_index_by_ptr :: "ptr \<Rightarrow> pstate \<Rightarrow> u64" where
  "PhysicalMemory__get_frame_index_by_ptr mem_ptr s = frame_index_loop mem_ptr 0 s"

definition PhysicalMemory__get_frames_array_sz :: "pstate \<Rightarrow> u64" where
  "PhysicalMemory__get_frames_array_sz s = frames (pm s) * 8 * PageFrame_sz"

section \<open>Changing the state of a frame\<close>

definition PhysicalMemory__lock_frame :: "u64 \<Rightarrow> pstate \<Rightarrow> pstate" where
  "PhysicalMemory__lock_frame index s =
     (let state = PhysicalMemory__get_frame_state index s
      in if state = FREE_FRAME then
           PhysicalMemory__set_frame_state index LOCKED_FRAME
             (s\<lparr>pm := (pm s)\<lparr>free_frames := free_frames (pm s) - 1,
                             locked_frames := locked_frames (pm s) + 1\<rparr>\<rparr>)
         else s)"

definition PhysicalMemory__free_frame :: "u64 \<Rightarrow> pstate \<Rightarrow> pstate" where
  "PhysicalMemory__free_frame index s =
     (let state = PhysicalMemory__get_frame_state index s
      in if state = LOCKED_FRAME then
           PhysicalMemory__set_frame_state index FREE_FRAME
             (s\<lparr>pm := (pm s)\<lparr>free_frames := free_frames (pm s) + 1,
                             locked_frames := locked_frames (pm s) - 1\<rparr>\<rparr>)
         else s)"

definition PhysicalMemory__reserve_frame :: "u64 \<Rightarrow> pstate \<Rightarrow> pstate" where
  "PhysicalMemory__reserve_frame index s =
     (let state = PhysicalMemory__get_frame_state index s
      in if state = FREE_FRAME then
           PhysicalMemory__set_frame_state index RESERVED_FRAME
             (s\<lparr>pm := (pm s)\<lparr>free_frames := free_frames (pm s) - 1,
                             reserved_frames := reserved_frames (pm s) + 1\<rparr>\<rparr>)
         else s)"

definition PhysicalMemory__unreserve_frame :: "u64 \<Rightarrow> pstate \<Rightarrow> pstate" where
  "PhysicalMemory__unreserve_frame index s =
     (let state = PhysicalMemory__get_frame_state index s
      in if state = RESERVED_FRAME then
           PhysicalMemory__set_frame_state index FREE_FRAME
             (s\<lparr>pm := (pm s)\<lparr>free_frames := free_frames (pm s) + 1,
                             reserved_frames := reserved_frames (pm s) - 1\<rparr>\<rparr>)
         else s)"

section \<open>Allocation\<close>

function request_loop :: "u64 \<Rightarrow> pstate \<Rightarrow> pstate \<times> ptr" where
  "request_loop i s =
     (if i < frames (pm s) then
        if PhysicalMemory__get_frame_state i s = FREE_FRAME then
          let s' = PhysicalMemory__lock_frame i s in (s', frame_addr_at s' i)
        else request_loop (i + 1) s
      else (s, 0))"
  by pat_completeness auto
termination
  by (relation "measure (\<lambda>(i, s). unat (frames (pm s)) - unat i)")
    (auto simp: unat_Suc_less word_less_nat_alt)

declare request_loop.simps [simp del]

definition pmem_request_frame :: "pstate \<Rightarrow> pstate \<times> ptr" where
  "pmem_request_frame s = (if free_frames (pm s) = 0 then (s, 0) else request_loop 0 s)"

section \<open>Initialisation\<close>

text \<open>\<open>md\<close> is the pointer \<^verbatim>\<open>kernel.memory\<close>; the result is \<open>(size, mem_seg)\<close>.\<close>

definition get_largest_free_mem_seg :: "ptr \<Rightarrow> mem \<Rightarrow> ptr \<Rightarrow> u64 \<times> ptr" where
  "get_largest_free_mem_seg md m mem_seg0 =
     for_bound 0 (\<lambda>_. entries (memory_data m md))
       (\<lambda>i (size, mem_seg).
          let desc = efi_desc m (get_memory_descriptor md i m) in
          if efi_type desc = efi_code EFI_CONVENTIONAL_MEMORY then
            let seg_sz = number_of_pages desc * PAGE_SZ in
            if seg_sz > size then (seg_sz, physical_addr desc) else (size, mem_seg)
          else (size, mem_seg))
       (0, mem_seg0)"

text \<open>Zero one entry of the array and mark the frame free.\<close>

definition init_zero :: "u64 \<Rightarrow> pstate \<Rightarrow> pstate" where
  "init_zero i s = PhysicalMemory__set_frame_state i FREE_FRAME
     (s\<lparr>ram := memset (frame_ptr s i) 0 PageFrame_sz (ram s)\<rparr>)"

text \<open>The body of the loop over the pages of a region: \<open>desc\<close> is the descriptor's address.\<close>

definition init_page :: "ptr \<Rightarrow> u64 \<Rightarrow> u64 \<Rightarrow> pstate \<times> u64 \<Rightarrow> pstate \<times> u64" where
  "init_page desc bs_addr n st =
     (let (s, frame_id) = st;
          s1 = s\<lparr>ram := store64 (frame_ptr s frame_id) (bs_addr + n * FRAME_SZ) (ram s)\<rparr>;
          t = efi_type (efi_desc (ram s1) desc);
          s2 = (if t \<noteq> efi_code EFI_CONVENTIONAL_MEMORY \<and> t \<noteq> efi_code EFI_BOOT_SERVICES_CODE
                   \<and> t \<noteq> efi_code EFI_BOOT_SERVICES_DATA
                then PhysicalMemory__reserve_frame frame_id s1 else s1)
      in (s2, frame_id + 1))"

text \<open>The body of the loop over the regions; the loop state is
  \<open>(s, frame_id, array_frame_id)\<close>.\<close>

definition init_region ::
  "ptr \<Rightarrow> ptr \<Rightarrow> u64 \<Rightarrow> pstate \<times> u64 \<times> u64 \<Rightarrow> pstate \<times> u64 \<times> u64" where
  "init_region md buf i st =
     (let (s, frame_id, array_frame_id) = st;
          desc = get_memory_descriptor md i (ram s);
          bs_addr = physical_addr (efi_desc (ram s) desc);
          array_frame_id' = (if bs_addr = buf then frame_id else array_frame_id);
          (s', frame_id') =
            for_bound 0 (\<lambda>(s, _). number_of_pages (efi_desc (ram s) desc))
              (init_page desc bs_addr) (s, frame_id)
      in (s', frame_id', array_frame_id'))"

definition PhysicalMemory__init :: "ptr \<Rightarrow> ptr \<Rightarrow> ptr \<Rightarrow> pstate \<Rightarrow> pstate option" where
  "PhysicalMemory__init md stack buf s =
     (if initialized (pm s) then Some s
      else case get_number_of_page_frames md (ram s) of
        None \<Rightarrow> None
      | Some n \<Rightarrow>
          (let s1 = s\<lparr>pm := (pm s)\<lparr>frame_array := buf, frames := n, free_frames := n,
                                    locked_frames := 0, reserved_frames := 0\<rparr>\<rparr>;
               s2 = for_bound 0 (\<lambda>s. frames (pm s)) init_zero s1;
               (s3, frame_id, array_frame_id) =
                 for_bound 0 (\<lambda>(s, _, _). entries (memory_data (ram s) md))
                   (init_region md buf) (s2, 0, 0);
               s4 = PhysicalMemory__reserve_frame
                      (PhysicalMemory__get_frame_index_by_ptr stack s3) s3;
               s5 = for_bound 0 (\<lambda>s. PhysicalMemory__get_frames_array_sz s div FRAME_SZ)
                      (\<lambda>i. PhysicalMemory__lock_frame (array_frame_id + i)) s4
           in Some (s5\<lparr>pm := (pm s5)\<lparr>initialized := True\<rparr>\<rparr>)))"

definition init_physical_memory :: "ptr \<Rightarrow> ptr \<Rightarrow> pstate \<Rightarrow> pstate option" where
  "init_physical_memory md stack s =
     (let (size, seg) = get_largest_free_mem_seg md (ram s) 0
      in PhysicalMemory__init md stack seg s)"

section \<open>The array as a list\<close>

definition n_frames :: "pstate \<Rightarrow> nat" where
  "n_frames s = unat (frames (pm s))"

definition frame_addr :: "pstate \<Rightarrow> nat \<Rightarrow> ptr" where
  "frame_addr s i = load64 (ram s) (off_ptr (frame_array (pm s)) (16 * i))"

definition frame_st :: "pstate \<Rightarrow> nat \<Rightarrow> u8" where
  "frame_st s i = load8 (ram s) (off_ptr (frame_array (pm s)) (16 * i + 8))"

definition frame_sts :: "pstate \<Rightarrow> u8 list" where
  "frame_sts s = map (frame_st s) [0..<n_frames s]"

text \<open>The bytes the array occupies, and the condition that it fits the address space.\<close>

definition array_region :: "pstate \<Rightarrow> ptr set" where
  "array_region s = region (frame_array (pm s)) (16 * n_frames s)"

definition array_fits :: "pstate \<Rightarrow> bool" where
  "array_fits s \<longleftrightarrow> 16 * n_frames s \<le> 2 ^ 64"

lemma frame_ptr_nat:
  "frame_ptr s (word_of_nat i) = off_ptr (frame_array (pm s)) (16 * i)"
  by (simp add: frame_ptr_def off_ptr_def mult.commute)

lemma frame_ptr_state_nat:
  "frame_ptr s (word_of_nat i) + 8 = off_ptr (frame_array (pm s)) (16 * i + 8)"
  by (simp add: frame_ptr_def off_ptr_def mult.commute)

lemma frame_addr_at_nat: "frame_addr_at s (word_of_nat i) = frame_addr s i"
  by (simp add: frame_addr_at_def frame_addr_def frame_ptr_nat)

lemma get_frame_state_nat: "PhysicalMemory__get_frame_state (word_of_nat i) s = frame_st s i"
  unfolding PhysicalMemory__get_frame_state_def frame_st_def frame_ptr_state_nat ..

lemma length_frame_sts [simp]: "length (frame_sts s) = n_frames s"
  by (simp add: frame_sts_def)

lemma nth_frame_sts [simp]: "i < n_frames s \<Longrightarrow> frame_sts s ! i = frame_st s i"
  by (simp add: frame_sts_def)

text \<open>Which bytes of the array belong to entry \<open>i\<close>.\<close>

lemma entry_region:
  assumes "array_fits s" "i < n_frames s" "c + k \<le> 16"
  shows "x \<in> region (off_ptr (frame_array (pm s)) (16 * i + c)) k \<longleftrightarrow>
    16 * i + c \<le> unat (x - frame_array (pm s)) \<and> unat (x - frame_array (pm s)) < 16 * i + c + k"
proof (cases "k = 0")
  case False
  then show ?thesis
    using assms by (intro region_shift) (simp_all add: array_fits_def)
qed simp

lemma entry_in_array:
  assumes "array_fits s" "i < n_frames s" "c + k \<le> 16"
  shows "region (off_ptr (frame_array (pm s)) (16 * i + c)) k \<subseteq> array_region s"
proof
  fix x assume "x \<in> region (off_ptr (frame_array (pm s)) (16 * i + c)) k"
  then have "unat (x - frame_array (pm s)) < 16 * i + c + k"
    by (simp only: entry_region [OF assms])
  with assms(2,3) show "x \<in> array_region s" by (simp add: array_region_def region_iff)
qed

lemma entry_disjoint:
  assumes "array_fits s" "i < n_frames s" "j < n_frames s" "c + k \<le> 16" "d + l \<le> 16"
    and "i \<noteq> j \<or> c + k \<le> d \<or> d + l \<le> c"
  shows "region (off_ptr (frame_array (pm s)) (16 * i + c)) k
    \<inter> region (off_ptr (frame_array (pm s)) (16 * j + d)) l = {}"
proof -
  have "False" if "16 * i + c \<le> u" "u < 16 * i + c + k" "16 * j + d \<le> u" "u < 16 * j + d + l" for u
  proof (cases "i = j")
    case True
    with that assms(6) show False by linarith
  next
    case False
    then have "i < j \<or> j < i" by linarith
    with that assms(4,5) show False by linarith
  qed
  then show ?thesis
    unfolding disjoint_iff
      entry_region [OF assms(1,2,4)] entry_region [OF assms(1,3,5)] by blast
qed

text \<open>A write outside the array leaves the view of it unchanged.\<close>

lemma frames_cong:
  assumes "pm s' = pm s" "array_fits s"
    and "\<And>x. x \<in> array_region s \<Longrightarrow> ram s' x = ram s x"
  shows "i < n_frames s \<Longrightarrow> frame_addr s' i = frame_addr s i"
    and "i < n_frames s \<Longrightarrow> frame_st s' i = frame_st s i"
    and "frame_sts s' = frame_sts s"
proof -
  have n: "n_frames s' = n_frames s" using assms(1) by (simp add: n_frames_def)
  show A: "frame_addr s' i = frame_addr s i" if "i < n_frames s" for i
    unfolding frame_addr_def assms(1)
    by (rule load64_cong) (use entry_in_array [OF assms(2) that, of 0 8] assms(3) in auto)
  show S: "frame_st s' i = frame_st s i" if "i < n_frames s" for i
    unfolding frame_st_def assms(1)
    by (rule load8_cong, rule assms(3), rule region_subset_start [OF entry_in_array [OF assms(2) that, of 8 1]])
      simp_all
  then show "frame_sts s' = frame_sts s" by (simp add: frame_sts_def n)
qed

section \<open>Setting the state of one frame\<close>

lemma set_frame_state_pm [simp]: "pm (PhysicalMemory__set_frame_state i v s) = pm s"
  by (simp add: PhysicalMemory__set_frame_state_def)

lemma set_frame_state_simps [frame_simps]:
  assumes "array_fits s" "i < n_frames s"
  shows "j < n_frames s \<Longrightarrow> frame_st (PhysicalMemory__set_frame_state (word_of_nat i) v s) j
      = (if j = i then v else frame_st s j)"
    and "j < n_frames s \<Longrightarrow> frame_addr (PhysicalMemory__set_frame_state (word_of_nat i) v s) j
      = frame_addr s j"
    and "x \<notin> array_region s \<Longrightarrow>
      ram (PhysicalMemory__set_frame_state (word_of_nat i) v s) x = ram s x"
proof -
  let ?s = "PhysicalMemory__set_frame_state (word_of_nat i) v s"
  let ?a = "off_ptr (frame_array (pm s)) (16 * i + 8)"
  have ram: "ram ?s = store8 ?a v (ram s)"
    unfolding PhysicalMemory__set_frame_state_def frame_ptr_state_nat by simp
  show "frame_st ?s j = (if j = i then v else frame_st s j)" if "j < n_frames s"
  proof (cases "j = i")
    case True
    then show ?thesis
      unfolding frame_st_def ram set_frame_state_pm by simp
  next
    case False
    then have "region (off_ptr (frame_array (pm s)) (16 * j + 8)) 1 \<inter> region ?a 1 = {}"
      using that assms by (intro entry_disjoint) simp_all
    then have "off_ptr (frame_array (pm s)) (16 * j + 8) \<noteq> ?a"
      by (metis Int_absorb region_eq_empty zero_neq_one)
    with False show ?thesis
      unfolding frame_st_def ram set_frame_state_pm by simp
  qed
  show "frame_addr ?s j = frame_addr s j" if "j < n_frames s"
  proof -
    have "region (off_ptr (frame_array (pm s)) (16 * j + 0)) 8 \<inter> region ?a 1 = {}"
      using that assms by (intro entry_disjoint) simp_all
    then have "?a \<notin> region (off_ptr (frame_array (pm s)) (16 * j)) 8"
      by (metis Int_iff add_0_right empty_iff region_start zero_less_one)
    then show ?thesis
      unfolding frame_addr_def ram set_frame_state_pm by (rule load64_store8_disjoint)
  qed
  show "ram ?s x = ram s x" if "x \<notin> array_region s"
  proof -
    have "?a \<in> array_region s"
      by (rule region_subset_start [OF entry_in_array [OF assms, of 8 1]]) simp_all
    with that show ?thesis unfolding ram by (auto simp: store8_apply)
  qed
qed

lemma set_frame_state_sts [frame_simps]:
  assumes "array_fits s" "i < n_frames s"
  shows "frame_sts (PhysicalMemory__set_frame_state (word_of_nat i) v s) = (frame_sts s)[i := v]"
proof (rule nth_equalityI)
  show "length (frame_sts (PhysicalMemory__set_frame_state (word_of_nat i) v s))
      = length ((frame_sts s)[i := v])"
    by (simp add: n_frames_def)
  fix j assume "j < length (frame_sts (PhysicalMemory__set_frame_state (word_of_nat i) v s))"
  then have "j < n_frames s" by (simp add: n_frames_def)
  moreover have "n_frames (PhysicalMemory__set_frame_state (word_of_nat i) v s) = n_frames s"
    by (simp add: n_frames_def)
  ultimately show "frame_sts (PhysicalMemory__set_frame_state (word_of_nat i) v s) ! j
      = (frame_sts s)[i := v] ! j"
    using set_frame_state_simps(1) [OF assms] by (simp add: nth_list_update)
qed

section \<open>The invariant of the allocator\<close>

text \<open>
  Every frame is free, locked or reserved, and each counter counts the frames in its state.
\<close>

definition pm_inv :: "pstate \<Rightarrow> bool" where
  "pm_inv s \<longleftrightarrow> array_fits s
     \<and> set (frame_sts s) \<subseteq> {FREE_FRAME, LOCKED_FRAME, RESERVED_FRAME}
     \<and> unat (free_frames (pm s)) = count_list (frame_sts s) FREE_FRAME
     \<and> unat (locked_frames (pm s)) = count_list (frame_sts s) LOCKED_FRAME
     \<and> unat (reserved_frames (pm s)) = count_list (frame_sts s) RESERVED_FRAME"

lemma pm_inv_fits [simp]: "pm_inv s \<Longrightarrow> array_fits s"
  by (simp add: pm_inv_def)

text \<open>The three counters add up to the number of frames.\<close>

lemma count_list_states:
  assumes "set xs \<subseteq> {FREE_FRAME, LOCKED_FRAME, RESERVED_FRAME}"
  shows "count_list xs FREE_FRAME + count_list xs LOCKED_FRAME + count_list xs RESERVED_FRAME
    = length xs"
  using assms by (induction xs) auto

section \<open>The four state operations have one contract\<close>

text \<open>
  Each of \<^verbatim>\<open>PhysicalMemory__lock_frame\<close>, \<^verbatim>\<open>__free_frame\<close>, \<^verbatim>\<open>__reserve_frame\<close> and
  \<^verbatim>\<open>__unreserve_frame\<close> moves a frame from one state to another, does nothing to a frame in a
  different state, keeps the addresses and all memory outside the array, and keeps the
  invariant. \<open>a\<close> is the state it leaves and \<open>b\<close> the state it enters.
\<close>

locale frame_op =
  fixes op :: "u64 \<Rightarrow> pstate \<Rightarrow> pstate"
    and a :: u8
    and b :: u8
  assumes op_sts: "array_fits s \<Longrightarrow> i < n_frames s \<Longrightarrow> frame_sts (op (word_of_nat i) s)
      = (if frame_st s i = a then (frame_sts s)[i := b] else frame_sts s)"
    and op_addr: "array_fits s \<Longrightarrow> i < n_frames s \<Longrightarrow> j < n_frames s
      \<Longrightarrow> frame_addr (op (word_of_nat i) s) j = frame_addr s j"
    and op_outside: "array_fits s \<Longrightarrow> i < n_frames s \<Longrightarrow> x \<notin> array_region s
      \<Longrightarrow> ram (op (word_of_nat i) s) x = ram s x"
    and op_frames: "frames (pm (op k s)) = frames (pm s)"
    and op_array: "frame_array (pm (op k s)) = frame_array (pm s)"
    and op_initialized: "initialized (pm (op k s)) = initialized (pm s)"
    and op_inv: "pm_inv s \<Longrightarrow> i < n_frames s \<Longrightarrow> pm_inv (op (word_of_nat i) s)"
    and op_moves: "a \<noteq> b"
begin

lemma op_n_frames [simp]: "n_frames (op k s) = n_frames s"
  by (simp add: n_frames_def op_frames)

lemma op_array_region [simp]: "array_region (op k s) = array_region s"
  by (simp add: array_region_def op_array)

lemma op_fits [simp]: "array_fits (op k s) = array_fits s"
  by (simp add: array_fits_def)

lemma op_st:
  assumes "array_fits s" "i < n_frames s" "j < n_frames s"
  shows "frame_st (op (word_of_nat i) s) j
    = (if j = i \<and> frame_st s i = a then b else frame_st s j)"
proof -
  have "frame_st (op (word_of_nat i) s) j = frame_sts (op (word_of_nat i) s) ! j"
    using assms(3) by simp
  also have "\<dots> = (if j = i \<and> frame_st s i = a then b else frame_st s j)"
    using assms by (auto simp: op_sts nth_list_update)
  finally show ?thesis .
qed

lemma op_idem_sts:
  assumes "array_fits s" "i < n_frames s"
  shows "frame_sts (op (word_of_nat i) (op (word_of_nat i) s)) = frame_sts (op (word_of_nat i) s)"
  using assms op_moves by (simp add: op_sts op_st)

text \<open>A run of the operation over a range of frames, as the initialisation does it.\<close>

lemma run_facts:
  assumes "array_fits s" "lo + k \<le> n_frames s"
  shows "frames (pm (fold (\<lambda>i. op (word_of_nat (lo + i))) [0..<k] s)) = frames (pm s)
    \<and> frame_array (pm (fold (\<lambda>i. op (word_of_nat (lo + i))) [0..<k] s)) = frame_array (pm s)
    \<and> (\<forall>j < n_frames s. frame_addr (fold (\<lambda>i. op (word_of_nat (lo + i))) [0..<k] s) j
          = frame_addr s j)
    \<and> (\<forall>j < n_frames s. frame_st (fold (\<lambda>i. op (word_of_nat (lo + i))) [0..<k] s) j
          = (if lo \<le> j \<and> j < lo + k \<and> frame_st s j = a then b else frame_st s j))
    \<and> (\<forall>x. x \<notin> array_region s
          \<longrightarrow> ram (fold (\<lambda>i. op (word_of_nat (lo + i))) [0..<k] s) x = ram s x)
    \<and> (pm_inv s \<longrightarrow> pm_inv (fold (\<lambda>i. op (word_of_nat (lo + i))) [0..<k] s))"
  using assms(2)
proof (induction k)
  case 0
  show ?case by auto
next
  case (Suc k)
  define t where "t = fold (\<lambda>i. op (word_of_nat (lo + i))) [0..<k] s"
  have IH: "frames (pm t) = frames (pm s)" "frame_array (pm t) = frame_array (pm s)"
    "\<And>j. j < n_frames s \<Longrightarrow> frame_addr t j = frame_addr s j"
    "\<And>j. j < n_frames s \<Longrightarrow> frame_st t j
        = (if lo \<le> j \<and> j < lo + k \<and> frame_st s j = a then b else frame_st s j)"
    "\<And>x. x \<notin> array_region s \<Longrightarrow> ram t x = ram s x"
    "pm_inv s \<Longrightarrow> pm_inv t"
    using Suc.IH Suc.prems unfolding t_def [symmetric] by auto
  have t: "n_frames t = n_frames s" "array_region t = array_region s" "array_fits t"
    using IH(1,2) assms(1) by (simp_all add: n_frames_def array_region_def array_fits_def)
  have lo: "lo + k < n_frames t" using Suc.prems t by simp
  have step: "fold (\<lambda>i. op (word_of_nat (lo + i))) [0..<Suc k] s = op (word_of_nat (lo + k)) t"
    by (simp add: t_def)
  have st: "frame_st (op (word_of_nat (lo + k)) t) j
      = (if lo \<le> j \<and> j < lo + Suc k \<and> frame_st s j = a then b else frame_st s j)"
    if "j < n_frames s" for j
  proof (cases "j = lo + k")
    case True
    then show ?thesis using op_st [OF t(3) lo, of j] that by (simp add: t IH(4))
  next
    case False
    then have "j < lo + Suc k \<longleftrightarrow> j < lo + k" by linarith
    with False show ?thesis using op_st [OF t(3) lo, of j] that by (simp add: t IH(4))
  qed
  show ?case
    unfolding step
    using IH t lo op_addr [OF t(3) lo] op_outside [OF t(3) lo] op_inv [of t "lo + k"] st
    by (simp add: op_frames op_array)
qed

end

text \<open>All four are one function of the states and of the change to the counters.\<close>

definition retag ::
  "u8 \<Rightarrow> u8 \<Rightarrow> (PhysicalMemory \<Rightarrow> PhysicalMemory) \<Rightarrow> u64 \<Rightarrow> pstate \<Rightarrow> pstate" where
  "retag a b upd i s =
     (if PhysicalMemory__get_frame_state i s = a
      then PhysicalMemory__set_frame_state i b (s\<lparr>pm := upd (pm s)\<rparr>) else s)"

lemma retag_simps:
  assumes "array_fits s" "i < n_frames s"
    and "frames (upd (pm s)) = frames (pm s)" "frame_array (upd (pm s)) = frame_array (pm s)"
  shows "frame_sts (retag a b upd (word_of_nat i) s)
      = (if frame_st s i = a then (frame_sts s)[i := b] else frame_sts s)"
    and "j < n_frames s \<Longrightarrow> frame_addr (retag a b upd (word_of_nat i) s) j = frame_addr s j"
    and "x \<notin> array_region s \<Longrightarrow> ram (retag a b upd (word_of_nat i) s) x = ram s x"
proof -
  let ?s = "s\<lparr>pm := upd (pm s)\<rparr>"
  have s: "array_fits ?s" "i < n_frames ?s" "n_frames ?s = n_frames s" "frame_sts ?s = frame_sts s"
    "\<And>j. frame_addr ?s j = frame_addr s j" "array_region ?s = array_region s" "ram ?s = ram s"
    using assms by (simp_all add: array_fits_def n_frames_def frame_sts_def frame_st_def
        frame_addr_def array_region_def cong: map_cong)
  show "frame_sts (retag a b upd (word_of_nat i) s)
      = (if frame_st s i = a then (frame_sts s)[i := b] else frame_sts s)"
    using set_frame_state_sts [OF s(1,2)] s by (simp add: retag_def get_frame_state_nat)
  show "frame_addr (retag a b upd (word_of_nat i) s) j = frame_addr s j" if "j < n_frames s"
    using set_frame_state_simps(2) [OF s(1,2)] s that by (simp add: retag_def)
  show "ram (retag a b upd (word_of_nat i) s) x = ram s x" if "x \<notin> array_region s"
    using set_frame_state_simps(3) [OF s(1,2)] s that by (simp add: retag_def)
qed

lemma retag_pm:
  "pm (retag a b upd i s) = (if PhysicalMemory__get_frame_state i s = a then upd (pm s) else pm s)"
  by (simp add: retag_def)

text \<open>A counter that loses, gains or keeps a frame when frame \<open>i\<close> changes state.\<close>

lemma counter_dec:
  fixes x :: u64
  assumes "unat x = count_list xs w" "i < length xs" "xs ! i = w" "v \<noteq> w"
  shows "unat (x - 1) = count_list (xs[i := v]) w"
proof -
  have "x \<noteq> 0" using assms count_list_pos [OF assms(2)] by auto
  then have "Suc (unat (x - 1)) = count_list xs w" using assms(1) by (simp add: Suc_unat_minus_one)
  with count_list_update [OF assms(2), of v w] assms show ?thesis by simp
qed

lemma counter_inc:
  fixes x :: u64
  assumes "unat x = count_list xs v" "i < length xs" "xs ! i \<noteq> v" "length xs < 2 ^ 64"
  shows "unat (x + 1) = count_list (xs[i := v]) v"
proof -
  have eq: "count_list (xs[i := v]) v = Suc (count_list xs v)"
    using count_list_update [OF assms(2), of v v] assms(3) by simp
  have "count_list (xs[i := v]) v \<le> length xs"
    using count_le_length [of "xs[i := v]" v] by simp
  with eq assms(1,4) have "Suc (unat x) < 2 ^ 64" by simp
  then have "unat (x + 1) = Suc (unat x)" by (simp add: unat_word_ariths)
  with eq assms(1) show ?thesis by simp
qed

lemma counter_same:
  assumes "i < length xs" "xs ! i \<noteq> w" "v \<noteq> w"
  shows "count_list (xs[i := v]) w = count_list xs w"
  using count_list_update [OF assms(1), of v w] assms by simp

lemma n_frames_less: "n_frames s < 2 ^ 64"
  unfolding n_frames_def by (rule unat64_less)

lemmas n_frames_less_numeral [simp] = n_frames_less [simplified]

lemma retag_inv:
  assumes "pm_inv s" "i < n_frames s"
    and "\<And>p. frames (upd p) = frames p" "\<And>p. frame_array (upd p) = frame_array p"
    and "b \<in> {FREE_FRAME, LOCKED_FRAME, RESERVED_FRAME}"
    and "frame_st s i = a \<Longrightarrow>
      unat (free_frames (upd (pm s))) = count_list ((frame_sts s)[i := b]) FREE_FRAME
      \<and> unat (locked_frames (upd (pm s))) = count_list ((frame_sts s)[i := b]) LOCKED_FRAME
      \<and> unat (reserved_frames (upd (pm s))) = count_list ((frame_sts s)[i := b]) RESERVED_FRAME"
  shows "pm_inv (retag a b upd (word_of_nat i) s)"
proof (cases "frame_st s i = a")
  case False
  with assms(1) show ?thesis by (simp add: retag_def get_frame_state_nat)
next
  case True
  have fits: "array_fits s" using assms(1) by simp
  have pm: "pm (retag a b upd (word_of_nat i) s) = upd (pm s)"
    using True by (simp add: retag_pm get_frame_state_nat)
  have sts: "frame_sts (retag a b upd (word_of_nat i) s) = (frame_sts s)[i := b]"
    using retag_simps(1) [OF fits assms(2)] assms(3,4) True by simp
  have "set ((frame_sts s)[i := b]) \<subseteq> {FREE_FRAME, LOCKED_FRAME, RESERVED_FRAME}"
    using assms(1,5) set_update_subset_insert [of "frame_sts s" i b] by (auto simp: pm_inv_def)
  moreover have "array_fits (retag a b upd (word_of_nat i) s)"
    using fits by (simp add: array_fits_def n_frames_def pm assms(3))
  ultimately show ?thesis
    using assms(6) [OF True] by (simp add: pm_inv_def pm sts)
qed

lemma lock_retag: "PhysicalMemory__lock_frame = retag FREE_FRAME LOCKED_FRAME
    (\<lambda>p. p\<lparr>free_frames := free_frames p - 1, locked_frames := locked_frames p + 1\<rparr>)"
  by (intro ext) (simp add: PhysicalMemory__lock_frame_def retag_def)

lemma free_retag: "PhysicalMemory__free_frame = retag LOCKED_FRAME FREE_FRAME
    (\<lambda>p. p\<lparr>free_frames := free_frames p + 1, locked_frames := locked_frames p - 1\<rparr>)"
  by (intro ext) (simp add: PhysicalMemory__free_frame_def retag_def)

lemma reserve_retag: "PhysicalMemory__reserve_frame = retag FREE_FRAME RESERVED_FRAME
    (\<lambda>p. p\<lparr>free_frames := free_frames p - 1, reserved_frames := reserved_frames p + 1\<rparr>)"
  by (intro ext) (simp add: PhysicalMemory__reserve_frame_def retag_def)

lemma unreserve_retag: "PhysicalMemory__unreserve_frame = retag RESERVED_FRAME FREE_FRAME
    (\<lambda>p. p\<lparr>free_frames := free_frames p + 1, reserved_frames := reserved_frames p - 1\<rparr>)"
  by (intro ext) (simp add: PhysicalMemory__unreserve_frame_def retag_def)

lemmas retag_defs = lock_retag free_retag reserve_retag unreserve_retag

text \<open>The counters of the invariant, in the form the rules above take.\<close>

lemma pm_inv_counters:
  assumes "pm_inv s"
  shows "unat (free_frames (pm s)) = count_list (frame_sts s) FREE_FRAME"
    "unat (locked_frames (pm s)) = count_list (frame_sts s) LOCKED_FRAME"
    "unat (reserved_frames (pm s)) = count_list (frame_sts s) RESERVED_FRAME"
    "length (frame_sts s) < 2 ^ 64"
  using assms n_frames_less [of s] by (simp_all add: pm_inv_def)

text \<open>A retagging whose change to the counters follows the states keeps the contract.\<close>

lemma retag_frame_op:
  assumes "a \<noteq> b" "b \<in> {FREE_FRAME, LOCKED_FRAME, RESERVED_FRAME}"
    and "\<And>p. frames (upd p) = frames p" "\<And>p. frame_array (upd p) = frame_array p"
    and "\<And>p. initialized (upd p) = initialized p"
    and "\<And>s i. pm_inv s \<Longrightarrow> i < length (frame_sts s) \<Longrightarrow> frame_sts s ! i = a \<Longrightarrow>
      unat (free_frames (upd (pm s))) = count_list ((frame_sts s)[i := b]) FREE_FRAME
      \<and> unat (locked_frames (upd (pm s))) = count_list ((frame_sts s)[i := b]) LOCKED_FRAME
      \<and> unat (reserved_frames (upd (pm s))) = count_list ((frame_sts s)[i := b]) RESERVED_FRAME"
  shows "frame_op (retag a b upd) a b"
proof (unfold_locales, goal_cases)
  case (7 s i)
  then show ?case using assms by (intro retag_inv) auto
qed (use assms in \<open>auto simp: retag_simps retag_pm\<close>)

lemmas counter_rules = counter_dec counter_inc counter_same pm_inv_counters

interpretation lock: frame_op PhysicalMemory__lock_frame FREE_FRAME LOCKED_FRAME
  unfolding lock_retag by (rule retag_frame_op) (simp_all add: counter_rules)

interpretation free: frame_op PhysicalMemory__free_frame LOCKED_FRAME FREE_FRAME
  unfolding free_retag by (rule retag_frame_op) (simp_all add: counter_rules)

interpretation reserve: frame_op PhysicalMemory__reserve_frame FREE_FRAME RESERVED_FRAME
  unfolding reserve_retag by (rule retag_frame_op) (simp_all add: counter_rules)

interpretation unreserve: frame_op PhysicalMemory__unreserve_frame RESERVED_FRAME FREE_FRAME
  unfolding unreserve_retag by (rule retag_frame_op) (simp_all add: counter_rules)

section \<open>Requesting a frame\<close>

text \<open>The loop finds the first free frame at or after its counter.\<close>

lemma request_loop_first:
  assumes "array_fits s" "k \<le> i" "i < n_frames s" "frame_st s i = FREE_FRAME"
    and "\<And>j. k \<le> j \<Longrightarrow> j < i \<Longrightarrow> frame_st s j \<noteq> FREE_FRAME"
  shows "request_loop (word_of_nat k) s =
    (PhysicalMemory__lock_frame (word_of_nat i) s, frame_addr s i)"
  using assms(2,5)
proof (induction "i - k" arbitrary: k)
  case 0
  then have k: "k = i" by simp
  have "word_of_nat i < frames (pm s)"
    using assms(3) n_frames_less [of s]
    by (simp add: word_less_nat_alt unat_of_nat_small n_frames_def)
  with k show ?case
    using lock.op_addr [OF assms(1,3,3)] assms(4)
    by (simp add: request_loop.simps [of "word_of_nat i"] get_frame_state_nat frame_addr_at_nat)
next
  case (Suc d)
  then have k: "k < i" by simp
  have "word_of_nat k < frames (pm s)"
    using assms(3) k n_frames_less [of s]
    by (simp add: word_less_nat_alt unat_of_nat_small n_frames_def)
  moreover have "request_loop (word_of_nat (Suc k)) s =
      (PhysicalMemory__lock_frame (word_of_nat i) s, frame_addr s i)"
    using Suc.hyps(1) [of "Suc k"] Suc.hyps(2) Suc.prems by simp
  ultimately show ?case
    using Suc.prems(2) [of k] k
    by (simp add: request_loop.simps [of "word_of_nat k"] get_frame_state_nat add.commute)
qed

lemma no_free_frames:
  assumes "pm_inv s"
  shows "free_frames (pm s) = 0 \<longleftrightarrow> first_index (\<lambda>x. x = FREE_FRAME) (frame_sts s) = None"
proof -
  have "free_frames (pm s) = 0 \<longleftrightarrow> count_list (frame_sts s) FREE_FRAME = 0"
    using pm_inv_counters(1) [OF assms] by (simp add: unat_eq_zero [symmetric])
  then show ?thesis by (auto simp: count_list_0_iff first_index_None)
qed

text \<open>
  The request refines the choice of the first free element of the state list: it locks that
  frame and returns its address, or returns \<open>NULL\<close> and changes nothing.
\<close>

lemma pmem_request_frame_cases:
  assumes "pm_inv s"
  shows "pmem_request_frame s =
    (case first_index (\<lambda>x. x = FREE_FRAME) (frame_sts s) of
       None \<Rightarrow> (s, 0)
     | Some i \<Rightarrow> (PhysicalMemory__lock_frame (word_of_nat i) s, frame_addr s i))"
proof (cases "first_index (\<lambda>x. x = FREE_FRAME) (frame_sts s)")
  case None
  with no_free_frames [OF assms] show ?thesis by (simp add: pmem_request_frame_def)
next
  case (Some i)
  then have i: "i < n_frames s" "frame_st s i = FREE_FRAME"
    "\<And>j. j < i \<Longrightarrow> frame_st s j \<noteq> FREE_FRAME"
    by (auto simp: first_index_Some)
  have "request_loop (word_of_nat 0) s
      = (PhysicalMemory__lock_frame (word_of_nat i) s, frame_addr s i)"
    using assms i by (intro request_loop_first) simp_all
  moreover have "free_frames (pm s) \<noteq> 0" using no_free_frames [OF assms] Some by simp
  ultimately show ?thesis using Some by (simp add: pmem_request_frame_def)
qed

section \<open>Finding the frame of an address\<close>

text \<open>\<open>ptr\<close> lies in the frame that starts at \<open>p\<close>, in the comparison the code makes.\<close>

definition frame_holds :: "ptr \<Rightarrow> ptr \<Rightarrow> bool" where
  "frame_holds ptr p \<longleftrightarrow> p \<le> ptr \<and> p + PAGE_SZ > ptr"

lemma frame_index_loop_first:
  assumes "k \<le> n_frames s"
  shows "frame_index_loop ptr (word_of_nat k) s =
    (case first_index (frame_holds ptr) (map (frame_addr s) [k..<n_frames s]) of
       None \<Rightarrow> -1 | Some i \<Rightarrow> word_of_nat (k + i))"
  using assms
proof (induction "n_frames s - k" arbitrary: k)
  case 0
  have "\<not> word_of_nat k < frames (pm s)"
    using 0 n_frames_less [of s]
    by (simp add: word_less_nat_alt unat_of_nat_small n_frames_def)
  with 0 show ?case by (simp add: frame_index_loop.simps)
next
  case (Suc d)
  then have k: "k < n_frames s" by simp
  have "word_of_nat k < frames (pm s)"
    using k n_frames_less [of s]
    by (simp add: word_less_nat_alt unat_of_nat_small n_frames_def)
  moreover have "frame_index_loop ptr (word_of_nat (Suc k)) s =
      (case first_index (frame_holds ptr) (map (frame_addr s) [Suc k..<n_frames s]) of
         None \<Rightarrow> -1 | Some i \<Rightarrow> word_of_nat (Suc k + i))"
    using Suc.hyps(1) [of "Suc k"] Suc.hyps(2) k by simp
  ultimately show ?case
    using k by (simp add: frame_index_loop.simps [of ptr "word_of_nat k"] upt_conv_Cons
        frame_addr_at_nat frame_holds_def Let_def add.commute add.left_commute
        split: option.splits)
qed

lemma frame_index_by_ptr:
  "PhysicalMemory__get_frame_index_by_ptr ptr s =
    (case first_index (frame_holds ptr) (map (frame_addr s) [0..<n_frames s]) of
       None \<Rightarrow> -1 | Some i \<Rightarrow> word_of_nat i)"
  using frame_index_loop_first [of 0 s ptr]
  by (simp add: PhysicalMemory__get_frame_index_by_ptr_def split: option.splits)

section \<open>A small machine\<close>

text \<open>Four free frames from \<open>0x2000\<close> on, their array at \<open>0x1000\<close>, a zeroed PML4 at \<open>0x8000\<close>.\<close>

definition small_machine :: pstate where
  "small_machine = \<lparr>ram = (\<lambda>_. 0)(0x1001 := 0x20, 0x1011 := 0x30, 0x1021 := 0x40, 0x1031 := 0x50),
     pm = \<lparr>free_frames = 4, reserved_frames = 0, locked_frames = 0, frames = 4,
       frame_array = 0x1000, initialized = True\<rparr>\<rparr>"

lemma small_frames:
  "map (frame_addr small_machine) [0..<4] = [0x2000, 0x3000, 0x4000, 0x5000]"
  "map (frame_st small_machine) [0..<4] = [0, 0, 0, 0]"
  "frame_sts small_machine = [0, 0, 0, 0]"
  by code_simp+

lemma small_n [simp]: "n_frames small_machine = 4"
  by (simp add: n_frames_def small_machine_def)

lemma small_frame:
  assumes "i < 4"
  shows "frame_addr small_machine i = 0x2000 + word_of_nat i * 0x1000" "frame_st small_machine i = 0"
proof -
  from assms have "i = 0 \<or> i = 1 \<or> i = 2 \<or> i = 3" by linarith
  then show "frame_addr small_machine i = 0x2000 + word_of_nat i * 0x1000" "frame_st small_machine i = 0"
    using small_frames(1,2) by (auto simp: upt_rec numeral_2_eq_2 numeral_3_eq_3)
qed

lemma small_array: "array_region small_machine = region 0x1000 64"
  unfolding array_region_def small_n by (simp add: small_machine_def)

lemma small_inv: "pm_inv small_machine"
  by (simp add: pm_inv_def small_frames array_fits_def) (simp add: small_machine_def)

end
