(* ===== verification/Pmem_Init.thy ===== *)
theory Pmem_Init
  imports Pmem
begin

text \<open>
  What \<^verbatim>\<open>PhysicalMemory__init\<close> of \<^verbatim>\<open>src/src/memory/pmem.c\<close> establishes: the array lists the
  frames of the memory map in order, each with the state its region and the kernel's own use
  of it call for, and the counters agree with the states.
\<close>

unbundle bit_operations_syntax

section \<open>The frames of a memory map\<close>

definition kernel_may_use :: "u32 \<Rightarrow> bool" where
  "kernel_may_use t \<longleftrightarrow> t = efi_code EFI_CONVENTIONAL_MEMORY \<or> t = efi_code EFI_BOOT_SERVICES_CODE
     \<or> t = efi_code EFI_BOOT_SERVICES_DATA"

definition region_frames :: "EfiMemoryDescriptor \<Rightarrow> (ptr \<times> u8) list" where
  "region_frames d = map (\<lambda>k. (physical_addr d + word_of_nat k * FRAME_SZ,
      if kernel_may_use (efi_type d) then FREE_FRAME else RESERVED_FRAME))
     [0..<unat (number_of_pages d)]"

definition map_frames :: "EfiMemoryDescriptor list \<Rightarrow> (ptr \<times> u8) list" where
  "map_frames ds = concat (map region_frames ds)"

text \<open>The number of the first frame of the last region that starts at \<open>buf\<close> (0 if none does).\<close>

fun array_start :: "ptr \<Rightarrow> nat \<Rightarrow> nat \<Rightarrow> EfiMemoryDescriptor list \<Rightarrow> nat" where
  "array_start buf k acc [] = acc"
| "array_start buf k acc (d # ds) =
     array_start buf (k + unat (number_of_pages d)) (if physical_addr d = buf then k else acc) ds"

lemma length_region_frames [simp]: "length (region_frames d) = unat (number_of_pages d)"
  by (simp add: region_frames_def)

lemma length_map_frames: "length (map_frames ds) = total_pages ds"
  by (induction ds) (simp_all add: map_frames_def total_pages_def)

lemma map_frames_append [simp]: "map_frames (ds @ es) = map_frames ds @ map_frames es"
  by (simp add: map_frames_def)

lemma map_frames_single [simp]: "map_frames [d] = region_frames d"
  by (simp add: map_frames_def)

lemma total_pages_append [simp]: "total_pages (ds @ es) = total_pages ds + total_pages es"
  by (simp add: total_pages_def)

lemma total_pages_single [simp]: "total_pages [d] = unat (number_of_pages d)"
  by (simp add: total_pages_def)

lemma total_pages_take: "total_pages (take i ds) \<le> total_pages ds"
  by (metis append_take_drop_id le_add1 total_pages_append)

lemma array_start_snoc:
  "array_start buf k acc (ds @ [d]) =
     (if physical_addr d = buf then k + total_pages ds else array_start buf k acc ds)"
  by (induction ds arbitrary: k acc) (simp_all add: total_pages_def)

section \<open>The first loop: zero the array\<close>

lemma init_zero_pm [simp]: "pm (init_zero i s) = pm s"
  by (simp add: init_zero_def)

lemma init_zero_simps:
  assumes "array_fits s" "k < n_frames s"
  shows "j < n_frames s \<Longrightarrow> frame_st (init_zero (word_of_nat k) s) j
      = (if j = k then FREE_FRAME else frame_st s j)"
    and "x \<notin> array_region s \<Longrightarrow> ram (init_zero (word_of_nat k) s) x = ram s x"
proof -
  define a where "a = off_ptr (frame_array (pm s)) (16 * k + 0)"
  let ?t = "s\<lparr>ram := memset a 0 PageFrame_sz (ram s)\<rparr>"
  have eq: "init_zero (word_of_nat k) s
      = PhysicalMemory__set_frame_state (word_of_nat k) FREE_FRAME ?t"
    by (simp add: init_zero_def frame_ptr_nat a_def)
  have t: "array_fits ?t" "n_frames ?t = n_frames s" "array_region ?t = array_region s"
    using assms by (simp_all add: array_fits_def n_frames_def array_region_def)
  then have k: "k < n_frames ?t" using assms by simp
  have out: "memset a 0 PageFrame_sz (ram s) x = ram s x" if "x \<notin> region a 16" for x
    using that by (simp add: memset_apply)
  have sub: "region a 16 \<subseteq> array_region s"
    unfolding a_def by (rule entry_in_array [OF assms]) simp
  show "frame_st (init_zero (word_of_nat k) s) j = (if j = k then FREE_FRAME else frame_st s j)"
    if "j < n_frames s"
  proof -
    have "frame_st ?t j = frame_st s j" if "j \<noteq> k"
    proof -
      have "region (off_ptr (frame_array (pm s)) (16 * j + 8)) 1 \<inter> region a 16 = {}"
        using that \<open>j < n_frames s\<close> assms unfolding a_def by (intro entry_disjoint) simp_all
      then have "off_ptr (frame_array (pm s)) (16 * j + 8) \<notin> region a 16"
        by (metis disjoint_iff region_start zero_less_one)
      then show ?thesis by (simp add: frame_st_def load8_def out)
    qed
    then show ?thesis
      unfolding eq using set_frame_state_simps(1) [OF t(1) k] that t by simp
  qed
  show "ram (init_zero (word_of_nat k) s) x = ram s x" if "x \<notin> array_region s"
  proof -
    have "x \<notin> region a 16" using that sub by auto
    then show ?thesis
      unfolding eq using set_frame_state_simps(3) [OF t(1) k] that t out by simp
  qed
qed

text \<open>After the loop every frame is free and the invariant holds.\<close>

lemma zero_loop:
  assumes "array_fits s" "free_frames (pm s) = frames (pm s)"
    "locked_frames (pm s) = 0" "reserved_frames (pm s) = 0"
  defines "t \<equiv> for_bound 0 (\<lambda>s. frames (pm s)) init_zero s"
  shows "pm t = pm s" "pm_inv t"
    and "j < n_frames s \<Longrightarrow> frame_st t j = FREE_FRAME"
    and "x \<notin> array_region s \<Longrightarrow> ram t x = ram s x"
proof -
  let ?P = "\<lambda>k t. pm t = pm s \<and> (\<forall>j < n_frames s. j < k \<longrightarrow> frame_st t j = FREE_FRAME)
     \<and> (\<forall>x. x \<notin> array_region s \<longrightarrow> ram t x = ram s x)"
  have "?P (unat (frames (pm s))) t"
    unfolding t_def
  proof (rule for_bound_invariant)
    show "?P 0 s" by simp
    show "frames (pm u) = frames (pm s)" if "?P k u" for k u using that by simp
    fix k u
    assume k: "k < unat (frames (pm s))" and P: "?P k u"
    have u: "array_fits u" "k < n_frames u" "n_frames u = n_frames s"
      "array_region u = array_region s"
      using P k assms(1) by (simp_all add: array_fits_def n_frames_def array_region_def)
    show "?P (Suc k) (init_zero (word_of_nat k) u)"
      using P init_zero_simps [OF u(1,2)] u(3,4) by (auto simp: less_Suc_eq)
  qed
  then have P: "?P (n_frames s) t" by (simp add: n_frames_def)
  then show "pm t = pm s" "j < n_frames s \<Longrightarrow> frame_st t j = FREE_FRAME"
    "x \<notin> array_region s \<Longrightarrow> ram t x = ram s x" by auto
  have sts: "frame_sts t = replicate (n_frames s) FREE_FRAME"
    using P by (intro nth_equalityI) (auto simp: n_frames_def)
  have "count_list (replicate n (0::u8)) w = (if w = 0 then n else 0)" for n w
    by (induction n) auto
  with P assms(1-4) show "pm_inv t"
    by (auto simp: pm_inv_def sts array_fits_def n_frames_def)
qed

section \<open>The second loop: the regions of the map\<close>

text \<open>
  The state in which the first \<open>length fs\<close> entries of the array hold \<open>fs\<close> and the others are
  still free; \<open>m0\<close> is the memory before the initialisation.
\<close>

definition filled :: "ptr \<Rightarrow> u64 \<Rightarrow> mem \<Rightarrow> (ptr \<times> u8) list \<Rightarrow> pstate \<Rightarrow> bool" where
  "filled buf N m0 fs s \<longleftrightarrow> pm_inv s \<and> frame_array (pm s) = buf \<and> frames (pm s) = N
     \<and> \<not> initialized (pm s) \<and> length fs \<le> n_frames s
     \<and> (\<forall>j < length fs. frame_addr s j = fst (fs ! j) \<and> frame_st s j = snd (fs ! j))
     \<and> (\<forall>j < n_frames s. length fs \<le> j \<longrightarrow> frame_st s j = FREE_FRAME)
     \<and> (\<forall>x. x \<notin> array_region s \<longrightarrow> ram s x = m0 x)"

lemma filled_region:
  "filled buf N m0 fs s \<Longrightarrow> array_region s = region buf (16 * unat N) \<and> n_frames s = unat N"
  by (simp add: filled_def array_region_def n_frames_def)

lemma filled_outside:
  assumes "filled buf N m0 fs s" "R \<inter> region buf (16 * unat N) = {}" "x \<in> R"
  shows "ram s x = m0 x"
proof -
  have "x \<notin> array_region s" using filled_region [OF assms(1)] assms(2,3) by auto
  with assms(1) show ?thesis by (simp add: filled_def)
qed

text \<open>Writing the address of one frame.\<close>

lemma store_frame_addr:
  fixes v :: u64
  assumes "array_fits s" "k < n_frames s"
  defines "t \<equiv> s\<lparr>ram := store64 (frame_ptr s (word_of_nat k)) v (ram s)\<rparr>"
  shows "j < n_frames s \<Longrightarrow> frame_st t j = frame_st s j"
    and "j < n_frames s \<Longrightarrow> frame_addr t j = (if j = k then v else frame_addr s j)"
    and "x \<notin> array_region s \<Longrightarrow> ram t x = ram s x"
proof -
  define a where "a = off_ptr (frame_array (pm s)) (16 * k + 0)"
  have t: "pm t = pm s" "ram t = store64 a v (ram s)"
    by (simp_all add: t_def frame_ptr_nat a_def)
  show "frame_st t j = frame_st s j" if "j < n_frames s"
  proof -
    have "region (off_ptr (frame_array (pm s)) (16 * j + 8)) 1 \<inter> region a 8 = {}"
      using that assms(1,2) unfolding a_def by (intro entry_disjoint) simp_all
    then have "off_ptr (frame_array (pm s)) (16 * j + 8) \<notin> region a 8"
      by (metis disjoint_iff region_start zero_less_one)
    then show ?thesis by (simp add: frame_st_def t load8_store64_disjoint)
  qed
  show "frame_addr t j = (if j = k then v else frame_addr s j)" if "j < n_frames s"
  proof (cases "j = k")
    case True
    then have "a = off_ptr (frame_array (pm s)) (16 * j)" by (simp add: a_def)
    with True show ?thesis unfolding frame_addr_def t by simp
  next
    case False
    then have "region (off_ptr (frame_array (pm s)) (16 * j + 0)) 8 \<inter> region a 8 = {}"
      using that assms(1,2) unfolding a_def by (intro entry_disjoint) simp_all
    then have "region (off_ptr (frame_array (pm s)) (16 * j)) 8 \<inter> region a 8 = {}"
      by (simp only: add_0_right)
    with False show ?thesis unfolding frame_addr_def t
      by (simp add: load64_store64_disjoint)
  qed
  show "ram t x = ram s x" if "x \<notin> array_region s"
  proof -
    have "region a 8 \<subseteq> array_region s"
      unfolding a_def by (rule entry_in_array [OF assms(1,2)]) simp
    with that show ?thesis unfolding t by (intro store64_outside) auto
  qed
qed

lemma init_page_filled:
  assumes f: "filled buf N m0 fs s" and lt: "length fs < unat N"
    and sep: "region desc 40 \<inter> region buf (16 * unat N) = {}"
  obtains s' where "init_page desc bs n (s, word_of_nat (length fs))
      = (s', word_of_nat (Suc (length fs)))"
    and "filled buf N m0 (fs @ [(bs + n * FRAME_SZ,
          if kernel_may_use (efi_type (efi_desc m0 desc)) then FREE_FRAME else RESERVED_FRAME)]) s'"
proof -
  let ?k = "length fs"
  let ?may = "kernel_may_use (efi_type (efi_desc m0 desc))"
  let ?e = "(bs + n * FRAME_SZ, if ?may then FREE_FRAME else RESERVED_FRAME)"
  define s1 where "s1 = s\<lparr>ram := store64 (frame_ptr s (word_of_nat ?k)) (bs + n * FRAME_SZ) (ram s)\<rparr>"
  define s2 where "s2 = (if ?may then s1 else PhysicalMemory__reserve_frame (word_of_nat ?k) s1)"
  have N: "n_frames s = unat N" "array_region s = region buf (16 * unat N)"
    using filled_region [OF f] by simp_all
  have inv: "pm_inv s" and fits: "array_fits s" using f by (simp_all add: filled_def)
  have k: "?k < n_frames s" using lt N by simp
  note st = store_frame_addr [OF fits k, of _ "bs + n * FRAME_SZ", folded s1_def]
  have s1: "pm s1 = pm s" "n_frames s1 = n_frames s" "array_region s1 = array_region s"
    by (simp_all add: s1_def n_frames_def array_region_def)
  have sts: "frame_sts s1 = frame_sts s"
    using st(1) by (simp add: frame_sts_def s1)
  have inv1: "pm_inv s1" using inv by (simp add: pm_inv_def sts s1 array_fits_def)
  have fits1: "array_fits s1" using inv1 by simp
  have k1: "?k < n_frames s1" using k s1 by simp
  have out1: "ram s1 x = m0 x" if "x \<notin> array_region s" for x
    using st(3) [OF that] f that by (simp add: filled_def)
  have "efi_desc (ram s1) desc = efi_desc m0 desc"
    using out1 sep N(2) by (intro efi_desc_cong) auto
  then have eq: "init_page desc bs n (s, word_of_nat ?k) = (s2, word_of_nat (Suc ?k))"
    by (auto simp: init_page_def s2_def s1_def Let_def kernel_may_use_def add.commute)
  have free: "frame_st s1 ?k = FREE_FRAME" using f k st(1) by (simp add: filled_def)
  have s2: "pm_inv s2" "frame_array (pm s2) = buf" "frames (pm s2) = N" "\<not> initialized (pm s2)"
    using f inv1 reserve.op_inv [OF inv1 k1]
    by (simp_all add: s2_def s1 filled_def reserve.op_frames reserve.op_array
        reserve.op_initialized)
  have n2: "n_frames s2 = n_frames s" "array_region s2 = array_region s"
    using s2(2,3) N by (simp_all add: n_frames_def array_region_def)
  have addr: "frame_addr s2 j = (if j = ?k then bs + n * FRAME_SZ else frame_addr s j)"
    if "j < n_frames s" for j
    using that st(2) [OF that] reserve.op_addr [OF fits1 k1, of j] s1
    by (cases "j = ?k") (simp_all add: s2_def)
  have stt: "frame_st s2 j = (if j = ?k then snd ?e else frame_st s j)" if "j < n_frames s" for j
    using that st(1) [OF that] reserve.op_st [OF fits1 k1, of j] s1 free
    by (cases "j = ?k") (simp_all add: s2_def)
  have out: "ram s2 x = m0 x" if "x \<notin> array_region s" for x
    using that out1 [OF that] reserve.op_outside [OF fits1 k1, of x] s1 by (simp add: s2_def)
  have "filled buf N m0 (fs @ [?e]) s2"
    using f s2 n2 addr stt out k
    by (auto simp: filled_def nth_append less_Suc_eq)
  with eq that show thesis by blast
qed

lemma region_frames_take_Suc:
  assumes "n < unat (number_of_pages d)"
  shows "take (Suc n) (region_frames d) = take n (region_frames d)
    @ [(physical_addr d + word_of_nat n * FRAME_SZ,
        if kernel_may_use (efi_type d) then FREE_FRAME else RESERVED_FRAME)]"
  using assms by (simp add: take_Suc_conv_app_nth region_frames_def)

lemma init_region_filled:
  assumes f: "filled buf N m0 fs s"
    and d: "d = efi_desc m0 (get_memory_descriptor md i m0)"
    and room: "length fs + unat (number_of_pages d) \<le> unat N"
    and sep: "region (get_memory_descriptor md i m0) 40 \<inter> region buf (16 * unat N) = {}"
      "region md 32 \<inter> region buf (16 * unat N) = {}"
  obtains s' where "init_region md buf i (s, word_of_nat (length fs), aid)
      = (s', word_of_nat (length (fs @ region_frames d)),
         if physical_addr d = buf then word_of_nat (length fs) else aid)"
    and "filled buf N m0 (fs @ region_frames d) s'"
proof -
  let ?desc = "get_memory_descriptor md i m0"
  have "memory_data (ram s) md = memory_data m0 md"
    using filled_outside [OF f sep(2)] by (intro memory_data_cong) auto
  then have gmd: "get_memory_descriptor md i (ram s) = ?desc"
    by (simp add: get_memory_descriptor_def)
  have ed: "efi_desc (ram u) ?desc = d" if "filled buf N m0 gs u" for gs u
    unfolding d using filled_outside [OF that sep(1)] by (intro efi_desc_cong) auto
  let ?P = "\<lambda>n (u, fid :: u64). filled buf N m0 (fs @ take n (region_frames d)) u
      \<and> fid = word_of_nat (length fs + n)"
  let ?r = "for_bound 0 (\<lambda>(s, _). number_of_pages (efi_desc (ram s) ?desc))
      (init_page ?desc (physical_addr d)) (s, word_of_nat (length fs))"
  have "?P (unat (number_of_pages d)) ?r"
  proof (rule for_bound_invariant)
    show "?P 0 (s, word_of_nat (length fs))" using f by simp
  next
    fix k :: nat and st :: "pstate \<times> u64"
    assume "?P k st"
    then show "(case st of (s, _) \<Rightarrow> number_of_pages (efi_desc (ram s) ?desc)) = number_of_pages d"
      using ed by (cases st) auto
  next
    fix k st
    assume k: "k < unat (number_of_pages d)" and P: "?P k st"
    obtain u fid where st: "st = (u, fid)" by (cases st)
    let ?fs = "fs @ take k (region_frames d)"
    have len: "length ?fs = length fs + k" using k by simp
    have fu: "filled buf N m0 ?fs u" and fid: "fid = word_of_nat (length ?fs)"
      using P st len by auto
    have "length ?fs < unat N" using room k len by simp
    from init_page_filled [OF fu this sep(1), of "physical_addr d" "word_of_nat k"]
    obtain u' where "init_page ?desc (physical_addr d) (word_of_nat k) (u, word_of_nat (length ?fs))
        = (u', word_of_nat (Suc (length ?fs)))"
      and "filled buf N m0 (?fs @ [(physical_addr d + word_of_nat k * FRAME_SZ,
          if kernel_may_use (efi_type (efi_desc m0 ?desc)) then FREE_FRAME else RESERVED_FRAME)]) u'"
      by blast
    then show "?P (Suc k) (init_page ?desc (physical_addr d) (word_of_nat k) st)"
      using region_frames_take_Suc [OF k] len by (simp add: st fid d [symmetric])
  qed
  then obtain s' where r: "?r = (s', word_of_nat (length (fs @ region_frames d)))"
    and f': "filled buf N m0 (fs @ region_frames d) s'"
    by (cases ?r) auto
  have "init_region md buf i (s, word_of_nat (length fs), aid)
      = (s', word_of_nat (length (fs @ region_frames d)),
         if physical_addr d = buf then word_of_nat (length fs) else aid)"
    using r by (simp add: init_region_def gmd ed [OF f] Let_def)
  with f' that show thesis by blast
qed

lemma region_step:
  fixes md m0
  defines "ds \<equiv> efi_map md m0"
  assumes f: "filled buf N m0 (map_frames (take k ds)) u" and k: "k < unat (entries (memory_data m0 md))"
    and total: "total_pages ds \<le> unat N" and sep: "map_separate md m0 (region buf (16 * unat N))"
  obtains u' where "init_region md buf (word_of_nat k) (u, word_of_nat (length (map_frames (take k ds))), aid)
      = (u', word_of_nat (length (map_frames (take (Suc k) ds))),
         if physical_addr (ds ! k) = buf then word_of_nat (length (map_frames (take k ds))) else aid)"
    and "filled buf N m0 (map_frames (take (Suc k) ds)) u'"
proof -
  have snoc: "take (Suc k) ds = take k ds @ [ds ! k]"
    using k by (simp add: ds_def take_Suc_conv_app_nth)
  have d: "ds ! k = efi_desc m0 (get_memory_descriptor md (word_of_nat k) m0)"
    using k by (simp add: ds_def efi_map_def)
  have "total_pages (take (Suc k) ds) \<le> unat N"
    using total total_pages_take [of "Suc k" ds] by simp
  then have room: "length (map_frames (take k ds)) + unat (number_of_pages (ds ! k)) \<le> unat N"
    by (simp add: length_map_frames snoc)
  have "region md 32 \<inter> region buf (16 * unat N) = {}"
    "region (get_memory_descriptor md (word_of_nat k) m0) 40 \<inter> region buf (16 * unat N) = {}"
    using sep k by (simp_all add: map_separate_def)
  from init_region_filled [OF f d room this(2,1), of aid] that show thesis
    by (auto simp: snoc)
qed

lemma region_loop:
  assumes f: "filled buf N m0 [] s"
    and total: "total_pages (efi_map md m0) \<le> unat N"
    and sep: "map_separate md m0 (region buf (16 * unat N))"
  obtains s' fid where "for_bound 0 (\<lambda>(s, _, _). entries (memory_data (ram s) md))
      (init_region md buf) (s, 0, 0)
      = (s', fid, word_of_nat (array_start buf 0 0 (efi_map md m0)))"
    and "filled buf N m0 (map_frames (efi_map md m0)) s'"
proof -
  let ?ds = "efi_map md m0" and ?E = "entries (memory_data m0 md)"
  let ?P = "\<lambda>i (u, fid :: u64, aid :: u64). filled buf N m0 (map_frames (take i ?ds)) u
      \<and> fid = word_of_nat (length (map_frames (take i ?ds)))
      \<and> aid = word_of_nat (array_start buf 0 0 (take i ?ds))"
  let ?r = "for_bound 0 (\<lambda>(s, _, _). entries (memory_data (ram s) md))
      (init_region md buf) (s, 0, 0)"
  have "?P (unat ?E) ?r"
  proof (rule for_bound_invariant)
    show "?P 0 (s, 0, 0)" using f by (simp add: map_frames_def)
  next
    fix k :: nat and st :: "pstate \<times> u64 \<times> u64"
    assume P: "?P k st"
    have "region md 32 \<inter> region buf (16 * unat N) = {}" using sep by (simp add: map_separate_def)
    with P have "memory_data (ram (fst st)) md = memory_data m0 md"
      using filled_outside by (intro memory_data_cong) (auto split: prod.splits)
    then show "(case st of (s, _, _) \<Rightarrow> entries (memory_data (ram s) md)) = ?E"
      by (cases st) simp
  next
    fix k st assume k: "k < unat ?E" and P: "?P k st"
    obtain u fid aid where st: "st = (u, fid, aid)" by (cases st)
    have "take (Suc k) ?ds = take k ?ds @ [?ds ! k]" using k by (simp add: take_Suc_conv_app_nth)
    then show "?P (Suc k) (init_region md buf (word_of_nat k) st)"
      using P by (rule_tac region_step [OF _ k total sep, of u aid]) (auto simp: st array_start_snoc length_map_frames)
  qed
  moreover have "take (unat ?E) ?ds = ?ds" by simp
  ultimately show thesis
    using that by (cases ?r) auto
qed

section \<open>The whole initialisation\<close>

text \<open>
  The states the initialisation leaves: those of the memory map, then the frame of the stack
  reserved if it was free, then the frames from the array's own region on locked where they
  are free, one for every 32 frames of memory.
\<close>

definition stack_reserved :: "ptr \<Rightarrow> (ptr \<times> u8) list \<Rightarrow> u8 list" where
  "stack_reserved stack fs =
     (case first_index (frame_holds stack) (map fst fs) of
        None \<Rightarrow> map snd fs
      | Some k \<Rightarrow> if snd (fs ! k) = FREE_FRAME then (map snd fs)[k := RESERVED_FRAME]
                  else map snd fs)"

definition boot_states :: "ptr \<Rightarrow> ptr \<Rightarrow> EfiMemoryDescriptor list \<Rightarrow> u8 list" where
  "boot_states stack buf ds =
     (let sts = stack_reserved stack (map_frames ds); a = array_start buf 0 0 ds
      in map (\<lambda>j. if a \<le> j \<and> j < a + length sts div 32 \<and> sts ! j = FREE_FRAME
                  then LOCKED_FRAME else sts ! j) [0..<length sts])"

text \<open>
  What the firmware and the bootloader provide: a map of fewer than \<open>2 ^ 32\<close> entries whose
  frames fit the address space, that lies outside the array, a stack in a frame of the map,
  and room for the locked frames from the array's region on.
\<close>

definition boot_ready :: "ptr \<Rightarrow> ptr \<Rightarrow> ptr \<Rightarrow> pstate \<Rightarrow> bool" where
  "boot_ready md stack buf s \<longleftrightarrow>
     (let ds = efi_map md (ram s); n = total_pages ds
      in \<not> initialized (pm s) \<and> entries (memory_data (ram s) md) < 2 ^ 32 \<and> 128 * n < 2 ^ 64
         \<and> map_separate md (ram s) (region buf (16 * n))
         \<and> first_index (frame_holds stack) (map fst (map_frames ds)) \<noteq> None
         \<and> array_start buf 0 0 ds + n div 32 \<le> n)"

lemma length_stack_reserved [simp]: "length (stack_reserved stack fs) = length fs"
  by (simp add: stack_reserved_def split: option.splits)

lemma length_boot_states [simp]: "length (boot_states stack buf ds) = total_pages ds"
  by (simp add: boot_states_def Let_def length_map_frames)

lemma filled_full:
  assumes "filled buf N m0 fs s" "length fs = unat N"
  shows "map (frame_addr s) [0..<n_frames s] = map fst fs" "frame_sts s = map snd fs"
  using assms filled_region [OF assms(1)]
  by (auto simp: filled_def intro!: nth_equalityI)

lemma reserve_stack:
  assumes f: "filled buf N m0 fs s" "length fs = unat N"
    and k: "first_index (frame_holds stack) (map fst fs) = Some k"
  defines "t \<equiv> PhysicalMemory__reserve_frame (PhysicalMemory__get_frame_index_by_ptr stack s) s"
  shows "pm_inv t" "frames (pm t) = N" "frame_array (pm t) = buf"
    "frame_sts t = stack_reserved stack fs"
    "\<And>j. j < unat N \<Longrightarrow> frame_addr t j = fst (fs ! j)"
    "\<And>x. x \<notin> region buf (16 * unat N) \<Longrightarrow> ram t x = m0 x"
proof -
  note full = filled_full [OF f] and reg = filled_region [OF f(1)]
  have t: "t = PhysicalMemory__reserve_frame (word_of_nat k) s"
    unfolding t_def frame_index_by_ptr full(1) k by simp
  have kn: "k < n_frames s" using k f(2) reg by (simp add: first_index_Some)
  have inv: "pm_inv s" and fits: "array_fits s" using f(1) by (simp_all add: filled_def)
  show "pm_inv t" unfolding t by (rule reserve.op_inv [OF inv kn])
  show "frames (pm t) = N" "frame_array (pm t) = buf"
    using f(1) by (simp_all add: t reserve.op_frames reserve.op_array filled_def)
  have "frame_st s k = snd (fs ! k)" using f kn reg by (simp add: filled_def)
  then show "frame_sts t = stack_reserved stack fs"
    unfolding t reserve.op_sts [OF fits kn] full(2) by (simp add: stack_reserved_def k)
  show "frame_addr t j = fst (fs ! j)" if "j < unat N" for j
    using reserve.op_addr [OF fits kn, of j] f that reg by (simp add: t filled_def)
  show "ram t x = m0 x" if "x \<notin> region buf (16 * unat N)" for x
    using reserve.op_outside [OF fits kn, of x] f(1) that reg by (simp add: t filled_def)
qed

lemma lock_array:
  assumes "pm_inv s" "128 * n_frames s < 2 ^ 64" "a + n_frames s div 32 \<le> n_frames s"
  defines "t \<equiv> for_bound 0 (\<lambda>s. PhysicalMemory__get_frames_array_sz s div FRAME_SZ)
      (\<lambda>i. PhysicalMemory__lock_frame (word_of_nat a + i)) s"
  shows "pm_inv t" "frames (pm t) = frames (pm s)" "frame_array (pm t) = frame_array (pm s)"
    "\<And>j. j < n_frames s \<Longrightarrow> frame_addr t j = frame_addr s j"
    "\<And>j. j < n_frames s \<Longrightarrow> frame_st t j
       = (if a \<le> j \<and> j < a + n_frames s div 32 \<and> frame_st s j = FREE_FRAME
          then LOCKED_FRAME else frame_st s j)"
    "\<And>x. x \<notin> array_region s \<Longrightarrow> ram t x = ram s x"
proof -
  let ?n = "PhysicalMemory__get_frames_array_sz s div FRAME_SZ"
  let ?run = "\<lambda>k. fold (\<lambda>i. PhysicalMemory__lock_frame (word_of_nat (a + i))) [0..<k] s"
  have "unat (PhysicalMemory__get_frames_array_sz s) = 128 * n_frames s"
    using assms(2)
    by (simp add: PhysicalMemory__get_frames_array_sz_def n_frames_def unat_word_ariths)
  then have n: "unat ?n = n_frames s div 32"
    by (simp add: unat_div_distrib)
  have "t = ?run (unat ?n) \<and> frames (pm t) = frames (pm s)"
    unfolding t_def
    by (rule for_bound_invariant [where P = "\<lambda>k u. u = ?run k \<and> frames (pm u) = frames (pm s)"])
      (simp_all add: PhysicalMemory__get_frames_array_sz_def lock.op_frames)
  then have t: "t = ?run (n_frames s div 32)" by (simp only: n)
  show "pm_inv t" "frames (pm t) = frames (pm s)" "frame_array (pm t) = frame_array (pm s)"
    "\<And>j. j < n_frames s \<Longrightarrow> frame_addr t j = frame_addr s j"
    "\<And>j. j < n_frames s \<Longrightarrow> frame_st t j
       = (if a \<le> j \<and> j < a + n_frames s div 32 \<and> frame_st s j = FREE_FRAME
          then LOCKED_FRAME else frame_st s j)"
    "\<And>x. x \<notin> array_region s \<Longrightarrow> ram t x = ram s x"
    unfolding t using lock.run_facts [OF pm_inv_fits [OF assms(1)] assms(3)] assms(1)
    by blast+
qed

text \<open>\<^verbatim>\<open>PhysicalMemory__init\<close> on a machine the bootloader has prepared.\<close>

text \<open>The loops over the map, on the counters that are set first.\<close>

lemma init_map_filled:
  assumes "boot_ready md stack buf s"
  defines "ds \<equiv> efi_map md (ram s)" and "N \<equiv> word_of_nat (total_pages (efi_map md (ram s))) :: u64"
  defines "s1 \<equiv> s\<lparr>pm := (pm s)\<lparr>frame_array := buf, frames := N, free_frames := N,
      locked_frames := 0, reserved_frames := 0\<rparr>\<rparr>"
  obtains s3 fid where "for_bound 0 (\<lambda>(s, _, _). entries (memory_data (ram s) md)) (init_region md buf)
      (for_bound 0 (\<lambda>s. frames (pm s)) init_zero s1, 0, 0) = (s3, fid, word_of_nat (array_start buf 0 0 ds))"
    "filled buf N (ram s) (map_frames ds) s3"
proof -
  have ready: "\<not> initialized (pm s)" "128 * total_pages ds < 2 ^ 64"
    "map_separate md (ram s) (region buf (16 * total_pages ds))" "entries (memory_data (ram s) md) < 2 ^ 32"
    using assms(1) by (simp_all add: boot_ready_def Let_def ds_def)
  have un: "unat N = total_pages ds" using ready(2) by (simp add: N_def ds_def unat_of_nat_small)
  have s1: "array_fits s1" "free_frames (pm s1) = frames (pm s1)" "locked_frames (pm s1) = 0"
    "reserved_frames (pm s1) = 0" "n_frames s1 = unat N" "array_region s1 = region buf (16 * unat N)"
    using ready(2) un by (simp_all add: s1_def array_fits_def n_frames_def array_region_def)
  note z = zero_loop [OF s1(1-4)]
  have "filled buf N (ram s) [] (for_bound 0 (\<lambda>s. frames (pm s)) init_zero s1)"
    using z ready(1) s1 by (simp add: filled_def n_frames_def array_region_def s1_def)
  then show ?thesis
    using region_loop [of buf N "ram s" _ md] ready(3) un that unfolding ds_def by (metis order_refl)
qed

text \<open>What follows the filling of the array: the frame of the stack, the frames of the array itself.\<close>

definition init_finish :: "ptr \<Rightarrow> nat \<Rightarrow> pstate \<Rightarrow> pstate" where
  "init_finish stack a s =
     (let s4 = PhysicalMemory__reserve_frame (PhysicalMemory__get_frame_index_by_ptr stack s) s;
          s5 = for_bound 0 (\<lambda>s. PhysicalMemory__get_frames_array_sz s div FRAME_SZ)
            (\<lambda>i. PhysicalMemory__lock_frame (word_of_nat a + i)) s4
      in s5\<lparr>pm := (pm s5)\<lparr>initialized := True\<rparr>\<rparr>)"

lemma init_finish_correct:
  assumes f: "filled buf N m0 (map_frames ds) s" and N: "unat N = total_pages ds"
    and k: "first_index (frame_holds stack) (map fst (map_frames ds)) = Some k"
    and small: "128 * total_pages ds < 2 ^ 64" "array_start buf 0 0 ds + total_pages ds div 32 \<le> total_pages ds"
  defines "s' \<equiv> init_finish stack (array_start buf 0 0 ds) s"
  shows "pm_inv s'" "initialized (pm s')" "frame_array (pm s') = buf" "n_frames s' = total_pages ds"
    and "map (frame_addr s') [0..<n_frames s'] = map fst (map_frames ds)"
    and "frame_sts s' = boot_states stack buf ds"
    and "x \<notin> region buf (16 * n_frames s') \<Longrightarrow> ram s' x = m0 x"
proof -
  let ?a = "array_start buf 0 0 ds"
  have len: "length (map_frames ds) = unat N" by (simp add: length_map_frames N)
  define s4 where "s4 = PhysicalMemory__reserve_frame (PhysicalMemory__get_frame_index_by_ptr stack s) s"
  note r = reserve_stack [OF f len k, folded s4_def]
  have n4: "n_frames s4 = total_pages ds" "array_region s4 = region buf (16 * unat N)"
    using r(2,3) N by (simp_all add: n_frames_def array_region_def)
  define s5 where "s5 = for_bound 0 (\<lambda>s. PhysicalMemory__get_frames_array_sz s div FRAME_SZ)
      (\<lambda>i. PhysicalMemory__lock_frame (word_of_nat ?a + i)) s4"
  have "128 * n_frames s4 < 2 ^ 64" "?a + n_frames s4 div 32 \<le> n_frames s4"
    using small n4 by simp_all
  note l = lock_array [OF r(1) this, folded s5_def]
  have s': "s' = s5\<lparr>pm := (pm s5)\<lparr>initialized := True\<rparr>\<rparr>"
    by (simp add: s'_def init_finish_def Let_def s4_def s5_def)
  have view: "frame_addr s' = frame_addr s5" "frame_st s' = frame_st s5" "ram s' = ram s5"
    by (simp_all add: s' frame_addr_def frame_st_def fun_eq_iff)
  have n6: "n_frames s' = total_pages ds" "frame_sts s' = frame_sts s5" "frame_array (pm s') = buf"
    using l(2,3) n4 r(3) view(2)
    by (simp_all add: s' n_frames_def frame_sts_def array_region_def)
  show "pm_inv s'"
    using l(1) n6(2) by (simp add: pm_inv_def s' array_fits_def n_frames_def)
  show "initialized (pm s')" by (simp add: s')
  show "frame_array (pm s') = buf" "n_frames s' = total_pages ds" by (rule n6)+
  show "map (frame_addr s') [0..<n_frames s'] = map fst (map_frames ds)"
    using l(4) r(5) n4 n6(1) N len by (intro nth_equalityI) (simp_all add: view)
  show "frame_sts s' = boot_states stack buf ds"
  proof (rule nth_equalityI)
    show "length (frame_sts s') = length (boot_states stack buf ds)" by (simp add: n6(1))
    fix j assume "j < length (frame_sts s')"
    then have j: "j < n_frames s4" using n4 n6(1) by simp
    show "frame_sts s' ! j = boot_states stack buf ds ! j"
      using l(5) [OF j] j n4 n6(1) view(2) r(4) nth_frame_sts [OF j]
      by (simp add: boot_states_def Let_def length_map_frames)
  qed
  show "x \<notin> region buf (16 * n_frames s') \<Longrightarrow> ram s' x = m0 x"
    using l(6) [of x] r(6) [of x] n4 n6(1) N by (simp add: view)
qed

lemma PhysicalMemory__init_correct:
  assumes "boot_ready md stack buf s"
  obtains s' where "PhysicalMemory__init md stack buf s = Some s'"
    and "pm_inv s'" "initialized (pm s')" "frame_array (pm s') = buf"
    and "n_frames s' = total_pages (efi_map md (ram s))"
    and "map (frame_addr s') [0..<n_frames s'] = map fst (map_frames (efi_map md (ram s)))"
    and "frame_sts s' = boot_states stack buf (efi_map md (ram s))"
    and "\<And>x. x \<notin> region buf (16 * n_frames s') \<Longrightarrow> ram s' x = ram s x"
proof -
  define ds where "ds = efi_map md (ram s)"
  define N :: u64 where "N = word_of_nat (total_pages ds)"
  define a where "a = array_start buf 0 0 ds"
  have ready: "\<not> initialized (pm s)" "entries (memory_data (ram s) md) < 2 ^ 32"
    "128 * total_pages ds < 2 ^ 64" "a + total_pages ds div 32 \<le> total_pages ds"
    using assms by (simp_all add: boot_ready_def Let_def ds_def a_def)
  have un: "unat N = total_pages ds" using ready(3) by (simp add: N_def unat_of_nat_small)
  obtain k where k: "first_index (frame_holds stack) (map fst (map_frames ds)) = Some k"
    using assms by (auto simp: boot_ready_def Let_def ds_def)
  define s2 where "s2 = for_bound 0 (\<lambda>s. frames (pm s)) init_zero (s\<lparr>pm := (pm s)\<lparr>frame_array := buf, frames := N,
      free_frames := N, locked_frames := 0, reserved_frames := 0\<rparr>\<rparr>)"
  obtain s3 fid where loop: "for_bound 0 (\<lambda>(s, _, _). entries (memory_data (ram s) md))
      (init_region md buf) (s2, 0, 0) = (s3, fid, word_of_nat a)"
    and f3: "filled buf N (ram s) (map_frames ds) s3"
    by (rule init_map_filled [OF assms, folded ds_def, folded N_def, folded s2_def a_def])
  have run: "PhysicalMemory__init md stack buf s = Some (init_finish stack a s3)"
    using ready(1) page_frames_total [OF ready(2)] loop
    by (simp add: PhysicalMemory__init_def Let_def N_def [symmetric] ds_def [symmetric] s2_def [symmetric] init_finish_def)
  note c = init_finish_correct [OF f3 un k ready(3,4) [unfolded a_def], folded a_def]
  show thesis by (rule that [OF run c [unfolded ds_def]])
qed

end
