(* ===== verification/Machine.thy ===== *)
theory Machine
  imports Memory
begin

text \<open>
  The processor and the devices as the kernel sees them: the bit macros of \<^verbatim>\<open>src/src/kutils.h\<close>,
  the model-specific and control registers with the assembly routines of
  \<^verbatim>\<open>src/src/cpu/cpu.asm\<close> and \<^verbatim>\<open>src/src/memory/paging.asm\<close>, and the accesses to memory-mapped
  registers of \<^verbatim>\<open>src/src/cpu/mmio.h\<close>. A device is a parameter of the model: a \<open>bus\<close> of
  functions on a device state. What the kernel relies on of it is the locale \<open>mmio_registers\<close>.
\<close>

unbundle bit_operations_syntax

section \<open>Bit macros\<close>

text \<open>
  The constant \<^verbatim>\<open>1 << pos\<close> is an \<^verbatim>\<open>int\<close> of 32 bits and is converted to the type of the other
  operand, with its sign.
\<close>

definition set_bit_k :: "'a::len word \<Rightarrow> nat \<Rightarrow> 'a word" where
  "set_bit_k var pos = var OR scast (push_bit pos 1 :: u32)"

definition clear_bit_k :: "'a::len word \<Rightarrow> nat \<Rightarrow> 'a word" where
  "clear_bit_k var pos = var AND scast (NOT (push_bit pos 1) :: u32)"

definition test_bit_k :: "'a::len word \<Rightarrow> nat \<Rightarrow> 'a word" where
  "test_bit_k var pos = var AND scast (push_bit pos 1 :: u32)"

lemma bit_one_shifted:
  "pos < 31 \<Longrightarrow> i < LENGTH('a) \<Longrightarrow> bit (scast (2 ^ pos :: u32) :: 'a::len word) i \<longleftrightarrow> i = pos"
  by (cases "i < 31") (auto simp: bit_simps min_def)

lemma bit_set_bit_k [bits_simps]:
  "pos < 31 \<Longrightarrow> i < LENGTH('a) \<Longrightarrow> bit (set_bit_k (w :: 'a::len word) pos) i \<longleftrightarrow> i = pos \<or> bit w i"
  by (auto simp: set_bit_k_def bit_or_iff bit_one_shifted)

lemma bit_clear_bit_k [bits_simps]:
  assumes "pos < 31" "i < LENGTH('a)"
  shows "bit (clear_bit_k (w :: 'a::len word) pos) i \<longleftrightarrow> i \<noteq> pos \<and> bit w i"
proof -
  have "bit (scast (NOT (push_bit pos 1) :: u32) :: 'a word) i \<longleftrightarrow> i \<noteq> pos"
    using assms by (cases "i < 31") (auto simp: bit_simps min_def)
  then show ?thesis by (auto simp: clear_bit_k_def bit_and_iff)
qed

lemma test_bit_k_eq_0 [bits_simps]:
  assumes "pos < 31" "pos < LENGTH('a)"
  shows "test_bit_k (w :: 'a::len word) pos = 0 \<longleftrightarrow> \<not> bit w pos"
proof
  assume z: "test_bit_k w pos = 0"
  have "bit (test_bit_k w pos) pos \<longleftrightarrow> bit w pos"
    using assms by (simp add: test_bit_k_def bit_and_iff bit_one_shifted)
  with z show "\<not> bit w pos" by simp
next
  assume "\<not> bit w pos"
  then show "test_bit_k w pos = 0"
    using assms by (intro bit_word_eqI) (auto simp: test_bit_k_def bit_and_iff bit_one_shifted)
qed

section \<open>Registers\<close>

record registers =
  cr3 :: u64
  cr4 :: u64
  msrs :: "u32 \<Rightarrow> u64"
  gdtr :: "u16 \<times> ptr"
  idtr :: "u16 \<times> ptr"
  code_segment :: u16
  data_segments :: u16

text \<open>
  \<^verbatim>\<open>wrmsr\<close> writes \<open>edx:eax\<close> to the register that \<open>ecx\<close> names, \<^verbatim>\<open>rdmsr\<close> reads it there; the
  routines split and join the 64-bit value.
\<close>

definition write_msr :: "u32 \<Rightarrow> u64 \<Rightarrow> registers \<Rightarrow> registers" where
  "write_msr msr_no v r =
     (let eax = ucast v :: u32; edx = ucast (drop_bit 32 v) :: u32
      in r\<lparr>msrs := (msrs r)(msr_no := push_bit 32 (ucast edx) OR ucast eax)\<rparr>)"

definition read_msr :: "u32 \<Rightarrow> registers \<Rightarrow> u64" where
  "read_msr msr_no r =
     (let eax = ucast (msrs r msr_no) :: u32; edx = ucast (drop_bit 32 (msrs r msr_no)) :: u32
      in ucast eax OR push_bit 32 (ucast edx))"

lemma join_halves:
  fixes v :: u64
  shows "push_bit 32 (ucast (ucast (drop_bit 32 v) :: u32)) OR ucast (ucast v :: u32) = v"
proof (rule bit_word_eqI)
  fix i assume "i < LENGTH(64)"
  then show "bit (push_bit 32 (ucast (ucast (drop_bit 32 v) :: u32)) OR ucast (ucast v :: u32) :: u64) i
    \<longleftrightarrow> bit v i"
    by (cases "i < 32") (auto simp: bit_simps)
qed

lemma write_msr_whole: "write_msr n v r = r\<lparr>msrs := (msrs r)(n := v)\<rparr>"
  by (simp add: write_msr_def join_halves)

lemma read_msr_whole: "read_msr n r = msrs r n"
  using join_halves [of "msrs r n"] by (simp add: read_msr_def or.commute)

text \<open>The routine that sets the options of 4-level paging: three changes to \<open>cr4\<close>.\<close>

definition enable_cpu_4_level_paging :: "registers \<Rightarrow> registers" where
  "enable_cpu_4_level_paging r =
     (let c1 = cr4 r OR push_bit 31 1;
          c2 = c1 OR push_bit 5 1;
          c3 = NOT (NOT c2 OR push_bit 57 1)
      in r\<lparr>cr4 := c3\<rparr>)"

abbreviation CR3_PWT :: nat where "CR3_PWT \<equiv> 3"
abbreviation CR3_PCD :: nat where "CR3_PCD \<equiv> 4"

definition set_cr3_register :: "u64 \<Rightarrow> bool \<Rightarrow> bool \<Rightarrow> registers \<Rightarrow> registers" where
  "set_cr3_register paddr pwt pcd r =
     (let c0 = paddr;
          c1 = (if pwt then set_bit_k c0 CR3_PWT else c0);
          c2 = (if pcd then set_bit_k c1 CR3_PCD else c1)
      in r\<lparr>cr3 := c2\<rparr>)"

section \<open>Memory-mapped registers\<close>

record 'd bus =
  rd8 :: "'d \<Rightarrow> ptr \<Rightarrow> u8 \<times> 'd"
  rd16 :: "'d \<Rightarrow> ptr \<Rightarrow> u16 \<times> 'd"
  rd32 :: "'d \<Rightarrow> ptr \<Rightarrow> u32 \<times> 'd"
  rd64 :: "'d \<Rightarrow> ptr \<Rightarrow> u64 \<times> 'd"
  wr8 :: "ptr \<Rightarrow> u8 \<Rightarrow> 'd \<Rightarrow> 'd"
  wr16 :: "ptr \<Rightarrow> u16 \<Rightarrow> 'd \<Rightarrow> 'd"
  wr32 :: "ptr \<Rightarrow> u32 \<Rightarrow> 'd \<Rightarrow> 'd"
  wr64 :: "ptr \<Rightarrow> u64 \<Rightarrow> 'd \<Rightarrow> 'd"

definition mmio_write8 :: "'d bus \<Rightarrow> ptr \<Rightarrow> u8 \<Rightarrow> 'd \<Rightarrow> 'd" where
  "mmio_write8 b p data d = wr8 b p data d"

definition mmio_read8 :: "'d bus \<Rightarrow> ptr \<Rightarrow> 'd \<Rightarrow> u8 \<times> 'd" where
  "mmio_read8 b p d = rd8 b d p"

definition mmio_write16 :: "'d bus \<Rightarrow> ptr \<Rightarrow> u16 \<Rightarrow> 'd \<Rightarrow> 'd" where
  "mmio_write16 b p data d = wr16 b p data d"

definition mmio_read16 :: "'d bus \<Rightarrow> ptr \<Rightarrow> 'd \<Rightarrow> u16 \<times> 'd" where
  "mmio_read16 b p d = rd16 b d p"

definition mmio_write32 :: "'d bus \<Rightarrow> ptr \<Rightarrow> u32 \<Rightarrow> 'd \<Rightarrow> 'd" where
  "mmio_write32 b p data d = wr32 b p data d"

definition mmio_read32 :: "'d bus \<Rightarrow> ptr \<Rightarrow> 'd \<Rightarrow> u32 \<times> 'd" where
  "mmio_read32 b p d = rd32 b d p"

definition mmio_write64 :: "'d bus \<Rightarrow> ptr \<Rightarrow> u64 \<Rightarrow> 'd \<Rightarrow> 'd" where
  "mmio_write64 b p data d = wr64 b p data d"

definition mmio_read64 :: "'d bus \<Rightarrow> ptr \<Rightarrow> 'd \<Rightarrow> u64 \<times> 'd" where
  "mmio_read64 b p d = rd64 b d p"

text \<open>Copying from registers to memory, one byte at a time.\<close>

function mmio_readn :: "'d bus \<Rightarrow> ptr \<Rightarrow> ptr \<Rightarrow> u64 \<Rightarrow> mem \<times> 'd \<Rightarrow> mem \<times> 'd" where
  "mmio_readn b dst src bytes s =
     (if bytes > 0 then
        let (m, d) = s; (v, d') = rd8 b d src
        in mmio_readn b (dst + 1) (src + 1) (bytes - 1) (store8 dst v m, d')
      else s)"
  by pat_completeness auto
termination
  by (relation "measure (\<lambda>(b, dst, src, bytes, s). unat bytes)")
    (auto simp: measure_unat word_neq_0_conv)

declare mmio_readn.simps [simp del]

section \<open>What the kernel relies on of a device register\<close>

text \<open>
  At the addresses in \<open>A\<close> the device has registers that hold what is written to them, that no
  write to another of them changes, and that reading does not change.
\<close>

locale mmio_registers =
  fixes bus :: "'d bus"
    and A :: "ptr set"
  assumes wr_rd: "a \<in> A \<Longrightarrow> fst (rd64 bus (wr64 bus a v d) a) = v"
    and wr_other: "a \<in> A \<Longrightarrow> b \<in> A \<Longrightarrow> a \<noteq> b
      \<Longrightarrow> fst (rd64 bus (wr64 bus a v d) b) = fst (rd64 bus d b)"
    and rd_keeps: "a \<in> A \<Longrightarrow> b \<in> A \<Longrightarrow> fst (rd64 bus (snd (rd64 bus d a)) b) = fst (rd64 bus d b)"
begin

text \<open>A read, a change and a write back: the way the kernel updates a field of a register.\<close>

lemma modify_register:
  assumes "a \<in> A" "b \<in> A"
  shows "fst (rd64 bus (wr64 bus a (f (fst (rd64 bus d a))) (snd (rd64 bus d a))) b)
    = (if b = a then f (fst (rd64 bus d a)) else fst (rd64 bus d b))"
  using assms by (simp add: wr_rd wr_other rd_keeps)

end

text \<open>Plain memory is such a device, at the addresses that are multiples of eight.\<close>

definition ram_bus :: "mem bus" where
  "ram_bus = \<lparr>rd8 = (\<lambda>m a. (load8 m a, m)), rd16 = (\<lambda>m a. (load16 m a, m)),
     rd32 = (\<lambda>m a. (load32 m a, m)), rd64 = (\<lambda>m a. (load64 m a, m)),
     wr8 = store8, wr16 = store16, wr32 = store32, wr64 = store64\<rparr>"

interpretation ram_registers: mmio_registers ram_bus "{a. take_bit 3 a = 0}"
proof (unfold_locales, goal_cases)
  case (2 a b v d)
  then have "region b 8 \<inter> region a 8 = {}"
    using aligned_regions_disjoint [of 3 b a] by simp
  with 2 show ?case by (simp add: ram_bus_def load64_store64_disjoint)
qed (simp_all add: ram_bus_def)

text \<open>A device on which reading changes no register, whatever address is read, and in whatever width the
  kernel reads. Its registers at \<open>A\<close> need not be all: a running counter is not among them.\<close>

locale mmio_devices = mmio_registers bus A for bus :: "'d bus" and A :: "ptr set" +
  assumes rd8_keeps: "b \<in> A \<Longrightarrow> fst (rd64 bus (snd (rd8 bus d a)) b) = fst (rd64 bus d b)"
    and rd32_keeps: "b \<in> A \<Longrightarrow> fst (rd64 bus (snd (rd32 bus d a)) b) = fst (rd64 bus d b)"
    and rd64_keeps: "b \<in> A \<Longrightarrow> fst (rd64 bus (snd (rd64 bus d a)) b) = fst (rd64 bus d b)"

interpretation ram_devices: mmio_devices ram_bus "{a. take_bit 3 a = 0}"
  by unfold_locales (simp_all add: ram_bus_def)

section \<open>Properties\<close>

text \<open>The assembly routines \<^verbatim>\<open>write_msr\<close> and \<^verbatim>\<open>read_msr\<close> (cpu.asm) carry all 64 bits: a
  model-specific register reads back as it was written, and writing it changes no other.\<close>

lemma msr_roundtrip:
  "read_msr n (write_msr k v r) = (if n = k then v else read_msr n r)"
  by (simp add: read_msr_whole write_msr_whole)


end
