(* ===== verification/Bitfields.thy ===== *)
theory Bitfields
  imports Prelude
begin

text \<open>
  C bit-fields. The fields of a packed structure are allocated from the least significant bit of
  a word on, without gaps, so that a structure is read from a word field by field and laid out in
  one; the lemmas here prove both round trips of any such structure by rewriting.
\<close>

unbundle bit_operations_syntax

section \<open>Bit-fields\<close>

text \<open>The field of \<open>LENGTH('n)\<close> bits at bit \<open>k\<close>, and the word with just that field.\<close>

definition field_at :: "nat \<Rightarrow> 'w::len word \<Rightarrow> 'n::len word" where
  "field_at k w = ucast (drop_bit k w)"

definition at_field :: "nat \<Rightarrow> 'n::len word \<Rightarrow> 'w::len word" where
  "at_field k f = push_bit k (ucast f)"

lemma bit_field_at [bits_simps]:
  "bit (field_at k w :: 'n::len word) i \<longleftrightarrow> i < LENGTH('n) \<and> bit w (k + i)"
  by (simp add: field_at_def bit_simps)

lemma bit_at_field [bits_simps]:
  "bit (at_field k (f :: 'n::len word) :: 'w::len word) i
     \<longleftrightarrow> k \<le> i \<and> i < LENGTH('w) \<and> bit f (i - k)"
  by (auto simp: at_field_def bit_simps)

section \<open>Reading back what was laid out\<close>

lemma field_at_or: "field_at k (v OR w) = field_at k v OR (field_at k w :: 'n::len word)"
  by (rule bit_word_eqI) (auto simp: bits_simps bit_or_iff)

lemma field_at_same:
  "k + LENGTH('n) \<le> LENGTH('w)
    \<Longrightarrow> field_at k (at_field k (f :: 'n::len word) :: 'w::len word) = f"
  by (rule bit_word_eqI) (auto simp: bits_simps)

lemma field_at_other:
  "j + LENGTH('m) \<le> k \<or> k + LENGTH('n) \<le> j
    \<Longrightarrow> field_at k (at_field j (f :: 'm::len word) :: 'w::len word) = (0 :: 'n::len word)"
  by (rule bit_word_eqI) (auto simp: bits_simps dest: bit_imp_le_length)

lemmas field_simps_bits = field_at_or field_at_same field_at_other

section \<open>Laying out what was read\<close>

text \<open>
  A field read from a word and laid out again is a range of the word's bits; adjacent ranges
  join, so that the fields of a structure, which cover the word without gaps, give it back.
\<close>

definition bit_range :: "nat \<Rightarrow> nat \<Rightarrow> 'w::len word \<Rightarrow> 'w word" where
  "bit_range lo hi w = push_bit lo (drop_bit lo (take_bit hi w))"

lemma bit_bit_range: "bit (bit_range lo hi (w :: 'w::len word)) i
    \<longleftrightarrow> lo \<le> i \<and> i < hi \<and> i < LENGTH('w) \<and> bit w i"
  by (auto simp: bit_range_def bit_simps)

lemma at_field_field_at:
  "at_field k (field_at k (w :: 'w::len word) :: 'n::len word) = bit_range k (k + LENGTH('n)) w"
  by (rule bit_word_eqI) (auto simp: bits_simps bit_bit_range)

lemma bit_range_join:
  "a \<le> b \<Longrightarrow> b \<le> c \<Longrightarrow> bit_range a b w OR bit_range b c w = bit_range a c w"
  by (rule bit_word_eqI) (auto simp: bit_bit_range bit_or_iff)

lemma bit_range_all: "LENGTH('w) \<le> n \<Longrightarrow> bit_range 0 n (w :: 'w::len word) = w"
  by (rule bit_word_eqI) (simp add: bit_bit_range)

lemma two_Suc: "Suc (Suc 0) = 2"
  by simp

lemmas relay_simps = at_field_field_at bit_range_join bit_range_all two_Suc

lemma at_field_0 [simp]: "at_field k (0 :: 'n::len word) = 0"
  by (simp add: at_field_def)

end
