(* ===== verification/Apic.thy ===== *)
theory Apic
  imports Machine Bitfields
begin

text \<open>
  The local interrupt controller, \<^verbatim>\<open>src/src/acpi/apic/apic.c\<close>, \<^verbatim>\<open>apic.h\<close>, \<^verbatim>\<open>lvt.c\<close> and \<^verbatim>\<open>lvt.h\<close>. Its
  registers are memory-mapped at a fixed address, its enable bit is in a model-specific
  register. \<open>cpuid\<close> is the instruction: the four registers it returns for a value of \<open>eax\<close>.
\<close>

unbundle bit_operations_syntax

type_synonym cpuid = "u32 \<Rightarrow> u32 \<times> u32 \<times> u32 \<times> u32"

abbreviation APIC_BASE_MSR :: u32 where "APIC_BASE_MSR \<equiv> 0x1b"
abbreviation APIC_BASE_ADDR :: ptr where "APIC_BASE_ADDR \<equiv> 0xfee00000"
abbreviation APIC_ID_REG :: ptr where "APIC_ID_REG \<equiv> APIC_BASE_ADDR + 0x20"
abbreviation APIC_VERSION_REG :: ptr where "APIC_VERSION_REG \<equiv> APIC_BASE_ADDR + 0x30"
abbreviation APIC_IRR_REG :: ptr where "APIC_IRR_REG \<equiv> APIC_BASE_ADDR + 0x200"

text \<open>The fields of the base register.\<close>

record APIC_msr =
  msr_reserved1 :: u8
  bsp :: "1 word"
  msr_reserved2 :: "2 word"
  is_enabled :: "1 word"
  base_addr :: "24 word"

definition read_APIC_msr :: "u64 \<Rightarrow> APIC_msr" where
  "read_APIC_msr w = \<lparr>msr_reserved1 = field_at 0 w, bsp = field_at 8 w, msr_reserved2 = field_at 9 w,
     is_enabled = field_at 11 w, base_addr = field_at 12 w\<rparr>"

section \<open>Operations\<close>

definition APIC_write_msr :: "u64 \<Rightarrow> registers \<Rightarrow> registers" where
  "APIC_write_msr v r = write_msr APIC_BASE_MSR v r"

definition APIC_read_msr :: "registers \<Rightarrow> u64" where
  "APIC_read_msr r = read_msr APIC_BASE_MSR r"

definition APIC_get_local_id :: "'d bus \<Rightarrow> 'd \<Rightarrow> u8 \<times> 'd" where
  "APIC_get_local_id bus d =
     (let (id_reg, d') = mmio_read32 bus APIC_ID_REG d in (ucast (drop_bit 24 id_reg), d'))"

definition APIC_get_init_id :: "cpuid \<Rightarrow> u8" where
  "APIC_get_init_id cpuid = (let (_, ebx, _, _) = cpuid 0x1 in ucast (drop_bit 24 ebx))"

definition APIC_enable :: "registers \<Rightarrow> registers" where
  "APIC_enable r =
     (let msr = read_msr APIC_BASE_MSR r; msr' = set_bit_k msr 11 in APIC_write_msr msr' r)"

definition APIC_get_version :: "'d bus \<Rightarrow> 'd \<Rightarrow> u8 \<times> 'd" where
  "APIC_get_version bus d = mmio_read8 bus APIC_VERSION_REG d"

section \<open>Local vector table\<close>

abbreviation LVT_CMCI_REG :: ptr where "LVT_CMCI_REG \<equiv> APIC_BASE_ADDR + 0x2f0"
abbreviation LVT_LINT0_REG :: ptr where "LVT_LINT0_REG \<equiv> APIC_BASE_ADDR + 0x350"
abbreviation LVT_LINT1_REG :: ptr where "LVT_LINT1_REG \<equiv> APIC_BASE_ADDR + 0x360"
abbreviation LVT_ERROR_REG :: ptr where "LVT_ERROR_REG \<equiv> APIC_BASE_ADDR + 0x370"

record LVT_Entry =
  lvt_vector :: u8
  delivery_mode :: "3 word"
  lvt_reserved1 :: "1 word"
  delivery_status :: "1 word"
  pin_polarity :: "1 word"
  remote_irr :: "1 word"
  trigger_mode :: "1 word"
  lvt_mask :: "1 word"
  lvt_reserved2 :: "15 word"

definition read_LVT_Entry :: "u32 \<Rightarrow> LVT_Entry" where
  "read_LVT_Entry w = \<lparr>lvt_vector = field_at 0 w, delivery_mode = field_at 8 w,
     lvt_reserved1 = field_at 11 w, delivery_status = field_at 12 w, pin_polarity = field_at 13 w,
     remote_irr = field_at 14 w, trigger_mode = field_at 15 w, lvt_mask = field_at 16 w,
     lvt_reserved2 = field_at 17 w\<rparr>"

definition lay_LVT_Entry :: "LVT_Entry \<Rightarrow> u32" where
  "lay_LVT_Entry e = at_field 0 (lvt_vector e) OR at_field 8 (delivery_mode e)
     OR at_field 11 (lvt_reserved1 e) OR at_field 12 (delivery_status e)
     OR at_field 13 (pin_polarity e) OR at_field 14 (remote_irr e) OR at_field 15 (trigger_mode e)
     OR at_field 16 (lvt_mask e) OR at_field 17 (lvt_reserved2 e)"

text \<open>The entry is passed by its address and read as one 32-bit word.\<close>

definition LVT_set_entry :: "'d bus \<Rightarrow> mem \<Rightarrow> ptr \<Rightarrow> ptr \<Rightarrow> 'd \<Rightarrow> 'd" where
  "LVT_set_entry bus m reg entry d = mmio_write32 bus reg (load32 m entry) d"

lemma read_lay_LVT_Entry: "read_LVT_Entry (lay_LVT_Entry e) = e"
  by (simp add: read_LVT_Entry_def lay_LVT_Entry_def field_simps_bits)

lemma lay_read_LVT_Entry: "lay_LVT_Entry (read_LVT_Entry w) = w"
  by (simp add: read_LVT_Entry_def lay_LVT_Entry_def relay_simps)

section \<open>What the device sees\<close>

text \<open>\<^verbatim>\<open>APIC_enable\<close> (apic.c) sets bit 11, the global enable, of the APIC's base register and
  changes no other bit and no other model-specific register; doing it again changes nothing.\<close>

lemma APIC_enable_sets_bit:
  "(bit (APIC_read_msr (APIC_enable r)) i \<longleftrightarrow> i = 11 \<or> bit (APIC_read_msr r) i)
   \<and> (n = APIC_BASE_MSR \<or> read_msr n (APIC_enable r) = read_msr n r)
   \<and> APIC_enable (APIC_enable r) = APIC_enable r"
proof -
  have b: "bit (set_bit_k w 11) i \<longleftrightarrow> i = 11 \<or> bit w i" for w :: u64 and i
  proof (cases "i < 64")
    case False
    then show ?thesis using bit_imp_le_length [of "set_bit_k w 11" i] bit_imp_le_length [of w i] by auto
  qed (simp add: bits_simps)
  have "set_bit_k (set_bit_k w 11) 11 = set_bit_k w 11" for w :: u64
    by (rule bit_word_eqI) (simp add: b)
  then show ?thesis
    by (simp add: APIC_enable_def APIC_read_msr_def APIC_write_msr_def read_msr_whole
        write_msr_whole Let_def b)
qed

lemma APIC_enable_msr:
  "read_APIC_msr (APIC_read_msr (APIC_enable r)) = (read_APIC_msr (APIC_read_msr r))\<lparr>is_enabled := 1\<rparr>"
proof -
  have b: "bit (APIC_read_msr (APIC_enable r)) i \<longleftrightarrow> i = 11 \<or> bit (APIC_read_msr r) i" for i
    using APIC_enable_sets_bit by blast
  show ?thesis
    by (simp add: read_APIC_msr_def) (intro conjI bit_word_eqI; auto simp: bits_simps b bit_simps)
qed

text \<open>\<^verbatim>\<open>LVT_set_entry\<close> (lvt.c) hands the device the entry's fields as they are laid out: an
  entry stored in memory arrives as the word whose fields are those of the entry.\<close>

lemma LVT_set_entry_word:
  "LVT_set_entry bus (store32 p (lay_LVT_Entry e) m) reg p d = wr32 bus reg (lay_LVT_Entry e) d
   \<and> read_LVT_Entry (lay_LVT_Entry e) = e \<and> lay_LVT_Entry (read_LVT_Entry w) = w"
  by (simp add: LVT_set_entry_def mmio_write32_def read_lay_LVT_Entry lay_read_LVT_Entry)

end
