(* ===== verification/Cpu.thy ===== *)
theory Cpu
  imports Apic Libc
begin

text \<open>
  Processor identification, \<^verbatim>\<open>src/src/cpu/cpu.c\<close> and \<^verbatim>\<open>cpu.h\<close>. The structure \<^verbatim>\<open>cpu\<close> is in memory
  at \<open>p\<close>: its strings are printed from there. \<open>cpuid\<close> is the instruction; the assembly routine
  \<^verbatim>\<open>get_cpuid\<close> stores those of the four registers whose pointers are not \<^verbatim>\<open>NULL\<close>.
\<close>

unbundle bit_operations_syntax

section \<open>Data\<close>

abbreviation CPU_ERROR :: u16 where "CPU_ERROR \<equiv> 0x0000"
abbreviation CPU_SUCCESS :: u16 where "CPU_SUCCESS \<equiv> 0x0001"
abbreviation CPU_NO_LONG_MODE :: u16 where "CPU_NO_LONG_MODE \<equiv> 0x0002"
abbreviation CPU_NO_FPU :: u16 where "CPU_NO_FPU \<equiv> 0x0003"
abbreviation CPU_NO_APIC :: u16 where "CPU_NO_APIC \<equiv> 0x0004"
abbreviation CPU_NO_MSR :: u16 where "CPU_NO_MSR \<equiv> 0x0005"

record CPU =
  manufacturer :: "u8 list"
  stepping_id :: "4 word"
  cpu_type :: "2 word"
  model_id :: u16
  family_id :: u16
  brand :: "u8 list"
  hyperthreading :: u8
  physical_cores :: u8
  logical_cores :: u8

text \<open>The structure in memory: 13 bytes, a byte with the two bit-fields, two 16-bit numbers,
  49 bytes and three bytes.\<close>

definition cpu_at :: "mem \<Rightarrow> ptr \<Rightarrow> CPU" where
  "cpu_at m p = \<lparr>manufacturer = bytes_at m p 13, stepping_id = field_at 0 (load8 m (p + 13)),
     cpu_type = field_at 4 (load8 m (p + 13)), model_id = load16 m (p + 14),
     family_id = load16 m (p + 16), brand = bytes_at m (p + 18) 49,
     hyperthreading = load8 m (p + 67), physical_cores = load8 m (p + 68),
     logical_cores = load8 m (p + 69)\<rparr>"

text \<open>Assignments to the two bit-fields.\<close>

definition set_stepping_id :: "ptr \<Rightarrow> 4 word \<Rightarrow> mem \<Rightarrow> mem" where
  "set_stepping_id p v m =
     store8 (p + 13) ((load8 m (p + 13) AND NOT 0x0f) OR at_field 0 v) m"

definition set_cpu_type :: "ptr \<Rightarrow> 2 word \<Rightarrow> mem \<Rightarrow> mem" where
  "set_cpu_type p v m =
     store8 (p + 13) ((load8 m (p + 13) AND NOT 0x30) OR at_field 4 v) m"

section \<open>Operations\<close>

text \<open>The result is the status; each step is one of the early returns of \<^verbatim>\<open>_check_cpu_state\<close>.\<close>

definition check_cpu_features :: "cpuid \<Rightarrow> u16" where
  "check_cpu_features cpuid =
     (let (_, _, _, edx) = cpuid 0x1 in
      if test_bit_k edx 0 = 0 then CPU_NO_FPU
      else if test_bit_k edx 5 = 0 then CPU_NO_MSR
      else if test_bit_k edx 9 = 0 then CPU_NO_APIC
      else let (_, _, _, edx) = cpuid 0x80000001 in
        if test_bit_k edx 29 = 0 then CPU_NO_LONG_MODE else CPU_SUCCESS)"

text \<open>
  \<^verbatim>\<open>memcpy\<close> of a 32-bit variable into the structure is a 32-bit store. \<^verbatim>\<open>_get_cpu_brand\<close> passes
  \<^verbatim>\<open>&edx\<close> for the third register and \<^verbatim>\<open>&ecx\<close> for the fourth.
\<close>

definition brand_part :: "cpuid \<Rightarrow> u32 \<Rightarrow> ptr \<Rightarrow> mem \<Rightarrow> mem" where
  "brand_part cpuid leaf dst m =
     (let (eax, ebx, edx, ecx) = cpuid leaf
      in store32 (dst + 12) ecx (store32 (dst + 8) edx (store32 (dst + 4) ebx (store32 dst eax m))))"

definition get_cpu_brand :: "cpuid \<Rightarrow> ptr \<Rightarrow> mem \<Rightarrow> mem" where
  "get_cpu_brand cpuid p m =
     store8 (p + 18 + 48) 0
       (brand_part cpuid 0x80000004 (p + 18 + 32)
         (brand_part cpuid 0x80000003 (p + 18 + 16)
           (brand_part cpuid 0x80000002 (p + 18) m)))"

text \<open>The numbers that \<^verbatim>\<open>CPU_init\<close> takes from \<^verbatim>\<open>eax\<close>, shifting it as it goes.\<close>

definition cpu_numbers :: "u32 \<Rightarrow> ptr \<Rightarrow> mem \<Rightarrow> mem" where
  "cpu_numbers eax1 p m =
     (let m2 = set_stepping_id p (ucast (eax1 AND 0xf)) m;
          eax2 = drop_bit 4 eax1;
          m3 = store16 (p + 14) (ucast (eax2 AND 0xf)) m2;
          eax3 = drop_bit 4 eax2;
          m4 = store16 (p + 16) (ucast (eax3 AND 0xf)) m3;
          eax4 = drop_bit 4 eax3;
          m5 = set_cpu_type p (ucast (eax4 AND 0x3)) m4;
          eax5 = drop_bit 4 eax4;
          m6 = (if load16 m5 (p + 14) = 0xf
                then store16 (p + 14) (load16 m5 (p + 14) + ucast (eax5 AND 0xf)) m5 else m5);
          eax6 = drop_bit 4 eax5
      in if load16 m6 (p + 16) = 0xf
         then store16 (p + 16) (load16 m6 (p + 16) + ucast (eax6 AND 0xff)) m6 else m6)"

definition CPU_init :: "cpuid \<Rightarrow> ptr \<Rightarrow> mem \<Rightarrow> mem" where
  "CPU_init cpuid p m =
     (let (_, ebx0, ecx0, edx0) = cpuid 0x0;
          m1 = store8 (p + 12) 0 (store32 (p + 8) ecx0 (store32 (p + 4) edx0 (store32 p ebx0 m)));
          (eax, ebx, _, edx) = cpuid 0x1;
          m2 = cpu_numbers eax p m1;
          m3 = get_cpu_brand cpuid p m2;
          m4 = store8 (p + 69) (ucast (drop_bit 16 ebx AND 0xff)) m3;
          m5 = store8 (p + 67) (ucast (test_bit_k edx 28)) m4;
          (_, _, ecx, _) = cpuid 0x80000008;
          m6 = store8 (p + 68) (ucast ecx) m5
      in store8 (p + 68) (load8 m6 (p + 68) + 1) m6)"

section \<open>Stores at offsets of a structure\<close>

lemma store32_at_offset:
  "store32 (p + a) v m (p + b)
    = (if unat (b - a) < 4 then ucast (drop_bit (8 * unat (b - a)) v) else m (p + b))"
proof -
  have "p + b - (p + a) = b - a" by simp
  then have "store32 (p + a) v m (p + b)
      = (if unat (b - a) < 4 then ucast (drop_bit (8 * unat (b - a)) (ucast v :: u64)) else m (p + b))"
    by (simp only: store32_def store_le_apply region_iff)
  moreover have "(ucast (drop_bit k (ucast v :: u64)) :: u8) = ucast (drop_bit k v)" if "k \<le> 24" for k
    using that by (intro bit_word_eqI) (auto simp: bit_simps)
  ultimately show ?thesis by simp
qed

lemma store16_at_offset:
  "store16 (p + a) v m (p + b)
    = (if unat (b - a) < 2 then ucast (drop_bit (8 * unat (b - a)) v) else m (p + b))"
proof -
  have "p + b - (p + a) = b - a" by simp
  then have "store16 (p + a) v m (p + b)
      = (if unat (b - a) < 2 then ucast (drop_bit (8 * unat (b - a)) (ucast v :: u64)) else m (p + b))"
    by (simp only: store16_def store_le_apply region_iff)
  moreover have "(ucast (drop_bit k (ucast v :: u64)) :: u8) = ucast (drop_bit k v)" if "k \<le> 8" for k
    using that by (intro bit_word_eqI) (auto simp: bit_simps)
  ultimately show ?thesis by simp
qed

lemma store8_at_offset: "store8 (p + a) v m (p + b) = (if a = b then v else m (p + b))"
  by (auto simp: store8_apply)

lemmas at_offset = store32_at_offset store16_at_offset store8_at_offset
  store32_at_offset [of _ 0, simplified] store32_at_offset [where b = 0, simplified]
  store16_at_offset [where b = 0, simplified] store8_at_offset [where b = 0, simplified]

text \<open>A 16-bit number is its two bytes.\<close>

lemma load16_bytes: "load16 m (p + a) = ucast (m (p + a)) OR push_bit 8 (ucast (m (p + (a + 1))))"
proof -
  have "p + a + 1 = p + (a + 1)" by simp
  then have "load16 m (p + a) = ucast (ucast (m (p + a)) OR push_bit 8 (ucast (m (p + (a + 1)))) :: u64)"
    by (simp only: load16_def numeral_2_eq_2 load_le.simps push_bit_of_0 or.right_neutral)
  also have "\<dots> = ucast (m (p + a)) OR push_bit 8 (ucast (m (p + (a + 1))))"
    by (rule bit_word_eqI) (auto simp: bit_simps)
  finally show ?thesis .
qed

lemma join16: "ucast (ucast v :: u8) OR push_bit 8 (ucast (ucast (drop_bit 8 v) :: u8)) = (v :: u16)"
proof (rule bit_word_eqI)
  fix n assume "n < LENGTH(16)"
  then show "bit (ucast (ucast v :: u8) OR push_bit 8 (ucast (ucast (drop_bit 8 v) :: u8)) :: u16) n
      \<longleftrightarrow> bit v n"
    by (cases "n < 8") (auto simp: bit_simps)
qed

section \<open>The bytes of the structure\<close>

definition word_bytes :: "u32 \<Rightarrow> u8 list" where
  "word_bytes v = map (\<lambda>i. ucast (drop_bit (8 * i) v)) [0..<4]"

definition regs_bytes :: "u32 \<times> u32 \<times> u32 \<times> u32 \<Rightarrow> u8 list" where
  "regs_bytes r = (let (a, b, c, d) = r in word_bytes a @ word_bytes b @ word_bytes c @ word_bytes d)"

lemma length_word_bytes [simp]: "length (word_bytes v) = 4"
  by (simp add: word_bytes_def)

lemma length_regs_bytes [simp]: "length (regs_bytes r) = 16"
  by (simp add: regs_bytes_def split: prod.splits)

lemma nth_word_bytes: "i < 4 \<Longrightarrow> word_bytes v ! i = ucast (drop_bit (8 * i) v)"
  by (simp add: word_bytes_def)

lemma brand_part_at:
  "brand_part cpuid leaf (p + a) m (p + b)
    = (if unat (b - a) < 16 then regs_bytes (cpuid leaf) ! unat (b - a) else m (p + b))"
proof -
  obtain ra rb rc rd where r: "cpuid leaf = (ra, rb, rc, rd)" by (cases "cpuid leaf")
  define u where "u = unat (b - a)"
  have s: "store32 (p + a + word_of_nat k) v m' (p + b)
      = (if k \<le> u \<and> u < k + 4 then word_bytes v ! (u - k) else m' (p + b))"
    if "k \<le> 12" for k v and m' :: mem
  proof -
    have k: "unat (word_of_nat k :: u64) = k" using that by (simp add: unat_of_nat_small)
    have ba: "b - (a + word_of_nat k) = (b - a) - word_of_nat k" by simp
    have st: "store32 (p + a + word_of_nat k) v m' (p + b)
        = (if unat (b - (a + word_of_nat k)) < 4
           then ucast (drop_bit (8 * unat (b - (a + word_of_nat k))) v) else m' (p + b))"
      by (simp only: add.assoc store32_at_offset)
    show ?thesis
    proof (cases "k \<le> u")
      case True
      then have "unat (b - (a + word_of_nat k)) = u - k"
        unfolding ba u_def using k by (simp add: unat_sub_if')
      then show ?thesis unfolding st using True by (auto simp: nth_word_bytes)
    next
      case False
      then have "unat (b - (a + word_of_nat k)) = 2 ^ 64 + u - k"
        unfolding ba u_def using k by (simp add: unat_sub_if')
      moreover have "\<not> 2 ^ 64 + u - k < 4" using that by simp
      ultimately show ?thesis unfolding st using False by (simp only: if_False) simp
    qed
  qed
  have "brand_part cpuid leaf (p + a) m (p + b)
      = (if 12 \<le> u \<and> u < 16 then word_bytes rd ! (u - 12)
         else if 8 \<le> u \<and> u < 12 then word_bytes rc ! (u - 8)
         else if 4 \<le> u \<and> u < 8 then word_bytes rb ! (u - 4)
         else if u < 4 then word_bytes ra ! u else m (p + b))"
    using s [of 12] s [of 8] s [of 4] s [of 0] by (simp add: brand_part_def r)
  also have "\<dots> = (if u < 16 then regs_bytes (cpuid leaf) ! u else m (p + b))"
    by (auto simp: regs_bytes_def r nth_append)
  finally show ?thesis unfolding u_def .
qed

lemma get_cpu_brand_at:
  assumes "b \<le> 2 ^ 16"
  shows "get_cpu_brand cpuid p m (p + word_of_nat b)
    = (if 18 \<le> b \<and> b < 67
       then (regs_bytes (cpuid 0x80000002) @ regs_bytes (cpuid 0x80000003) @ regs_bytes (cpuid 0x80000004) @ [0])
            ! (b - 18)
       else m (p + word_of_nat b))"
proof -
  have u: "unat (word_of_nat b - word_of_nat k :: u64) = (if k \<le> b then b - k else 2 ^ 64 + b - k)"
    if "k \<le> 100" for k
  proof (cases "k \<le> b")
    case True
    then have "word_of_nat b - word_of_nat k = (word_of_nat (b - k) :: u64)"
      by (simp add: of_nat_diff)
    moreover have "unat (word_of_nat (b - k) :: u64) = b - k"
      using assms by (intro unat_of_nat_small) simp
    ultimately show ?thesis using True by (simp only: if_True)
  next
    case False
    then have "unat (word_of_nat b - word_of_nat k :: u64) = 2 ^ 64 + b - k"
      using that by (simp add: unat_sub_if' unat_of_nat_small)
    with False show ?thesis by simp
  qed
  have e: "word_of_nat b = (66 :: u64) \<longleftrightarrow> b = 66"
    using assms by (simp add: word_of_nat_eq_iff_unat)
  have part: "brand_part cpuid leaf (p + word_of_nat k) m' (p + word_of_nat b)
      = (if k \<le> b \<and> b < k + 16 then regs_bytes (cpuid leaf) ! (b - k) else m' (p + word_of_nat b))"
    if "k \<le> 100" for leaf k and m' :: mem
    unfolding brand_part_at u [OF that] using that by auto
  have "get_cpu_brand cpuid p m (p + word_of_nat b)
      = (if b = 66 then 0 else if 50 \<le> b \<and> b < 66 then regs_bytes (cpuid 0x80000004) ! (b - 50)
         else if 34 \<le> b \<and> b < 50 then regs_bytes (cpuid 0x80000003) ! (b - 34)
         else if 18 \<le> b \<and> b < 34 then regs_bytes (cpuid 0x80000002) ! (b - 18)
         else m (p + word_of_nat b))"
    using part [of 50 "0x80000004"] part [of 34 "0x80000003"] part [of 18 "0x80000002"]
    by (simp add: get_cpu_brand_def add.assoc store8_apply e)
  also have "\<dots> = (if 18 \<le> b \<and> b < 67
       then (regs_bytes (cpuid 0x80000002) @ regs_bytes (cpuid 0x80000003) @ regs_bytes (cpuid 0x80000004) @ [0])
            ! (b - 18)
       else m (p + word_of_nat b))"
    by (auto simp: nth_append)
  finally show ?thesis .
qed

lemma get_cpu_brand_outside:
  "unat b < 18 \<or> 67 \<le> unat b \<and> unat b \<le> 2 ^ 16 \<Longrightarrow> get_cpu_brand cpuid p m (p + b) = m (p + b)"
  using get_cpu_brand_at [of "unat b" cpuid p m] by auto

lemma load16_cong_bytes:
  "m' (p + a) = m (p + a) \<Longrightarrow> m' (p + (a + 1)) = m (p + (a + 1)) \<Longrightarrow> load16 m' (p + a) = load16 m (p + a)"
  by (simp add: load16_bytes)

lemma load16_store16_at: "load16 (store16 (p + a) v m) (p + a) = v"
  using join16 [of v] by (simp add: load16_bytes store16_at_offset)

lemma unat_minus_one64 [simp]: "unat (- 1 :: u64) = 0xffffffffffffffff"
  by (simp add: unsigned_minus_1_eq_mask mask_eq_exp_minus_1)

text \<open>The numbers.\<close>

lemma cpu_numbers_outside:
  assumes "unat b < 13 \<or> 18 \<le> unat b"
  shows "cpu_numbers eax p m (p + b) = m (p + b)"
proof -
  have away: "\<not> unat (b - 14) < 2" "\<not> unat (b - 16) < 2" "13 \<noteq> b"
    using assms by (auto simp: unat_sub_if' word_le_nat_alt split: if_splits)
  then show ?thesis
    by (simp add: cpu_numbers_def Let_def set_stepping_id_def set_cpu_type_def
        store16_at_offset store8_at_offset)
qed

lemma cpu_numbers_fields:
  "load16 (cpu_numbers eax p m) (p + 14)
    = (let n = ucast (take_bit 4 (drop_bit 4 eax)) in
       if n = 15 then n + ucast (take_bit 4 (drop_bit 16 eax)) else n)"
  "load16 (cpu_numbers eax p m) (p + 16)
    = (let n = ucast (take_bit 4 (drop_bit 8 eax)) in
       if n = 15 then n + ucast (take_bit 8 (drop_bit 20 eax)) else n)"
  "field_at 0 (load8 (cpu_numbers eax p m) (p + 13)) = (ucast eax :: 4 word)"
  "field_at 4 (load8 (cpu_numbers eax p m) (p + 13)) = (ucast (drop_bit 12 eax) :: 2 word)"
proof -
  have mask: "w AND 0xf = take_bit 4 w" "w AND 3 = take_bit 2 w" "w AND 0xff = take_bit 8 w" for w :: u32
    by (simp_all add: take_bit_eq_mask mask_eq_exp_minus_1)
  have drops: "drop_bit 4 (drop_bit 4 eax) = drop_bit 8 eax" "drop_bit 4 (drop_bit 8 eax) = drop_bit 12 eax"
    "drop_bit 4 (drop_bit 12 eax) = drop_bit 16 eax" "drop_bit 4 (drop_bit 16 eax) = drop_bit 20 eax"
    by (simp_all only: drop_bit_drop_bit) simp_all
  define v where "v = store16 (p + 16) (ucast (take_bit 4 (drop_bit 8 eax)))
      (store16 (p + 14) (ucast (take_bit 4 (drop_bit 4 eax))) (set_stepping_id p (ucast (take_bit 4 eax)) m))"
  define m5 where "m5 = set_cpu_type p (ucast (take_bit 2 (drop_bit 12 eax))) v"
  define m6 where "m6 = (if load16 m5 (p + 14) = 0xf
      then store16 (p + 14) (load16 m5 (p + 14) + ucast (take_bit 4 (drop_bit 16 eax))) m5 else m5)"
  have run: "cpu_numbers eax p m = (if load16 m6 (p + 16) = 0xf
      then store16 (p + 16) (load16 m6 (p + 16) + ucast (take_bit 8 (drop_bit 20 eax))) m6 else m6)"
    by (simp only: cpu_numbers_def Let_def mask drops m6_def m5_def v_def)
  have l14: "load16 m5 (p + 14) = ucast (take_bit 4 (drop_bit 4 eax))"
  proof -
    have "load16 m5 (p + 14) = load16 (store16 (p + 14) (ucast (take_bit 4 (drop_bit 4 eax)))
        (set_stepping_id p (ucast (take_bit 4 eax)) m)) (p + 14)"
      by (rule load16_cong_bytes)
        (simp_all add: m5_def v_def set_cpu_type_def store8_at_offset store16_at_offset)
    then show ?thesis by (simp only: load16_store16_at)
  qed
  have l16: "load16 m5 (p + 16) = ucast (take_bit 4 (drop_bit 8 eax))"
  proof -
    have "load16 m5 (p + 16) = load16 v (p + 16)"
      by (rule load16_cong_bytes) (simp_all add: m5_def set_cpu_type_def store8_at_offset)
    then show ?thesis by (simp only: v_def load16_store16_at)
  qed
  have l16': "load16 m6 (p + 16) = load16 m5 (p + 16)"
    by (rule load16_cong_bytes) (simp_all add: m6_def store16_at_offset)
  have "load16 (cpu_numbers eax p m) (p + 14) = load16 m6 (p + 14)"
    by (rule load16_cong_bytes) (simp_all add: run store16_at_offset)
  then show "load16 (cpu_numbers eax p m) (p + 14)
    = (let n = ucast (take_bit 4 (drop_bit 4 eax)) in
       if n = 15 then n + ucast (take_bit 4 (drop_bit 16 eax)) else n)"
    by (simp only: m6_def l14 Let_def load16_store16_at split: if_split) simp
  show "load16 (cpu_numbers eax p m) (p + 16)
    = (let n = ucast (take_bit 4 (drop_bit 8 eax)) in
       if n = 15 then n + ucast (take_bit 8 (drop_bit 20 eax)) else n)"
    by (simp only: run l16' l16 Let_def load16_store16_at split: if_split) simp
  have b13: "cpu_numbers eax p m (p + 13) = m5 (p + 13)"
    by (simp add: run m6_def store16_at_offset)
  have bits: "m5 (p + 13) = (((m (p + 13) AND NOT 0x0f) OR at_field 0 (ucast (take_bit 4 eax) :: 4 word))
      AND NOT 0x30) OR at_field 4 (ucast (take_bit 2 (drop_bit 12 eax)) :: 2 word)"
    by (simp add: m5_def v_def set_cpu_type_def set_stepping_id_def store8_at_offset store16_at_offset load8_def)
  have n4: "n < 4 \<longleftrightarrow> n \<in> {0, 1, 2, 3}" and n2: "n < 2 \<longleftrightarrow> n \<in> {0, 1}" for n :: nat by auto
  show "field_at 0 (load8 (cpu_numbers eax p m) (p + 13)) = (ucast eax :: 4 word)"
    unfolding load8_def b13 bits
    by (rule bit_word_eqI) (auto simp: bits_simps bit_simps n4 bit_numeral_rec)
  show "field_at 4 (load8 (cpu_numbers eax p m) (p + 13)) = (ucast (drop_bit 12 eax) :: 2 word)"
    unfolding load8_def b13 bits
    by (rule bit_word_eqI) (auto simp: bits_simps bit_simps n2 bit_numeral_rec)
qed

text \<open>The manufacturer's name, as its three registers are stored.\<close>

lemma word_bytes_list:
  "word_bytes v = [ucast v, ucast (drop_bit 8 v), ucast (drop_bit 16 v), ucast (drop_bit 24 v)]"
  by (simp add: word_bytes_def upt_rec)

lemma bytes_at_13:
  "bytes_at m p 13 = [m p, m (p + 1), m (p + 2), m (p + 3), m (p + 4), m (p + 5), m (p + 6), m (p + 7),
     m (p + 8), m (p + 9), m (p + 10), m (p + 11), m (p + 12)]"
proof -
  have "[0..<13] = [0, 1, 2, 3, 4, 5, 6, 7, 8, 9, 10, 11, 12]" by code_simp
  then show ?thesis by (simp add: bytes_at_def)
qed

lemma manufacturer_bytes:
  "bytes_at (store8 (p + 12) 0 (store32 (p + 8) vc (store32 (p + 4) vb (store32 p va m)))) p 13
    = word_bytes va @ word_bytes vb @ word_bytes vc @ [0]"
  unfolding bytes_at_13 word_bytes_list by (simp add: at_offset store32_at_offset [of p 0 va m 0, simplified])

lemma CPU_init_at:
  "CPU_init cpuid p m = store8 (p + 68) (ucast (fst (snd (snd (cpuid 0x80000008)))) + 1)
     (store8 (p + 68) (ucast (fst (snd (snd (cpuid 0x80000008)))))
       (store8 (p + 67) (ucast (test_bit_k (snd (snd (snd (cpuid 0x1)))) 28))
         (store8 (p + 69) (ucast (drop_bit 16 (fst (snd (cpuid 0x1))) AND 0xff))
           (get_cpu_brand cpuid p (cpu_numbers (fst (cpuid 0x1)) p
             (store8 (p + 12) 0 (store32 (p + 8) (fst (snd (snd (cpuid 0x0))))
               (store32 (p + 4) (snd (snd (snd (cpuid 0x0)))) (store32 p (fst (snd (cpuid 0x0))) m)))))))))"
  by (simp add: CPU_init_def Let_def case_prod_beta)

lemma CPU_init_tail:
  fixes cpuid :: cpuid and m :: mem
  defines "m1 \<equiv> \<lambda>p. store8 (p + 12) 0 (store32 (p + 8) (fst (snd (snd (cpuid 0x0))))
      (store32 (p + 4) (snd (snd (snd (cpuid 0x0)))) (store32 p (fst (snd (cpuid 0x0))) m)))"
  defines "m2 \<equiv> \<lambda>p. cpu_numbers (fst (cpuid 0x1)) p (m1 p)"
  shows "b \<noteq> 67 \<Longrightarrow> b \<noteq> 68 \<Longrightarrow> b \<noteq> 69 \<Longrightarrow> CPU_init cpuid p m (p + b) = get_cpu_brand cpuid p (m2 p) (p + b)"
    and "unat b < 18 \<Longrightarrow> CPU_init cpuid p m (p + b) = m2 p (p + b)"
    and "unat b < 13 \<Longrightarrow> CPU_init cpuid p m (p + b) = m1 p (p + b)"
proof -
  show tail: "CPU_init cpuid p m (p + b) = get_cpu_brand cpuid p (m2 p) (p + b)"
    if "b \<noteq> 67" "b \<noteq> 68" "b \<noteq> 69" for b
    using that by (simp add: CPU_init_at m2_def m1_def store8_at_offset)
  show head: "CPU_init cpuid p m (p + b) = m2 p (p + b)" if "unat b < 18" for b
    using that by (subst tail) (auto simp: get_cpu_brand_outside)
  show "CPU_init cpuid p m (p + b) = m1 p (p + b)" if "unat b < 13"
    using that head [of b] cpu_numbers_outside [of b] by (simp add: m2_def)
qed

lemma CPU_init_strings:
  "bytes_at (CPU_init cpuid p m) p 13 = word_bytes (fst (snd (cpuid 0)))
    @ word_bytes (snd (snd (snd (cpuid 0)))) @ word_bytes (fst (snd (snd (cpuid 0)))) @ [0]"
  "bytes_at (CPU_init cpuid p m) (p + 18) 49 = regs_bytes (cpuid 0x80000002)
    @ regs_bytes (cpuid 0x80000003) @ regs_bytes (cpuid 0x80000004) @ [0]" (is "_ = ?r")
proof -
  show "bytes_at (CPU_init cpuid p m) p 13 = word_bytes (fst (snd (cpuid 0)))
      @ word_bytes (snd (snd (snd (cpuid 0)))) @ word_bytes (fst (snd (snd (cpuid 0)))) @ [0]"
    unfolding manufacturer_bytes [of p _ _ _ m, symmetric]
  proof (rule nth_equalityI)
    fix i assume "i < length (bytes_at (CPU_init cpuid p m) p 13)"
    then have i: "i < 13" by simp
    then have "unat (word_of_nat i :: u64) < 13" by (simp add: unat_of_nat_small)
    from CPU_init_tail(3) [OF this] i
    show "bytes_at (CPU_init cpuid p m) p 13 ! i = bytes_at (store8 (p + 12) 0
        (store32 (p + 8) (fst (snd (snd (cpuid 0)))) (store32 (p + 4) (snd (snd (snd (cpuid 0))))
          (store32 p (fst (snd (cpuid 0))) m)))) p 13 ! i" by simp
  qed simp
  show "bytes_at (CPU_init cpuid p m) (p + 18) 49 = ?r"
  proof (rule nth_equalityI)
    fix i assume "i < length (bytes_at (CPU_init cpuid p m) (p + 18) 49)"
    then have i: "i < 49" by simp
    have o: "p + 18 + word_of_nat i = p + word_of_nat (18 + i)" by simp
    have u: "unat (word_of_nat (18 + i) :: u64) = 18 + i" using i by (intro unat_of_nat_small) simp
    then have "word_of_nat (18 + i) \<notin> {67, 68, 69 :: u64}" using i by auto
    then have "CPU_init cpuid p m (p + word_of_nat (18 + i)) = ?r ! i"
      using i by (subst CPU_init_tail(1), blast, blast, blast, subst get_cpu_brand_at) simp_all
    then show "bytes_at (CPU_init cpuid p m) (p + 18) 49 ! i = ?r ! i" using i by (simp only: nth_bytes_at o)
  qed simp
qed

lemma CPU_init_outside:
  assumes "x \<notin> region p 70"
  shows "CPU_init cpuid p m x = m x"
proof -
  define b where "b = x - p"
  have x: "x = p + b" by (simp add: b_def)
  have b: "70 \<le> unat b" using assms by (simp add: region_iff b_def)
  have br: "brand_part cpuid leaf (p + word_of_nat k) m' (p + b) = m' (p + b)" if "k \<le> 50" for leaf k and m' :: mem
  proof -
    have "unat (b - word_of_nat k) = unat b - k"
      using that b by (simp add: unat_sub_if' unat_of_nat_small)
    then have "\<not> unat (b - word_of_nat k) < 16" using that b by linarith
    then show ?thesis by (simp add: brand_part_at)
  qed
  have ne: "b \<noteq> 66" "b \<noteq> 67" "b \<noteq> 68" "b \<noteq> 69" "b \<noteq> 12" using b by auto
  have "get_cpu_brand cpuid p m' (p + b) = m' (p + b)" for m' :: mem
    using br [of 18] br [of 34] br [of 50] ne
    by (simp add: get_cpu_brand_def add.assoc store8_at_offset)
  moreover have "\<not> unat (b - 4) < 4" "\<not> unat (b - 8) < 4" "\<not> unat b < 4"
    using b by (simp_all add: unat_sub_if')
  ultimately show ?thesis
    unfolding x CPU_init_at using ne b cpu_numbers_outside [of b]
    by (simp add: at_offset)
qed

section \<open>Properties\<close>

text \<open>C19. \<^verbatim>\<open>CPU_init\<close> (cpu.c) fills the structure from the \<^verbatim>\<open>cpuid\<close> leaves: the name of the
  manufacturer from \<^verbatim>\<open>ebx\<close>, \<^verbatim>\<open>edx\<close>, \<^verbatim>\<open>ecx\<close> of leaf 0, the brand from leaves \<open>0x80000002\<close> to
  \<open>0x80000004\<close> in register order, both terminated; stepping, model, family (the extended parts
  added where the short ones are 15) and type from leaf 1; the logical cores from its \<^verbatim>\<open>ebx\<close>, the
  physical ones from leaf \<open>0x80000008\<close>. The flag for hyper-threading is always 0: bit 28 is cut
  off when it is stored into a byte.\<close>

theorem CPU_init_decodes:
  "let cpu = cpu_at (CPU_init cpuid p m) p; (eax, ebx, _, _) = cpuid 1; (_, b0, c0, d0) = cpuid 0;
       model = (ucast (take_bit 4 (drop_bit 4 eax)) :: u16);
       family = (ucast (take_bit 4 (drop_bit 8 eax)) :: u16)
   in manufacturer cpu = word_bytes b0 @ word_bytes d0 @ word_bytes c0 @ [0]
    \<and> brand cpu = regs_bytes (cpuid 0x80000002) @ regs_bytes (cpuid 0x80000003)
        @ regs_bytes (cpuid 0x80000004) @ [0]
    \<and> stepping_id cpu = ucast eax \<and> cpu_type cpu = ucast (drop_bit 12 eax)
    \<and> model_id cpu = (if model = 15 then 15 + ucast (take_bit 4 (drop_bit 16 eax)) else model)
    \<and> family_id cpu = (if family = 15 then 15 + ucast (take_bit 8 (drop_bit 20 eax)) else family)
    \<and> logical_cores cpu = ucast (drop_bit 16 ebx)
    \<and> physical_cores cpu = ucast (fst (snd (snd (cpuid 0x80000008)))) + 1
    \<and> hyperthreading cpu = 0"
proof -
  obtain eax ebx ecx edx where l1: "cpuid 1 = (eax, ebx, ecx, edx)" by (cases "cpuid 1")
  obtain a0 b0 c0 d0 where l0: "cpuid 0 = (a0, b0, c0, d0)" by (cases "cpuid 0")
  define m2 where "m2 = cpu_numbers eax p
    (store8 (p + 12) 0 (store32 (p + 8) c0 (store32 (p + 4) d0 (store32 p b0 m))))"
  define m' where "m' = CPU_init cpuid p m"
  note run = CPU_init_at [of cpuid p m, folded m'_def, unfolded l0 l1 fst_conv snd_conv, folded m2_def]
  note strings = CPU_init_strings [of cpuid p m, folded m'_def, unfolded l0 fst_conv snd_conv]
  note head = CPU_init_tail(2) [of _ cpuid p m, folded m'_def, unfolded l0 l1 fst_conv snd_conv, folded m2_def]
  have nums: "load16 m' (p + 14) = load16 m2 (p + 14)" "load16 m' (p + 16) = load16 m2 (p + 16)"
    "load8 m' (p + 13) = load8 m2 (p + 13)"
    using head [of 13] head [of 14] head [of 15] head [of 16] head [of 17]
    by (simp_all add: load16_bytes load8_def)
  have "(ucast (test_bit_k edx 28) :: u8) = 0"
  proof (rule bit_word_eqI)
    fix n assume "n < LENGTH(8)"
    then have "n = 0 \<or> n = 1 \<or> n = 2 \<or> n = 3 \<or> n = 4 \<or> n = 5 \<or> n = 6 \<or> n = 7" by auto
    then have "\<not> bit (0x10000000 :: u32) n" by auto
    then show "bit (ucast (test_bit_k edx 28) :: u8) n \<longleftrightarrow> bit (0 :: u8) n"
      by (auto simp: test_bit_k_def bit_simps)
  qed
  moreover have "(ucast (drop_bit 16 ebx AND 0xff) :: u8) = ucast (drop_bit 16 ebx)"
  proof -
    have "drop_bit 16 ebx AND 0xff = take_bit 8 (drop_bit 16 ebx)"
      by (simp add: take_bit_eq_mask mask_eq_exp_minus_1)
    then show ?thesis by (simp only:) (rule bit_word_eqI, auto simp: bit_simps)
  qed
  ultimately have "load8 m' (p + 67) = 0" "load8 m' (p + 69) = ucast (drop_bit 16 ebx)"
    "load8 m' (p + 68) = ucast (fst (snd (snd (cpuid 0x80000008)))) + 1"
    by (simp_all add: run load8_def store8_at_offset)
  then show ?thesis
    using strings cpu_numbers_fields [of eax p, folded m2_def]
    by (simp add: Let_def l0 l1 m'_def [symmetric] cpu_at_def nums m2_def)
qed


end
