(* ===== verification/Gdt.thy ===== *)
theory Gdt
  imports Machine Bitfields
begin

text \<open>
  Segmentation, \<^verbatim>\<open>src/src/gdt/gdt.c\<close>, \<^verbatim>\<open>gdt.h\<close> and \<^verbatim>\<open>gdt.asm\<close>: the descriptor table of the flat
  model, loading it, and what the processor makes of its descriptors.
\<close>

unbundle bit_operations_syntax

section \<open>Data\<close>

abbreviation KERNEL_CODE_SEGMENT_SELECTOR :: u16 where "KERNEL_CODE_SEGMENT_SELECTOR \<equiv> 8"
abbreviation KERNEL_DATA_SEGMENT_SELECTOR :: u16 where "KERNEL_DATA_SEGMENT_SELECTOR \<equiv> 16"
abbreviation USER_CODE_SEGMENT_SELECTOR :: u16 where "USER_CODE_SEGMENT_SELECTOR \<equiv> 24"
abbreviation USER_DATA_SEGMENT_SELECTOR :: u16 where "USER_DATA_SEGMENT_SELECTOR \<equiv> 32"

record GDTR =
  gdtr_size :: u16
  gdtr_offset :: ptr

record GDT_SegmentDescriptor =
  limit0 :: u16
  base0 :: u16
  base1 :: u8
  flags1 :: u8
  limit1_flags2 :: u8
  base2 :: u8

record GDT =
  gdt_null :: GDT_SegmentDescriptor
  gdt_kernel_code :: GDT_SegmentDescriptor
  gdt_kernel_data :: GDT_SegmentDescriptor
  gdt_user_code :: GDT_SegmentDescriptor
  gdt_user_data :: GDT_SegmentDescriptor

text \<open>\<^verbatim>\<open>sizeof(GDT)\<close>: five packed descriptors of eight bytes.\<close>

abbreviation GDT_sz :: u16 where "GDT_sz \<equiv> 40"

text \<open>The packed descriptor as the 64-bit word the processor reads.\<close>

definition lay_descriptor :: "GDT_SegmentDescriptor \<Rightarrow> u64" where
  "lay_descriptor d = at_field 0 (limit0 d) OR at_field 16 (base0 d) OR at_field 32 (base1 d)
     OR at_field 40 (flags1 d) OR at_field 48 (limit1_flags2 d) OR at_field 56 (base2 d)"

definition read_descriptor :: "u64 \<Rightarrow> GDT_SegmentDescriptor" where
  "read_descriptor w = \<lparr>limit0 = field_at 0 w, base0 = field_at 16 w, base1 = field_at 32 w,
     flags1 = field_at 40 w, limit1_flags2 = field_at 48 w, base2 = field_at 56 w\<rparr>"

lemma read_lay_descriptor: "read_descriptor (lay_descriptor d) = d"
  by (simp add: read_descriptor_def lay_descriptor_def field_simps_bits)

lemma lay_read_descriptor: "lay_descriptor (read_descriptor w) = w"
  by (simp add: read_descriptor_def lay_descriptor_def relay_simps)

section \<open>The table\<close>

definition gdt :: GDT where
  "gdt = \<lparr>
     gdt_null = \<lparr>limit0 = 0x0, base0 = 0x0, base1 = 0x0, flags1 = 0x0, limit1_flags2 = 0x0, base2 = 0x0\<rparr>,
     gdt_kernel_code = \<lparr>limit0 = 0x0, base0 = 0x0, base1 = 0x0, flags1 = 0x9a, limit1_flags2 = 0xa0, base2 = 0x0\<rparr>,
     gdt_kernel_data = \<lparr>limit0 = 0x0, base0 = 0x0, base1 = 0x0, flags1 = 0x92, limit1_flags2 = 0xa0, base2 = 0x0\<rparr>,
     gdt_user_code = \<lparr>limit0 = 0x0, base0 = 0x0, base1 = 0x0, flags1 = 0x9a, limit1_flags2 = 0xa0, base2 = 0x0\<rparr>,
     gdt_user_data = \<lparr>limit0 = 0x0, base0 = 0x0, base1 = 0x0, flags1 = 0x92, limit1_flags2 = 0xa0, base2 = 0x0\<rparr>\<rparr>"

text \<open>The descriptors in the order of the packed structure.\<close>

definition gdt_words :: "GDT \<Rightarrow> u64 list" where
  "gdt_words g = map lay_descriptor
     [gdt_null g, gdt_kernel_code g, gdt_kernel_data g, gdt_user_code g, gdt_user_data g]"

text \<open>\<open>gdt_addr\<close> is \<^verbatim>\<open>&gdt\<close>.\<close>

definition gdtr_init :: "ptr \<Rightarrow> GDTR" where
  "gdtr_init gdt_addr = \<lparr>gdtr_size = GDT_sz - 1, gdtr_offset = gdt_addr\<rparr>"

text \<open>
  The assembly routine: \<^verbatim>\<open>lgdt\<close>, the selector \<open>0x10\<close> into the five data segment registers, and a
  far return that loads \<open>0x08\<close> into the code segment register.
\<close>

definition load_gdt :: "GDTR \<Rightarrow> registers \<Rightarrow> registers" where
  "load_gdt g r = r\<lparr>gdtr := (gdtr_size g, gdtr_offset g), data_segments := 0x10, code_segment := 0x08\<rparr>"

definition init_gdt :: "ptr \<Rightarrow> registers \<Rightarrow> registers \<times> ptr" where
  "init_gdt gdt_addr r = (load_gdt (gdtr_init gdt_addr) r, gdt_addr)"

section \<open>What the processor reads\<close>

text \<open>
  A selector names the descriptor at eight times its upper 13 bits, which must lie within the
  limit of the table register; the descriptor's attributes are single bits of its word.
\<close>

definition selected :: "u16 \<times> ptr \<Rightarrow> u64 list \<Rightarrow> u16 \<Rightarrow> u64 option" where
  "selected g ws sel =
     (let k = unat (drop_bit 3 sel) in
      if 8 * k + 7 \<le> unat (fst g) \<and> k < length ws then Some (ws ! k) else None)"

definition seg_present :: "u64 \<Rightarrow> bool" where "seg_present w = bit w 47"
definition seg_dpl :: "u64 \<Rightarrow> 2 word" where "seg_dpl w = field_at 45 w"
definition seg_code :: "u64 \<Rightarrow> bool" where "seg_code w = (bit w 44 \<and> bit w 43)"
definition seg_writable :: "u64 \<Rightarrow> bool" where "seg_writable w = (bit w 44 \<and> \<not> bit w 43 \<and> bit w 41)"
definition seg_long :: "u64 \<Rightarrow> bool" where "seg_long w = (bit w 53 \<and> \<not> bit w 54)"

section \<open>Properties\<close>

text \<open>C38. After \<^verbatim>\<open>init_gdt\<close> (gdt.c, gdt.asm) the code segment register selects a present 64-bit
  code segment and the data segment registers a present writable data segment, both of
  privilege 0; the segments meant for user code and data are within the table too, and they
  also have privilege 0, so that no code outside the kernel's ring can use them.\<close>

theorem init_gdt_flat:
  "let r' = fst (init_gdt gdt_addr r); get = selected (gdtr r') (gdt_words gdt) in
   gdtr r' = (39, gdt_addr)
   \<and> (\<exists>c d. get (code_segment r') = Some c \<and> seg_present c \<and> seg_code c \<and> seg_long c \<and> seg_dpl c = 0
        \<and> get (data_segments r') = Some d \<and> seg_present d \<and> seg_writable d \<and> seg_dpl d = 0
        \<and> get USER_CODE_SEGMENT_SELECTOR = Some c \<and> get USER_DATA_SEGMENT_SELECTOR = Some d)
   \<and> get 0 = Some 0 \<and> get 40 = None"
proof -
  have w: "gdt_words gdt = [0, 0xa09a0000000000, 0xa0920000000000, 0xa09a0000000000, 0xa0920000000000]"
    by code_simp
  have c: "seg_present 0xa09a0000000000 \<and> seg_code 0xa09a0000000000 \<and> seg_long 0xa09a0000000000
      \<and> seg_dpl 0xa09a0000000000 = 0"
    and d: "seg_present 0xa0920000000000 \<and> seg_writable 0xa0920000000000 \<and> seg_dpl 0xa0920000000000 = 0"
    by code_simp+
  show ?thesis
    using c d by (simp add: init_gdt_def load_gdt_def gdtr_init_def selected_def w Let_def)
qed

end
