(* ===== verification/Idt.thy ===== *)
theory Idt
  imports Gdt
begin

text \<open>
  The interrupt descriptor table, \<^verbatim>\<open>src/src/idt/idt.c\<close> and \<^verbatim>\<open>idt.h\<close>: its gates as 128-bit words, the
  routine that fills in one gate, and the two gates the kernel installs.
\<close>

unbundle bit_operations_syntax

section \<open>Data\<close>

abbreviation ALL_IDT_ENTRIES :: u16 where "ALL_IDT_ENTRIES \<equiv> 256"
abbreviation INTERRUPT_GATE :: u8 where "INTERRUPT_GATE \<equiv> 14"
abbreviation TRAP_GATE :: u8 where "TRAP_GATE \<equiv> 15"
abbreviation DIVIDE_BY_ZERO_INDEX :: u8 where "DIVIDE_BY_ZERO_INDEX \<equiv> 0"
abbreviation PAGE_FAULT_INDEX :: u8 where "PAGE_FAULT_INDEX \<equiv> 14"

record IDT_DescriptionEntry =
  idt_offset1 :: u16
  segment_selector :: u16
  idt_ist :: "3 word"
  idt_ignore1 :: "5 word"
  idt_gate_type :: "4 word"
  idt_ignore2 :: "1 word"
  idt_dpl :: "2 word"
  idt_present :: "1 word"
  idt_offset2 :: u16
  idt_offset3 :: u32
  idt_reserved1 :: u32

definition lay_IDT_entry :: "IDT_DescriptionEntry \<Rightarrow> 128 word" where
  "lay_IDT_entry e = at_field 0 (idt_offset1 e) OR at_field 16 (segment_selector e)
     OR at_field 32 (idt_ist e) OR at_field 35 (idt_ignore1 e) OR at_field 40 (idt_gate_type e)
     OR at_field 44 (idt_ignore2 e) OR at_field 45 (idt_dpl e) OR at_field 47 (idt_present e)
     OR at_field 48 (idt_offset2 e) OR at_field 64 (idt_offset3 e) OR at_field 96 (idt_reserved1 e)"

definition read_IDT_entry :: "128 word \<Rightarrow> IDT_DescriptionEntry" where
  "read_IDT_entry w = \<lparr>idt_offset1 = field_at 0 w, segment_selector = field_at 16 w,
     idt_ist = field_at 32 w, idt_ignore1 = field_at 35 w, idt_gate_type = field_at 40 w,
     idt_ignore2 = field_at 44 w, idt_dpl = field_at 45 w, idt_present = field_at 47 w,
     idt_offset2 = field_at 48 w, idt_offset3 = field_at 64 w, idt_reserved1 = field_at 96 w\<rparr>"

lemma read_lay_IDT_entry: "read_IDT_entry (lay_IDT_entry e) = e"
  by (simp add: read_IDT_entry_def lay_IDT_entry_def field_simps_bits)

lemma lay_read_IDT_entry: "lay_IDT_entry (read_IDT_entry w) = w"
  by (simp add: read_IDT_entry_def lay_IDT_entry_def relay_simps)

record IDTR =
  idtr_limit :: u16
  idtr_base_addr :: ptr

text \<open>The table has 256 gates, one for each value of the 8-bit index.\<close>

type_synonym idt_table = "u8 \<Rightarrow> IDT_DescriptionEntry"

section \<open>Operations\<close>

definition set_idt_entry :: "u8 \<Rightarrow> u8 \<Rightarrow> ptr \<Rightarrow> u16 \<Rightarrow> idt_table \<Rightarrow> idt_table" where
  "set_idt_entry gate_type idt_index handler selector idt =
     (let e1 = (idt idt_index)\<lparr>idt_present := 1\<rparr>;
          e2 = e1\<lparr>idt_gate_type := ucast gate_type\<rparr>;
          e3 = e2\<lparr>segment_selector := selector\<rparr>;
          offset = handler;
          e4 = e3\<lparr>idt_offset1 := ucast (offset AND 0xffff)\<rparr>;
          offset' = drop_bit 16 offset;
          e5 = e4\<lparr>idt_offset2 := ucast (offset' AND 0xffff)\<rparr>;
          offset'' = drop_bit 16 offset';
          e6 = e5\<lparr>idt_offset3 := ucast (offset'' AND 0xffffffff)\<rparr>
      in idt(idt_index := e6))"

text \<open>
  \<open>page_fault\<close> and \<open>divide_handler\<close> are the addresses of the handlers, \<open>idt_addr\<close> that of the table;
  \<^verbatim>\<open>sizeof(IDT_DescriptionEntry)\<close> is 16.
\<close>

definition init_idt :: "ptr \<Rightarrow> ptr \<Rightarrow> ptr \<Rightarrow> idt_table \<times> registers \<Rightarrow> (idt_table \<times> registers) \<times> ptr" where
  "init_idt page_fault divide_handler idt_addr st =
     (let (idt, r) = st;
          idt1 = set_idt_entry INTERRUPT_GATE PAGE_FAULT_INDEX page_fault KERNEL_CODE_SEGMENT_SELECTOR idt;
          idt2 = set_idt_entry TRAP_GATE DIVIDE_BY_ZERO_INDEX divide_handler KERNEL_CODE_SEGMENT_SELECTOR idt1;
          limit = 16 * ALL_IDT_ENTRIES;
          reg = \<lparr>idtr_limit = limit, idtr_base_addr = idt_addr\<rparr>
      in ((idt2, r\<lparr>idtr := (idtr_limit reg, idtr_base_addr reg)\<rparr>), idt_addr))"

section \<open>What the processor does with a gate\<close>

text \<open>
  An interrupt goes through a gate that is present and within the limit: to the handler whose
  address the gate's three offsets spell, in the selected code segment, with interrupts masked
  if the gate is an interrupt gate.
\<close>

definition gate_offset :: "128 word \<Rightarrow> ptr" where
  "gate_offset w = ucast (take_bit 16 w) OR push_bit 16 (ucast (take_bit 16 (drop_bit 48 w)))
     OR push_bit 32 (ucast (take_bit 32 (drop_bit 64 w)))"

definition dispatch :: "u16 \<times> ptr \<Rightarrow> idt_table \<Rightarrow> u8 \<Rightarrow> (ptr \<times> u16 \<times> bool) option" where
  "dispatch reg idt vector =
     (let w = lay_IDT_entry (idt vector);
          gate = (field_at 40 w :: 4 word)
      in if 16 * unat vector + 15 \<le> unat (fst reg) \<and> bit w 47 \<and> (gate = 14 \<or> gate = 15)
         then Some (gate_offset w, field_at 16 w, gate = 14) else None)"

lemma gate_offset_fields:
  "gate_offset (lay_IDT_entry e)
    = ucast (idt_offset1 e) OR push_bit 16 (ucast (idt_offset2 e)) OR push_bit 32 (ucast (idt_offset3 e))"
proof -
  let ?w = "lay_IDT_entry e"
  have "(ucast (take_bit 16 ?w) :: u64) = ucast (field_at 0 ?w :: u16)"
    "(ucast (take_bit 16 (drop_bit 48 ?w)) :: u64) = ucast (field_at 48 ?w :: u16)"
    "(ucast (take_bit 32 (drop_bit 64 ?w)) :: u64) = ucast (field_at 64 ?w :: u32)"
    by (rule bit_word_eqI; auto simp: bits_simps bit_simps)+
  moreover have "(field_at 0 ?w :: u16) = idt_offset1 e" "(field_at 48 ?w :: u16) = idt_offset2 e"
    "(field_at 64 ?w :: u32) = idt_offset3 e"
    by (simp_all add: lay_IDT_entry_def field_simps_bits)
  ultimately show ?thesis by (simp add: gate_offset_def)
qed

lemma split_offset:
  fixes h :: u64
  shows "ucast (ucast (h AND 0xffff) :: u16) OR push_bit 16 (ucast (ucast (drop_bit 16 h AND 0xffff) :: u16))
    OR push_bit 32 (ucast (ucast (drop_bit 16 (drop_bit 16 h) AND 0xffffffff) :: u32)) = h"
proof -
  have mask: "h' AND 0xffff = take_bit 16 h'" "h' AND 0xffffffff = take_bit 32 h'" for h' :: u64
    by (simp_all add: take_bit_eq_mask mask_eq_exp_minus_1)
  show ?thesis unfolding mask
  proof (rule bit_word_eqI)
    fix n assume "n < LENGTH(64)"
    then show "bit (ucast (ucast (take_bit 16 h) :: u16) OR push_bit 16 (ucast (ucast (take_bit 16 (drop_bit 16 h)) :: u16))
      OR push_bit 32 (ucast (ucast (take_bit 32 (drop_bit 16 (drop_bit 16 h))) :: u32)) :: u64) n \<longleftrightarrow> bit h n"
      by (cases "n < 16"; cases "n < 32") (auto simp: bit_simps)
  qed
qed

text \<open>A gate that was set dispatches to its handler; the other gates are as they were.\<close>

lemma set_idt_entry_dispatch:
  assumes "16 * unat vector + 15 \<le> unat (fst reg)" "gate_type = 14 \<or> gate_type = 15"
  shows "dispatch reg (set_idt_entry gate_type i handler selector idt) vector
    = (if vector = i then Some (handler, selector, gate_type = 14) else dispatch reg idt vector)"
proof (cases "vector = i")
  case True
  let ?e = "set_idt_entry gate_type i handler selector idt i"
  have g: "(field_at 40 (lay_IDT_entry ?e) :: 4 word) = ucast gate_type"
    "(field_at 16 (lay_IDT_entry ?e) :: u16) = selector"
    "(field_at 47 (lay_IDT_entry ?e) :: 1 word) = 1"
    by (simp_all add: lay_IDT_entry_def field_simps_bits set_idt_entry_def Let_def)
  have "bit (lay_IDT_entry ?e) 47 \<longleftrightarrow> bit (field_at 47 (lay_IDT_entry ?e) :: 1 word) 0"
    by (simp add: bits_simps)
  then have p: "bit (lay_IDT_entry ?e) 47" unfolding g(3) by simp
  have "gate_offset (lay_IDT_entry ?e) = handler"
    unfolding gate_offset_fields using split_offset [of handler]
    by (simp add: set_idt_entry_def Let_def)
  with True assms g p show ?thesis by (auto simp: dispatch_def Let_def)
next
  case False
  then show ?thesis by (simp add: dispatch_def set_idt_entry_def Let_def)
qed

lemma init_idt_vectors:
  "dispatch (4096, a) (fst (fst (init_idt page_fault divide_handler idt_addr (idt, r)))) vector
    = (if vector = DIVIDE_BY_ZERO_INDEX then Some (divide_handler, 8, False)
       else if vector = PAGE_FAULT_INDEX then Some (page_fault, 8, True)
       else dispatch (4096, a) idt vector)"
proof -
  have "unat vector < 2 ^ 8" using unat_less_exp [of vector] by simp
  then have lim: "16 * unat vector + 15 \<le> unat (fst (4096 :: u16, a))" by simp
  from set_idt_entry_dispatch [OF lim] show ?thesis
    by (simp add: init_idt_def Let_def)
qed

section \<open>Properties\<close>

text \<open>C21. The gate that \<^verbatim>\<open>_set_idt_entry\<close> (idt.c) fills in sends its vector to the handler, at the
  full 64-bit address that the three offsets are cut from, and leaves every other vector alone;
  after \<^verbatim>\<open>init_idt\<close> a page fault reaches its handler through an interrupt gate, a division by
  zero its handler through a trap gate, both in the kernel's code segment, and every other
  vector does what it did before: nothing, for a table that was empty.\<close>

theorem init_idt_dispatch:
  "let ((idt', r'), _) = init_idt page_fault divide_handler idt_addr (idt, r) in
   dispatch (idtr r') idt' vector
    = (if vector = DIVIDE_BY_ZERO_INDEX then Some (divide_handler, 8, False)
       else if vector = PAGE_FAULT_INDEX then Some (page_fault, 8, True)
       else dispatch (4096, idt_addr) idt vector)
   \<and> dispatch (4096, idt_addr) (\<lambda>_. read_IDT_entry 0) vector = None"
proof -
  have "snd (fst (init_idt page_fault divide_handler idt_addr (idt, r))) = r\<lparr>idtr := (4096, idt_addr)\<rparr>"
    by (simp add: init_idt_def Let_def)
  moreover have "dispatch (4096, idt_addr) (\<lambda>_. read_IDT_entry 0) vector = None"
    by (simp add: dispatch_def lay_read_IDT_entry Let_def)
  ultimately show ?thesis by (simp add: case_prod_beta init_idt_vectors)
qed

end
