(* ===== verification/Kutils.thy ===== *)
theory Kutils
  imports Console_Text Pmem_Init Cpu Gdt Idt "HOL-Library.Monad_Syntax"
begin

text \<open>
  The state of the whole kernel, \<^verbatim>\<open>src/src/kernel.h\<close>, and what prints on its console: \<^verbatim>\<open>printf\<close> of
  \<^verbatim>\<open>src/src/libc/stdlib.c\<close>, the messages and \<^verbatim>\<open>kpanic\<close> of \<^verbatim>\<open>src/src/kutils.c\<close>, the report of the
  processor's state in \<^verbatim>\<open>src/src/cpu/cpu.c\<close> and the interrupt handlers of
  \<^verbatim>\<open>src/src/idt/interrupts.c\<close>.
\<close>

unbundle bit_operations_syntax

section \<open>The kernel's data\<close>

record BootloaderData =
  bd_framebuffer :: ptr
  bd_font :: ptr
  bd_memory :: ptr
  bd_acpi_rsdp :: ptr

definition bootloader_at :: "mem \<Rightarrow> ptr \<Rightarrow> BootloaderData" where
  "bootloader_at m bd = \<lparr>bd_framebuffer = load64 m bd, bd_font = load64 m (bd + 8),
     bd_memory = load64 m (bd + 16), bd_acpi_rsdp = load64 m (bd + 24)\<rparr>"

record KernelData =
  k_stack :: ptr
  k_framebuffer :: ptr
  k_memory :: ptr
  k_acpi_rsdp :: ptr
  k_console :: ptr
  k_hpet_desc :: ptr
  k_pmem :: ptr
  k_gdt :: ptr
  k_pml4 :: ptr
  k_idt :: ptr
  k_cpu :: ptr

text \<open>
  What the linker and the compiler fix: the addresses of the static objects and handlers, of the
  local arrays of \<^verbatim>\<open>Console__printf\<close> and of the string literals, and the width of the type a
  bit-field is shifted in.
\<close>

record layout =
  at_console :: ptr
  at_pmem :: ptr
  at_gdt :: ptr
  at_PML4 :: ptr
  at_idt :: ptr
  at_cpu :: ptr
  at_page_fault_handler :: ptr
  at_divide_by_zero_handler :: ptr
  printf_buf :: ptr
  printf_temp_buf :: ptr
  literal :: "string \<Rightarrow> ptr"
  shift_width :: nat

text \<open>
  The objects with a structure of their own are components of the state: the console with its
  cursor and the physical memory manager, which \<^verbatim>\<open>kernel.console\<close> and \<^verbatim>\<open>kernel.pmem\<close> point to, and
  the interrupt table. All else that pointers reach is in memory. \<open>'d\<close> is the state of the devices.
\<close>

record 'd kstate =
  ks_mem :: pstate
  ks_console :: Console
  ks_cursor :: ConsoleCursor
  ks_idt :: idt_table
  ks_regs :: registers
  ks_dev :: 'd
  ks_kernel :: KernelData

abbreviation ks_ram :: "'d kstate \<Rightarrow> mem" where "ks_ram st \<equiv> ram (ks_mem st)"
abbreviation ks_pm :: "'d kstate \<Rightarrow> PhysicalMemory" where "ks_pm st \<equiv> pm (ks_mem st)"

definition get_screen :: "'d kstate \<Rightarrow> screen" where
  "get_screen st = \<lparr>s_ram = ks_ram st, s_cursor = ks_cursor st\<rparr>"

definition set_screen :: "screen \<Rightarrow> 'd kstate \<Rightarrow> 'd kstate" where
  "set_screen s st = st\<lparr>ks_mem := (ks_mem st)\<lparr>ram := s_ram s\<rparr>, ks_cursor := s_cursor s\<rparr>"

section \<open>Printing\<close>

text \<open>\<open>fmt\<close> is the address of the format, \<open>args\<close> the variable arguments.\<close>

definition printf :: "layout \<Rightarrow> ptr \<Rightarrow> u64 list \<Rightarrow> 'd kstate \<Rightarrow> 'd kstate option" where
  "printf env fmt args st =
     map_option (\<lambda>s. set_screen s st)
       (Console__printf (k_framebuffer (ks_kernel st)) (ks_console st)
          (printf_buf env, printf_temp_buf env) fmt args (get_screen st))"

abbreviation nl :: string where "nl \<equiv> [CHR 0x0A]"
abbreviation tab :: string where "tab \<equiv> [CHR 0x09]"

abbreviation err_format :: string where "err_format \<equiv> ''[!] Kernel error: %s '' @ nl"
abbreviation succ_format :: string where "succ_format \<equiv> ''[+] Kernel success: %s '' @ nl"
abbreviation info_format :: string where "info_format \<equiv> ''[*] Kernel info: %s '' @ nl"
abbreviation cpu_err_format :: string where "cpu_err_format \<equiv> ''[!] CPU error: %s '' @ nl"

definition kprint_err :: "layout \<Rightarrow> ptr \<Rightarrow> 'd kstate \<Rightarrow> 'd kstate option" where
  "kprint_err env msg = printf env (literal env err_format) [msg]"

definition kprint_succ :: "layout \<Rightarrow> ptr \<Rightarrow> 'd kstate \<Rightarrow> 'd kstate option" where
  "kprint_succ env msg = printf env (literal env succ_format) [msg]"

definition kprint_info :: "layout \<Rightarrow> ptr \<Rightarrow> 'd kstate \<Rightarrow> 'd kstate option" where
  "kprint_info env msg = printf env (literal env info_format) [msg]"

definition print_cpu_err :: "layout \<Rightarrow> ptr \<Rightarrow> 'd kstate \<Rightarrow> 'd kstate option" where
  "print_cpu_err env str = printf env (literal env cpu_err_format) [str]"

text \<open>A number of frames as megabytes.\<close>

definition frames_MB :: "u64 \<Rightarrow> u64" where
  "frames_MB n = n * FRAME_SZ div 1024 div 1024"

definition kprint_pmem_info :: "layout \<Rightarrow> 'd kstate \<Rightarrow> 'd kstate option" where
  "kprint_pmem_info env st = do {
     st \<leftarrow> kprint_info env (literal env ''physical memory info:'') st;
     st \<leftarrow> printf env (literal env (tab @ '' free: frames = %d, memory = %dMB '' @ nl))
             [free_frames (ks_pm st), frames_MB (free_frames (ks_pm st))] st;
     st \<leftarrow> printf env (literal env (tab @ '' locked: frames = %d, memory = %dMB '' @ nl))
             [locked_frames (ks_pm st), frames_MB (locked_frames (ks_pm st))] st;
     st \<leftarrow> printf env (literal env (tab @ '' reserved: frames = %d, memory = %dMB '' @ nl))
             [reserved_frames (ks_pm st), frames_MB (reserved_frames (ks_pm st))] st;
     printf env (literal env (tab @ '' size of array: %dMB '' @ nl))
       [PhysicalMemory__get_frames_array_sz (ks_mem st) div 1024 div 1024] st
   }"

text \<open>An argument narrower than 64 bits is read as the zero-extended value.\<close>

definition kprint_cpu_info :: "layout \<Rightarrow> 'd kstate \<Rightarrow> 'd kstate option" where
  "kprint_cpu_info env st = do {
     let p = k_cpu (ks_kernel st);
     st \<leftarrow> kprint_info env (literal env ''CPU info:'') st;
     st \<leftarrow> printf env (literal env (tab @ '' - manufacturer:   %s '' @ nl)) [p] st;
     st \<leftarrow> printf env (literal env (tab @ '' - stepping id:    %d '' @ nl))
             [ucast (stepping_id (cpu_at (ks_ram st) p))] st;
     st \<leftarrow> printf env (literal env (tab @ '' - family id:      %d '' @ nl))
             [ucast (family_id (cpu_at (ks_ram st) p))] st;
     st \<leftarrow> printf env (literal env (tab @ '' - model id:       %d '' @ nl))
             [ucast (model_id (cpu_at (ks_ram st) p))] st;
     st \<leftarrow> printf env (literal env (tab @ '' - type:           %d '' @ nl))
             [ucast (cpu_type (cpu_at (ks_ram st) p))] st;
     st \<leftarrow> printf env (literal env (tab @ '' - brand:          %s '' @ nl)) [p + 18] st;
     st \<leftarrow> printf env (literal env (tab @ '' - logical cores:  %d '' @ nl))
             [ucast (logical_cores (cpu_at (ks_ram st) p))] st;
     st \<leftarrow> printf env (literal env (tab @ '' - physical cores: %d '' @ nl))
             [ucast (physical_cores (cpu_at (ks_ram st) p))] st;
     printf env (literal env (tab @ '' - hyperthreading: %d '' @ nl))
       [ucast (hyperthreading (cpu_at (ks_ram st) p))] st
   }"

section \<open>Panic\<close>

text \<open>What \<^verbatim>\<open>kpanic\<close> does before it prints.\<close>

definition blue_screen :: "'d kstate \<Rightarrow> 'd kstate" where
  "blue_screen st =
     (let fb = k_framebuffer (ks_kernel st);
          m = Framebuffer__set_all_pixels fb BLUE (ks_ram st);
          c1 = ConsoleCursor__gotoxy (ks_cursor st) 0 0;
          c2 = ConsoleCursor__set_bg_color c1 (ucast BLUE);
          c3 = ConsoleCursor__set_fg_color c2 (ucast WHITE)
      in set_screen \<lparr>s_ram = m, s_cursor = c3\<rparr> st)"

definition kpanic :: "layout \<Rightarrow> ptr \<Rightarrow> 'd kstate \<Rightarrow> 'd kstate option" where
  "kpanic env msg st = do {
     st \<leftarrow> printf env (literal env (''Kernel panic!!! '' @ nl)) [] (blue_screen st);
     printf env (literal env ''Error: %s'') [msg] st
   }"

text \<open>The two handlers never return: the result is the state their endless loop is entered in.\<close>

definition page_fault_handler :: "layout \<Rightarrow> 'd kstate \<Rightarrow> 'd kstate option" where
  "page_fault_handler env = printf env (literal env (''Page Fault Interrupt here! '' @ nl)) []"

definition divide_by_zero_handler :: "layout \<Rightarrow> 'd kstate \<Rightarrow> 'd kstate option" where
  "divide_by_zero_handler env = kpanic env (literal env ''division by zero'')"

section \<open>The state of the processor\<close>

text \<open>
  The case of missing model-specific registers falls through to that of success, which does
  nothing more.
\<close>

definition check_cpu_state :: "layout \<Rightarrow> cpuid \<Rightarrow> 'd kstate \<Rightarrow> ('d kstate \<times> u16) option" where
  "check_cpu_state env cpuid st =
     (let status = check_cpu_features cpuid in
      map_option (\<lambda>st. (st, status))
       (if status = CPU_NO_LONG_MODE then print_cpu_err env (literal env ''no long mode detected'') st
        else if status = CPU_NO_FPU then print_cpu_err env (literal env ''no FPU detected'') st
        else if status = CPU_NO_APIC then print_cpu_err env (literal env ''no APIC detected'') st
        else if status = CPU_NO_MSR then print_cpu_err env (literal env ''no MSRs detected'') st
        else if status = CPU_SUCCESS then Some st
        else print_cpu_err env (literal env ''undefined status detected'') st))"

end
