(* ===== verification/Pmem_Pool.thy ===== *)
theory Pmem_Pool
  imports Pmem_Init
begin

text \<open>
  The physical memory manager of \<^verbatim>\<open>src/src/memory/pmem.c\<close> against its abstract specification, a
  list of frames with their states: every operation refines an operation on that list, the
  reachable states keep the invariant, and the properties of allocation and initialisation.
\<close>

unbundle bit_operations_syntax

section \<open>The specification: a list of frames\<close>

definition frame_pool :: "pstate \<Rightarrow> (ptr \<times> u8) list" where
  "frame_pool s = map (\<lambda>i. (frame_addr s i, frame_st s i)) [0..<n_frames s]"

definition spec_move :: "u8 \<Rightarrow> u8 \<Rightarrow> nat \<Rightarrow> (ptr \<times> u8) list \<Rightarrow> (ptr \<times> u8) list" where
  "spec_move a b i fs = (if snd (fs ! i) = a then fs[i := (fst (fs ! i), b)] else fs)"

definition spec_request :: "(ptr \<times> u8) list \<Rightarrow> (ptr \<times> u8) list \<times> ptr" where
  "spec_request fs =
     (case first_index (\<lambda>f. snd f = FREE_FRAME) fs of
        None \<Rightarrow> (fs, 0)
      | Some i \<Rightarrow> (spec_move FREE_FRAME LOCKED_FRAME i fs, fst (fs ! i)))"

lemma length_frame_pool [simp]: "length (frame_pool s) = n_frames s"
  by (simp add: frame_pool_def)

lemma nth_frame_pool [simp]: "i < n_frames s \<Longrightarrow> frame_pool s ! i = (frame_addr s i, frame_st s i)"
  by (simp add: frame_pool_def)

lemma map_snd_pool: "map snd (frame_pool s) = frame_sts s"
  by (simp add: frame_pool_def frame_sts_def)

lemma first_index_map: "first_index P (map f xs) = first_index (\<lambda>x. P (f x)) xs"
  by (induction xs) auto

context frame_op
begin

lemma op_pool:
  assumes "array_fits s" "i < n_frames s"
  shows "frame_pool (op (word_of_nat i) s) = spec_move a b i (frame_pool s)"
proof (rule nth_equalityI)
  show "length (frame_pool (op (word_of_nat i) s)) = length (spec_move a b i (frame_pool s))"
    by (simp add: spec_move_def)
  fix j assume "j < length (frame_pool (op (word_of_nat i) s))"
  then have j: "j < n_frames s" by simp
  then show "frame_pool (op (word_of_nat i) s) ! j = spec_move a b i (frame_pool s) ! j"
    using op_st [OF assms j] op_addr [OF assms j] assms(2)
    by (auto simp: spec_move_def nth_list_update)
qed

text \<open>An operation is undone by one that goes the other way.\<close>

lemma op_undone:
  assumes "frame_op op' b a" "array_fits s" "i < n_frames s" "frame_st s i = a"
  shows "frame_pool (op' (word_of_nat i) (op (word_of_nat i) s)) = frame_pool s"
proof -
  have "frame_pool (op' (word_of_nat i) (op (word_of_nat i) s))
      = spec_move b a i (frame_pool (op (word_of_nat i) s))"
    using assms(2,3) by (intro frame_op.op_pool [OF assms(1)]) simp_all
  also have "\<dots> = spec_move b a i (spec_move a b i (frame_pool s))"
    using op_pool [OF assms(2,3)] by simp
  also have "\<dots> = frame_pool s"
    using assms(3,4) by (simp add: spec_move_def list_update_id)
      (metis list_update_id nth_frame_pool)
  finally show ?thesis .
qed

end

lemma request_pool:
  assumes "pm_inv s"
  shows "frame_pool (fst (pmem_request_frame s)) = fst (spec_request (frame_pool s))"
    and "snd (pmem_request_frame s) = snd (spec_request (frame_pool s))"
proof -
  have fi: "first_index (\<lambda>f. snd f = FREE_FRAME) (frame_pool s)
      = first_index (\<lambda>x. x = FREE_FRAME) (frame_sts s)"
    by (simp add: map_snd_pool [symmetric] first_index_map)
  have "i < n_frames s" if "first_index (\<lambda>x. x = FREE_FRAME) (frame_sts s) = Some i" for i
    using that by (simp add: first_index_Some)
  then show "frame_pool (fst (pmem_request_frame s)) = fst (spec_request (frame_pool s))"
    "snd (pmem_request_frame s) = snd (spec_request (frame_pool s))"
    using lock.op_pool [OF pm_inv_fits [OF assms]] unfolding spec_request_def fi
    by (auto simp: pmem_request_frame_cases [OF assms] split: option.splits)
qed

section \<open>The steps of the manager and the states they reach\<close>

inductive frame_step :: "pstate \<Rightarrow> pstate \<Rightarrow> bool" where
  lock: "i < frames (pm s) \<Longrightarrow> frame_step s (PhysicalMemory__lock_frame i s)"
| free: "i < frames (pm s) \<Longrightarrow> frame_step s (PhysicalMemory__free_frame i s)"
| reserve: "i < frames (pm s) \<Longrightarrow> frame_step s (PhysicalMemory__reserve_frame i s)"
| unreserve: "i < frames (pm s) \<Longrightarrow> frame_step s (PhysicalMemory__unreserve_frame i s)"
| request: "frame_step s (fst (pmem_request_frame s))"

inductive_cases frame_stepE: "frame_step s t"

text \<open>What every step keeps.\<close>

definition pool_kept :: "pstate \<Rightarrow> pstate \<Rightarrow> bool" where
  "pool_kept s t \<longleftrightarrow> pm_inv t \<and> n_frames t = n_frames s \<and> array_region t = array_region s
     \<and> map fst (frame_pool t) = map fst (frame_pool s)
     \<and> (\<forall>x. x \<notin> array_region s \<longrightarrow> ram t x = ram s x)"

lemma pool_kept_refl: "pm_inv s \<Longrightarrow> pool_kept s s"
  by (simp add: pool_kept_def)

lemma pool_kept_trans: "pool_kept s t \<Longrightarrow> pool_kept t u \<Longrightarrow> pool_kept s u"
  by (simp add: pool_kept_def)

context frame_op
begin

lemma op_kept:
  assumes "pm_inv s" "i < frames (pm s)"
  shows "pool_kept s (op i s)"
proof -
  define k where "k = unat i"
  have k: "k < n_frames s" "i = word_of_nat k"
    using assms(2) by (simp_all add: k_def n_frames_def word_less_nat_alt)
  note fits = pm_inv_fits [OF assms(1)]
  have "map fst (frame_pool (op (word_of_nat k) s)) = map fst (frame_pool s)"
    by (rule nth_equalityI) (simp_all add: op_addr [OF fits k(1)])
  then show ?thesis
    using op_inv [OF assms(1) k(1)] op_outside [OF fits k(1)] unfolding k(2)
    by (simp add: pool_kept_def)
qed

end

lemma request_kept:
  assumes "pm_inv s"
  shows "pool_kept s (fst (pmem_request_frame s))"
proof (cases "first_index (\<lambda>x. x = FREE_FRAME) (frame_sts s)")
  case None
  then show ?thesis using assms by (simp add: pmem_request_frame_cases pool_kept_refl)
next
  case (Some i)
  then have "word_of_nat i < frames (pm s)"
    using n_frames_less [of s]
    by (auto simp: first_index_Some n_frames_def word_less_nat_alt unat_of_nat_small)
  from lock.op_kept [OF assms this] Some assms show ?thesis
    by (simp add: pmem_request_frame_cases)
qed

lemma frame_step_kept: "frame_step s t \<Longrightarrow> pm_inv s \<Longrightarrow> pool_kept s t"
  by (induction rule: frame_step.induct)
    (auto intro: lock.op_kept free.op_kept reserve.op_kept unreserve.op_kept request_kept)

lemma frame_steps_kept: "frame_step\<^sup>*\<^sup>* s t \<Longrightarrow> pm_inv s \<Longrightarrow> pool_kept s t"
proof (induction rule: rtranclp_induct)
  case base
  then show ?case by (rule pool_kept_refl)
next
  case (step t u)
  then show ?case
    using frame_step_kept pool_kept_trans by (meson pool_kept_def)
qed

section \<open>The frame of an address\<close>

text \<open>Frames on distinct page boundaries, none of them the last page of the address space.\<close>

definition frames_apart :: "pstate \<Rightarrow> bool" where
  "frames_apart s \<longleftrightarrow> (\<forall>i < n_frames s. take_bit 12 (frame_addr s i) = 0
     \<and> frame_addr s i \<noteq> - PAGE_SZ \<and> (\<forall>j < n_frames s. frame_addr s i = frame_addr s j \<longrightarrow> i = j))"

lemma page_split:
  fixes p :: u64
  assumes "take_bit 12 p = 0"
  shows "unat p = 4096 * (unat p div 4096)"
proof -
  have "unat p mod 4096 = unat (take_bit 12 p)"
    by (simp only: unsigned_take_bit_eq) (simp add: take_bit_eq_mod)
  with assms show ?thesis by (metis mult_div_mod_eq add.right_neutral unsigned_0)
qed

lemma frame_holds_iff:
  fixes p x :: u64
  assumes "take_bit 12 p = 0" "p \<noteq> - PAGE_SZ"
  shows "frame_holds x p \<longleftrightarrow> unat x div 4096 = unat p div 4096"
proof -
  define q where "q = unat p div 4096"
  have p: "unat p = 4096 * q" using page_split [OF assms(1)] by (simp add: q_def)
  have "unat p \<noteq> 2 ^ 64 - 4096"
  proof
    assume "unat p = 2 ^ 64 - 4096"
    then have "p = word_of_nat (2 ^ 64 - 4096)" by (metis word_of_unat)
    with assms(2) show False by simp
  qed
  then have "q \<noteq> 2 ^ 52 - 1" unfolding p by simp
  moreover have "4096 * q < 2 ^ 64" using unat64_less [of p] by (simp add: p)
  then have "q < 2 ^ 52" by simp
  ultimately have "q + 1 < 2 ^ 52" by simp
  then have "unat p + 4096 < 2 ^ 64" unfolding p by simp
  then have "unat (p + 4096) = unat p + 4096" by (simp add: unat_word_ariths)
  then have "frame_holds x p \<longleftrightarrow> 4096 * q \<le> unat x \<and> unat x < 4096 * q + 4096"
    by (simp add: frame_holds_def word_le_nat_alt word_less_nat_alt p)
  also have "\<dots> \<longleftrightarrow> unat x div 4096 = q" by (auto simp: div_nat_eqI)
  finally show ?thesis unfolding p by simp
qed

lemma frame_index_unique:
  assumes "frames_apart s" "i < n_frames s" "frame_holds x (frame_addr s i)"
  shows "PhysicalMemory__get_frame_index_by_ptr x s = word_of_nat i"
proof -
  have ap: "take_bit 12 (frame_addr s j) = 0" "frame_addr s j \<noteq> - PAGE_SZ" if "j < n_frames s" for j
    using assms(1) that by (auto simp: frames_apart_def)
  have only: "j = i" if "j < n_frames s" "frame_holds x (frame_addr s j)" for j
  proof -
    from that assms(2,3) have "unat (frame_addr s j) div 4096 = unat (frame_addr s i) div 4096"
      using frame_holds_iff ap by metis
    then have "unat (frame_addr s j) = unat (frame_addr s i)"
      using page_split [OF ap(1) [OF that(1)]] page_split [OF ap(1) [OF assms(2)]] by simp
    then show ?thesis using assms(1,2) that(1) by (auto simp: frames_apart_def word_unat_eq_iff)
  qed
  have "first_index (frame_holds x) (map (frame_addr s) [0..<n_frames s]) = Some i"
    unfolding first_index_Some
  proof (intro conjI allI impI)
    show "i < length (map (frame_addr s) [0..<n_frames s])" using assms(2) by simp
    show "frame_holds x (map (frame_addr s) [0..<n_frames s] ! i)" using assms(2,3) by simp
    show "\<not> frame_holds x (map (frame_addr s) [0..<n_frames s] ! j)" if "j < i" for j
      using that assms(2) only [of j] by auto
  qed
  then show ?thesis by (simp add: frame_index_by_ptr)
qed

section \<open>The largest free segment\<close>

lemma largest_segment:
  fixes seg0 :: ptr
  shows "case get_largest_free_mem_seg md m seg0 of (sz, seg) \<Rightarrow>
    (\<forall>d \<in> set (efi_map md m). efi_type d = efi_code EFI_CONVENTIONAL_MEMORY
        \<longrightarrow> number_of_pages d * PAGE_SZ \<le> sz)
    \<and> (sz = 0 \<and> seg = seg0 \<or>
       (\<exists>d \<in> set (efi_map md m). efi_type d = efi_code EFI_CONVENTIONAL_MEMORY
          \<and> number_of_pages d * PAGE_SZ = sz \<and> physical_addr d = seg))"
proof -
  let ?C = "\<lambda>d. efi_type d = efi_code EFI_CONVENTIONAL_MEMORY"
  let ?P = "\<lambda>k r. (\<forall>d \<in> set (take k (efi_map md m)). ?C d \<longrightarrow> number_of_pages d * PAGE_SZ \<le> fst r)
    \<and> (fst r = 0 \<and> snd r = seg0 \<or>
       (\<exists>d \<in> set (take k (efi_map md m)). ?C d \<and> number_of_pages d * PAGE_SZ = fst r \<and> physical_addr d = snd r))"
  have "?P (unat (entries (memory_data m md))) (get_largest_free_mem_seg md m seg0)"
    unfolding get_largest_free_mem_seg_def
  proof (rule for_bound_invariant [where P = ?P and n = "entries (memory_data m md)"])
    show "?P 0 (0, seg0)" by simp
    fix k and q :: "u64 \<times> ptr"
    assume k: "k < unat (entries (memory_data m md))" and P: "?P k q"
    have kn: "k < length (efi_map md m)" using k by simp
    let ?d = "efi_desc m (get_memory_descriptor md (word_of_nat k) m)"
    have "efi_map md m ! k = ?d" using kn by (simp add: efi_map_def)
    then have tk: "set (take (Suc k) (efi_map md m)) = insert ?d (set (take k (efi_map md m)))"
      using kn by (simp add: take_Suc_conv_app_nth)
    obtain sz seg where q: "q = (sz, seg)" by (cases q)
    have mono: "number_of_pages d * PAGE_SZ \<le> number_of_pages ?d * PAGE_SZ"
      if "sz < number_of_pages ?d * PAGE_SZ" "d \<in> set (take k (efi_map md m))" "?C d" for d
      using P that unfolding q by (auto intro: order_trans less_imp_le)
    show "?P (Suc k) (case q of (sz, mem_seg) \<Rightarrow>
          let desc = efi_desc m (get_memory_descriptor md (word_of_nat k) m) in
          if efi_type desc = efi_code EFI_CONVENTIONAL_MEMORY then
            let seg_sz = number_of_pages desc * PAGE_SZ in
            if seg_sz > sz then (seg_sz, physical_addr desc) else (sz, mem_seg)
          else (sz, mem_seg))"
    proof (cases "?C ?d \<and> sz < number_of_pages ?d * PAGE_SZ")
      case True
      then show ?thesis using mono unfolding tk q by (simp add: Let_def)
    next
      case False
      then have "?C ?d \<longrightarrow> number_of_pages ?d * PAGE_SZ \<le> sz" by (simp add: not_less)
      with False P show ?thesis unfolding tk q by (simp add: Let_def) blast
    qed
  qed simp
  then show ?thesis by (simp add: case_prod_beta)
qed

text \<open>A machine before the manager is initialised: one region of four pages of conventional
  memory at \<open>0x10000\<close>, its descriptor at \<open>0x200\<close>, the memory data at \<open>0x100\<close>.\<close>

definition boot_machine :: pstate where
  "boot_machine = \<lparr>ram = (\<lambda>_. 0)(0x101 := 2, 0x110 := 48, 0x118 := 1,
       0x200 := 7, 0x20a := 1, 0x218 := 4),
     pm = \<lparr>free_frames = 0, reserved_frames = 0, locked_frames = 0, frames = 0,
       frame_array = 0, initialized = False\<rparr>\<rparr>"

lemma boot_map:
  "efi_map 0x100 (ram boot_machine) = [\<lparr>efi_type = 7, efi_pad = 0, physical_addr = 0x10000,
     virtual_addr = 0, number_of_pages = 4, attribute = 0\<rparr>]"
  by code_simp

lemma boot_machine_ready: "boot_ready 0x100 0x11ff8 0x10000 boot_machine"
proof -
  have d: "entries (memory_data (ram boot_machine) 0x100) = 1"
    "get_memory_descriptor 0x100 0 (ram boot_machine) = 0x200"
    by code_simp+
  have "map_separate 0x100 (ram boot_machine) (region 0x10000 64)"
    by (auto simp: map_separate_def d region_interval)
  moreover have "map fst (map_frames (efi_map 0x100 (ram boot_machine)))
      = [0x10000, 0x11000, 0x12000, 0x13000]" "total_pages (efi_map 0x100 (ram boot_machine)) = 4"
    "array_start 0x10000 0 0 (efi_map 0x100 (ram boot_machine)) = 0"
    unfolding boot_map by code_simp+
  moreover have "\<not> initialized (pm boot_machine)" by (simp add: boot_machine_def)
  ultimately show ?thesis
    by (simp add: boot_ready_def d Let_def frame_holds_def)
qed

section \<open>Properties\<close>

text \<open>C5. The physical memory manager (pmem.c) refines its specification: on the list of frames
  with their states, locking, freeing, reserving and unreserving move one frame from the one
  state to the other and leave a frame in any other state alone, and \<^verbatim>\<open>pmem_request_frame\<close>
  locks the first free frame and returns its address, or returns \<^verbatim>\<open>NULL\<close> if there is none.\<close>

theorem allocator_refines:
  assumes "pm_inv s" "i < n_frames s"
  shows "frame_pool (PhysicalMemory__lock_frame (word_of_nat i) s)
      = spec_move FREE_FRAME LOCKED_FRAME i (frame_pool s)
    \<and> frame_pool (PhysicalMemory__free_frame (word_of_nat i) s)
      = spec_move LOCKED_FRAME FREE_FRAME i (frame_pool s)
    \<and> frame_pool (PhysicalMemory__reserve_frame (word_of_nat i) s)
      = spec_move FREE_FRAME RESERVED_FRAME i (frame_pool s)
    \<and> frame_pool (PhysicalMemory__unreserve_frame (word_of_nat i) s)
      = spec_move RESERVED_FRAME FREE_FRAME i (frame_pool s)
    \<and> (frame_pool (fst (pmem_request_frame s)), snd (pmem_request_frame s))
      = spec_request (frame_pool s)"
  using pm_inv_fits [OF assms(1)] assms request_pool [OF assms(1)]
  by (simp add: lock.op_pool free.op_pool reserve.op_pool unreserve.op_pool)

theorem allocator_refines_witness:
  "snd (pmem_request_frame small_machine) = 0x2000
   \<and> frame_pool (PhysicalMemory__lock_frame 2 small_machine)
     = [(0x2000, 0), (0x3000, 0), (0x4000, 1), (0x5000, 0)]"
proof -
  have "frame_pool small_machine = [(0x2000, 0), (0x3000, 0), (0x4000, 0), (0x5000, 0)]"
    by code_simp
  with allocator_refines [OF small_inv, of 2] show ?thesis
    by (simp add: spec_move_def spec_request_def prod_eq_iff)
qed

text \<open>C8. Whatever sequence of the manager's operations runs (pmem.c), with indexes inside the
  array: every frame stays free, locked or reserved, the three counters count the frames in
  their state and so add up to their number, the frames keep their addresses, and no byte
  outside the array changes.\<close>

theorem frame_steps_invariant:
  assumes "frame_step\<^sup>*\<^sup>* s t" "pm_inv s"
  shows "pm_inv t
    \<and> unat (free_frames (pm t)) + unat (locked_frames (pm t)) + unat (reserved_frames (pm t)) = n_frames s
    \<and> map fst (frame_pool t) = map fst (frame_pool s)
    \<and> (\<forall>x. x \<notin> array_region s \<longrightarrow> ram t x = ram s x)"
proof -
  have k: "pool_kept s t" by (rule frame_steps_kept [OF assms])
  then have inv: "pm_inv t" by (simp add: pool_kept_def)
  have "set (frame_sts t) \<subseteq> {FREE_FRAME, LOCKED_FRAME, RESERVED_FRAME}"
    using inv by (simp add: pm_inv_def)
  from count_list_states [OF this] k pm_inv_counters [OF inv] inv show ?thesis
    by (simp add: pool_kept_def)
qed

theorem frame_steps_invariant_witness:
  "unat (free_frames (pm (PhysicalMemory__free_frame 0 (fst (pmem_request_frame small_machine)))))
   + unat (locked_frames (pm (PhysicalMemory__free_frame 0 (fst (pmem_request_frame small_machine)))))
   + unat (reserved_frames (pm (PhysicalMemory__free_frame 0 (fst (pmem_request_frame small_machine)))))
   = 4"
proof -
  let ?t = "fst (pmem_request_frame small_machine)"
  have "frame_step small_machine ?t" by (rule frame_step.request)
  moreover have "0 < frames (pm ?t)" by code_simp
  then have "frame_step ?t (PhysicalMemory__free_frame 0 ?t)" by (rule frame_step.free)
  ultimately have "frame_step\<^sup>*\<^sup>* small_machine (PhysicalMemory__free_frame 0 ?t)"
    by (meson rtranclp.rtrancl_into_rtrancl rtranclp.rtrancl_refl)
  from frame_steps_invariant [OF this small_inv] show ?thesis by simp
qed

text \<open>C16. A frame that was requested can be given back by its pointer (pmem.c): the index that
  \<^verbatim>\<open>PhysicalMemory__get_frame_index_by_ptr\<close> finds for any address inside the frame is the
  frame's own, and freeing it restores the states of all frames; for an address in no frame the
  index is -1.\<close>

theorem request_free_roundtrip:
  assumes "pm_inv s" "frames_apart s" "free_frames (pm s) \<noteq> 0"
  shows "let (t, p) = pmem_request_frame s; i = PhysicalMemory__get_frame_index_by_ptr p t
      in unat i < n_frames s \<and> frame_addr t (unat i) = p
        \<and> PhysicalMemory__get_frame_state i t = LOCKED_FRAME
        \<and> frame_pool (PhysicalMemory__free_frame i t) = frame_pool s
        \<and> (unat x div 4096 = unat p div 4096 \<longrightarrow> PhysicalMemory__get_frame_index_by_ptr x t = i)
        \<and> ((\<forall>f \<in> set (frame_pool s). unat x div 4096 \<noteq> unat (fst f) div 4096)
            \<longrightarrow> PhysicalMemory__get_frame_index_by_ptr x t = -1)"
proof -
  note fits = pm_inv_fits [OF assms(1)]
  obtain k where k: "first_index (\<lambda>x. x = FREE_FRAME) (frame_sts s) = Some k"
    using no_free_frames [OF assms(1)] assms(3) by auto
  then have kn: "k < n_frames s" and free: "frame_st s k = FREE_FRAME"
    by (auto simp: first_index_Some)
  define t where "t = PhysicalMemory__lock_frame (word_of_nat k) s"
  have req: "pmem_request_frame s = (t, frame_addr s k)"
    by (simp add: pmem_request_frame_cases [OF assms(1)] k t_def)
  have n: "n_frames t = n_frames s" by (simp add: t_def)
  have ad: "frame_addr t j = frame_addr s j" if "j < n_frames s" for j
    unfolding t_def by (rule lock.op_addr [OF fits kn that])
  have apart: "frames_apart t" using assms(2) ad by (simp add: frames_apart_def n)
  have holds: "frame_holds y (frame_addr t j) \<longleftrightarrow> unat y div 4096 = unat (frame_addr s j) div 4096"
    if "j < n_frames s" for y j
  proof -
    have "take_bit 12 (frame_addr s j) = 0" "frame_addr s j \<noteq> - PAGE_SZ"
      using assms(2) that by (simp_all add: frames_apart_def)
    then show ?thesis unfolding ad [OF that] by (rule frame_holds_iff)
  qed
  have idx: "PhysicalMemory__get_frame_index_by_ptr y t = word_of_nat k"
    if "unat y div 4096 = unat (frame_addr s k) div 4096" for y
    using that kn by (intro frame_index_unique [OF apart]) (simp_all add: n holds)
  have u: "unat (word_of_nat k :: u64) = k"
  proof -
    have "k < 2 ^ 64" using kn n_frames_less [of s] by linarith
    then show ?thesis by (simp add: unat_of_nat_small)
  qed
  have st: "PhysicalMemory__get_frame_state (word_of_nat k) t = LOCKED_FRAME"
    unfolding t_def get_frame_state_nat using lock.op_st [OF fits kn kn] free by simp
  have undone: "frame_pool (PhysicalMemory__free_frame (word_of_nat k) t) = frame_pool s"
    unfolding t_def by (rule lock.op_undone [OF free.frame_op_axioms fits kn free])
  have none: "PhysicalMemory__get_frame_index_by_ptr x t = -1"
    if away: "\<forall>f \<in> set (frame_pool s). unat x div 4096 \<noteq> unat (fst f) div 4096"
  proof -
    have "\<not> frame_holds x (frame_addr t j)" if "j < n_frames s" for j
      using that away holds by (auto simp: frame_pool_def)
    then have "first_index (frame_holds x) (map (frame_addr t) [0..<n_frames t]) = None"
      by (auto simp: first_index_None n)
    then show ?thesis by (simp add: frame_index_by_ptr)
  qed
  show ?thesis using req idx kn u st undone none ad [OF kn] by (simp add: Let_def)
qed

theorem request_free_roundtrip_witness:
  "frame_pool (PhysicalMemory__free_frame
      (PhysicalMemory__get_frame_index_by_ptr (snd (pmem_request_frame small_machine))
        (fst (pmem_request_frame small_machine))) (fst (pmem_request_frame small_machine)))
    = frame_pool small_machine"
proof -
  have four: "i < 4 \<longleftrightarrow> i = 0 \<or> i = 1 \<or> i = 2 \<or> i = 3" for i :: nat by auto
  have "frames_apart small_machine"
    by (auto simp: frames_apart_def small_frame four)
  moreover have "free_frames (pm small_machine) \<noteq> 0" by (simp add: small_machine_def)
  ultimately show ?thesis
    using request_free_roundtrip [OF small_inv, of 0] by (simp add: case_prod_beta Let_def)
qed



text \<open>C7. \<^verbatim>\<open>init_physical_memory\<close> (pmem.c), run on what the firmware and the boot loader provide,
  returns with the manager initialised: the array, placed in the largest free region, lists
  every page of the memory map in order; a frame is reserved if its region is not the kernel's
  to use or it holds the stack, locked if it is one of the \<open>n div 32\<close> free frames from the array's
  region on, and free otherwise; the counters agree; no byte outside the array changes; and a
  second call changes nothing. With fewer than 32 frames none is locked, not even the one that
  holds the array.\<close>

theorem init_physical_memory_boots:
  assumes "boot_ready md stack (snd (get_largest_free_mem_seg md (ram s) 0)) s"
  shows "\<exists>s'. init_physical_memory md stack s = Some s' \<and> pm_inv s' \<and> initialized (pm s')
    \<and> map fst (frame_pool s') = map fst (map_frames (efi_map md (ram s)))
    \<and> map snd (frame_pool s') = boot_states stack (snd (get_largest_free_mem_seg md (ram s) 0)) (efi_map md (ram s))
    \<and> (\<forall>x. x \<notin> array_region s' \<longrightarrow> ram s' x = ram s x)
    \<and> init_physical_memory md stack s' = Some s'
    \<and> (total_pages (efi_map md (ram s)) < 32 \<longrightarrow> locked_frames (pm s') = 0)"
proof -
  let ?buf = "snd (get_largest_free_mem_seg md (ram s) 0)" and ?ds = "efi_map md (ram s)"
  obtain s' where s': "PhysicalMemory__init md stack ?buf s = Some s'" "pm_inv s'"
      "initialized (pm s')" "frame_array (pm s') = ?buf" "n_frames s' = total_pages ?ds"
      "map (frame_addr s') [0..<n_frames s'] = map fst (map_frames ?ds)"
      "frame_sts s' = boot_states stack ?buf ?ds"
      "\<And>x. x \<notin> region ?buf (16 * n_frames s') \<Longrightarrow> ram s' x = ram s x"
    by (rule PhysicalMemory__init_correct [OF assms]) blast
  have "init_physical_memory md stack s = Some s'"
    by (simp add: init_physical_memory_def case_prod_beta s'(1))
  moreover have "init_physical_memory md stack s' = Some s'"
    by (simp add: init_physical_memory_def case_prod_beta PhysicalMemory__init_def s'(3))
  moreover have "locked_frames (pm s') = 0" if small: "total_pages ?ds < 32"
  proof -
    have "snd f \<noteq> LOCKED_FRAME" if "f \<in> set (map_frames ?ds)" for f
      using that by (auto simp: map_frames_def region_frames_def split: if_splits)
    then have m: "LOCKED_FRAME \<notin> snd ` set (map_frames ?ds)" by force
    have lu: "LOCKED_FRAME \<notin> set ((map snd (map_frames ?ds))[i := RESERVED_FRAME])" for i
      using m set_update_subset_insert [of "map snd (map_frames ?ds)" i RESERVED_FRAME] by auto
    have "LOCKED_FRAME \<notin> set (stack_reserved stack (map_frames ?ds))"
      using m lu by (simp add: stack_reserved_def split: option.split)
    moreover have "boot_states stack ?buf ?ds = stack_reserved stack (map_frames ?ds)"
      using small by (intro nth_equalityI) (simp_all add: boot_states_def Let_def length_map_frames)
    ultimately have "count_list (frame_sts s') LOCKED_FRAME = 0"
      unfolding s'(7) by (simp add: count_list_0_iff)
    then show ?thesis using pm_inv_counters(2) [OF s'(2)] by (simp add: unat_eq_zero)
  qed
  ultimately show ?thesis
    using s' by (intro exI [of _ s']) (simp add: frame_pool_def frame_sts_def array_region_def comp_def)
qed

theorem init_physical_memory_boots_witness:
  "\<exists>s'. init_physical_memory 0x100 0x11ff8 boot_machine = Some s'
    \<and> frame_pool s' = [(0x10000, 0), (0x11000, 2), (0x12000, 0), (0x13000, 0)]
    \<and> locked_frames (pm s') = 0"
proof -
  have seg: "snd (get_largest_free_mem_seg 0x100 (ram boot_machine) 0) = 0x10000" by code_simp
  have ready: "boot_ready 0x100 0x11ff8 (snd (get_largest_free_mem_seg 0x100 (ram boot_machine) 0)) boot_machine"
    unfolding seg by (rule boot_machine_ready)
  have "map fst (map_frames (efi_map 0x100 (ram boot_machine))) = [0x10000, 0x11000, 0x12000, 0x13000]"
    "boot_states 0x11ff8 0x10000 (efi_map 0x100 (ram boot_machine)) = [0, 2, 0, 0]"
    "total_pages (efi_map 0x100 (ram boot_machine)) = 4"
    unfolding boot_map by code_simp+
  with init_physical_memory_boots [OF ready] obtain s' where
    s': "init_physical_memory 0x100 0x11ff8 boot_machine = Some s'"
      "map fst (frame_pool s') = [0x10000, 0x11000, 0x12000, 0x13000]"
      "map snd (frame_pool s') = [0, 2, 0, 0]" "locked_frames (pm s') = 0"
    unfolding seg by auto
  have "frame_pool s' = zip (map fst (frame_pool s')) (map snd (frame_pool s'))"
    by (simp add: zip_map_fst_snd)
  with s' show ?thesis by simp
qed

end
