(* ===== verification/Paging_Entries.thy ===== *)
theory Paging_Entries
  imports Bitfields
begin

text \<open>
  The entries of the four levels of paging structures, \<^verbatim>\<open>src/src/memory/paging.h\<close>: packed
  structures of bit-fields, 64 bits in all, allocated from the least significant bit on. Each
  structure has a record, and two functions that read it from a 64-bit word and lay it out in
  one; both round trips are proved.
\<close>

unbundle bit_operations_syntax

section \<open>The entries\<close>

record PT_Entry =
  pt_present :: "1 word"
  pt_rw :: "1 word"
  pt_us :: "1 word"
  pt_pwt :: "1 word"
  pt_pcd :: "1 word"
  pt_a :: "1 word"
  pt_d :: "1 word"
  pt_pat :: "1 word"
  pt_g :: "1 word"
  pt_ignored1 :: "3 word"
  page_addr :: "32 word"
  pt_reserved1 :: "8 word"
  pt_ignored3 :: "7 word"
  pt_protection_key :: "4 word"
  pt_xd :: "1 word"

record PD_Entry =
  pd_present :: "1 word"
  pd_rw :: "1 word"
  pd_us :: "1 word"
  pd_pwt :: "1 word"
  pd_pcd :: "1 word"
  pd_a :: "1 word"
  pd_ignored1 :: "1 word"
  pd_ps :: "1 word"
  pd_ignored2 :: "4 word"
  PT_addr :: "32 word"
  pd_reserved1 :: "8 word"
  pd_ignored3 :: "11 word"
  pd_xd :: "1 word"

record PDPT_Entry =
  pdpt_present :: "1 word"
  pdpt_rw :: "1 word"
  pdpt_us :: "1 word"
  pdpt_pwt :: "1 word"
  pdpt_pcd :: "1 word"
  pdpt_a :: "1 word"
  pdpt_ignored1 :: "1 word"
  pdpt_ps :: "1 word"
  pdpt_ignored2 :: "4 word"
  PD_addr :: "32 word"
  pdpt_reserved1 :: "8 word"
  pdpt_ignored3 :: "11 word"
  pdpt_xd :: "1 word"

record PML4_Entry =
  pml4_present :: "1 word"
  pml4_rw :: "1 word"
  pml4_us :: "1 word"
  pml4_pwt :: "1 word"
  pml4_pcd :: "1 word"
  pml4_a :: "1 word"
  pml4_ignored1 :: "1 word"
  pml4_ps :: "1 word"
  pml4_ignored2 :: "4 word"
  PDPT_addr :: "32 word"
  pml4_reserved1 :: "8 word"
  pml4_ignored3 :: "11 word"
  pml4_xd :: "1 word"

definition read_PT_Entry :: "u64 \<Rightarrow> PT_Entry" where
  "read_PT_Entry w = \<lparr>pt_present = field_at 0 w, pt_rw = field_at 1 w, pt_us = field_at 2 w,
     pt_pwt = field_at 3 w, pt_pcd = field_at 4 w, pt_a = field_at 5 w, pt_d = field_at 6 w,
     pt_pat = field_at 7 w, pt_g = field_at 8 w, pt_ignored1 = field_at 9 w,
     page_addr = field_at 12 w, pt_reserved1 = field_at 44 w, pt_ignored3 = field_at 52 w,
     pt_protection_key = field_at 59 w, pt_xd = field_at 63 w\<rparr>"

definition lay_PT_Entry :: "PT_Entry \<Rightarrow> u64" where
  "lay_PT_Entry e = at_field 0 (pt_present e) OR at_field 1 (pt_rw e) OR at_field 2 (pt_us e)
     OR at_field 3 (pt_pwt e) OR at_field 4 (pt_pcd e) OR at_field 5 (pt_a e)
     OR at_field 6 (pt_d e) OR at_field 7 (pt_pat e) OR at_field 8 (pt_g e)
     OR at_field 9 (pt_ignored1 e) OR at_field 12 (page_addr e) OR at_field 44 (pt_reserved1 e)
     OR at_field 52 (pt_ignored3 e) OR at_field 59 (pt_protection_key e) OR at_field 63 (pt_xd e)"

definition read_PD_Entry :: "u64 \<Rightarrow> PD_Entry" where
  "read_PD_Entry w = \<lparr>pd_present = field_at 0 w, pd_rw = field_at 1 w, pd_us = field_at 2 w,
     pd_pwt = field_at 3 w, pd_pcd = field_at 4 w, pd_a = field_at 5 w,
     pd_ignored1 = field_at 6 w, pd_ps = field_at 7 w, pd_ignored2 = field_at 8 w,
     PT_addr = field_at 12 w, pd_reserved1 = field_at 44 w, pd_ignored3 = field_at 52 w,
     pd_xd = field_at 63 w\<rparr>"

definition lay_PD_Entry :: "PD_Entry \<Rightarrow> u64" where
  "lay_PD_Entry e = at_field 0 (pd_present e) OR at_field 1 (pd_rw e) OR at_field 2 (pd_us e)
     OR at_field 3 (pd_pwt e) OR at_field 4 (pd_pcd e) OR at_field 5 (pd_a e)
     OR at_field 6 (pd_ignored1 e) OR at_field 7 (pd_ps e) OR at_field 8 (pd_ignored2 e)
     OR at_field 12 (PT_addr e) OR at_field 44 (pd_reserved1 e) OR at_field 52 (pd_ignored3 e)
     OR at_field 63 (pd_xd e)"

definition read_PDPT_Entry :: "u64 \<Rightarrow> PDPT_Entry" where
  "read_PDPT_Entry w = \<lparr>pdpt_present = field_at 0 w, pdpt_rw = field_at 1 w,
     pdpt_us = field_at 2 w, pdpt_pwt = field_at 3 w, pdpt_pcd = field_at 4 w,
     pdpt_a = field_at 5 w, pdpt_ignored1 = field_at 6 w, pdpt_ps = field_at 7 w,
     pdpt_ignored2 = field_at 8 w, PD_addr = field_at 12 w, pdpt_reserved1 = field_at 44 w,
     pdpt_ignored3 = field_at 52 w, pdpt_xd = field_at 63 w\<rparr>"

definition lay_PDPT_Entry :: "PDPT_Entry \<Rightarrow> u64" where
  "lay_PDPT_Entry e = at_field 0 (pdpt_present e) OR at_field 1 (pdpt_rw e)
     OR at_field 2 (pdpt_us e) OR at_field 3 (pdpt_pwt e) OR at_field 4 (pdpt_pcd e)
     OR at_field 5 (pdpt_a e) OR at_field 6 (pdpt_ignored1 e) OR at_field 7 (pdpt_ps e)
     OR at_field 8 (pdpt_ignored2 e) OR at_field 12 (PD_addr e)
     OR at_field 44 (pdpt_reserved1 e) OR at_field 52 (pdpt_ignored3 e)
     OR at_field 63 (pdpt_xd e)"

definition read_PML4_Entry :: "u64 \<Rightarrow> PML4_Entry" where
  "read_PML4_Entry w = \<lparr>pml4_present = field_at 0 w, pml4_rw = field_at 1 w,
     pml4_us = field_at 2 w, pml4_pwt = field_at 3 w, pml4_pcd = field_at 4 w,
     pml4_a = field_at 5 w, pml4_ignored1 = field_at 6 w, pml4_ps = field_at 7 w,
     pml4_ignored2 = field_at 8 w, PDPT_addr = field_at 12 w, pml4_reserved1 = field_at 44 w,
     pml4_ignored3 = field_at 52 w, pml4_xd = field_at 63 w\<rparr>"

definition lay_PML4_Entry :: "PML4_Entry \<Rightarrow> u64" where
  "lay_PML4_Entry e = at_field 0 (pml4_present e) OR at_field 1 (pml4_rw e)
     OR at_field 2 (pml4_us e) OR at_field 3 (pml4_pwt e) OR at_field 4 (pml4_pcd e)
     OR at_field 5 (pml4_a e) OR at_field 6 (pml4_ignored1 e) OR at_field 7 (pml4_ps e)
     OR at_field 8 (pml4_ignored2 e) OR at_field 12 (PDPT_addr e)
     OR at_field 44 (pml4_reserved1 e) OR at_field 52 (pml4_ignored3 e)
     OR at_field 63 (pml4_xd e)"

section \<open>Both round trips\<close>

lemma read_lay_PT_Entry: "read_PT_Entry (lay_PT_Entry e) = e"
  by (simp add: read_PT_Entry_def lay_PT_Entry_def field_simps_bits)

lemma read_lay_PD_Entry: "read_PD_Entry (lay_PD_Entry e) = e"
  by (simp add: read_PD_Entry_def lay_PD_Entry_def field_simps_bits)

lemma read_lay_PDPT_Entry: "read_PDPT_Entry (lay_PDPT_Entry e) = e"
  by (simp add: read_PDPT_Entry_def lay_PDPT_Entry_def field_simps_bits)

lemma read_lay_PML4_Entry: "read_PML4_Entry (lay_PML4_Entry e) = e"
  by (simp add: read_PML4_Entry_def lay_PML4_Entry_def field_simps_bits)

lemma lay_read_PT_Entry: "lay_PT_Entry (read_PT_Entry w) = w"
  by (simp add: read_PT_Entry_def lay_PT_Entry_def relay_simps)

lemma lay_read_PD_Entry: "lay_PD_Entry (read_PD_Entry w) = w"
  by (simp add: read_PD_Entry_def lay_PD_Entry_def relay_simps)

lemma lay_read_PDPT_Entry: "lay_PDPT_Entry (read_PDPT_Entry w) = w"
  by (simp add: read_PDPT_Entry_def lay_PDPT_Entry_def relay_simps)

lemma lay_read_PML4_Entry: "lay_PML4_Entry (read_PML4_Entry w) = w"
  by (simp add: read_PML4_Entry_def lay_PML4_Entry_def relay_simps)

end
