(* ===== verification/Page_Tree.thy ===== *)
theory Page_Tree
  imports Memory Paging_Entries
begin

text \<open>
  What the page tables in memory mean, independently of the code that writes them: the walk a
  processor makes in 4-level paging (Intel manual vol. 3, 4.5), the shape of the tree of tables,
  and how one written entry changes what the walk finds. A path is the list of the indices
  taken so far, the one into the PML4 first.
\<close>

unbundle bit_operations_syntax

section \<open>The walk\<close>

text \<open>Bits 12 to 51 of an entry, the physical address of the next table or of the page.\<close>

definition hw_frame :: "u64 \<Rightarrow> ptr" where
  "hw_frame w = push_bit 12 (take_bit 40 (drop_bit 12 w))"

definition table_entry :: "mem \<Rightarrow> ptr \<Rightarrow> nat \<Rightarrow> u64" where
  "table_entry m t i = load64 m (off_ptr t (8 * i))"

definition hw_next :: "mem \<Rightarrow> ptr \<Rightarrow> nat \<Rightarrow> ptr option" where
  "hw_next m t i = (let w = table_entry m t i in if bit w 0 then Some (hw_frame w) else None)"

fun walk :: "mem \<Rightarrow> ptr \<Rightarrow> nat list \<Rightarrow> ptr option" where
  "walk m t [] = Some t"
| "walk m t (i # p) = (case hw_next m t i of None \<Rightarrow> None | Some u \<Rightarrow> walk m u p)"

text \<open>The path of a virtual address: nine bits per level.\<close>

definition vpath :: "ptr \<Rightarrow> nat list" where
  "vpath va = map (\<lambda>k. unat (take_bit 9 (drop_bit k va))) [39, 30, 21, 12]"

definition translate :: "mem \<Rightarrow> ptr \<Rightarrow> ptr \<Rightarrow> ptr option" where
  "translate m root va = map_option (\<lambda>f. f OR take_bit 12 va) (walk m root (vpath va))"

definition indices :: "nat list \<Rightarrow> bool" where
  "indices p \<longleftrightarrow> (\<forall>i \<in> set p. i < 512)"

lemma indices_simps [simp]:
  "indices []" "indices (i # p) \<longleftrightarrow> i < 512 \<and> indices p" "indices (p @ q) \<longleftrightarrow> indices p \<and> indices q"
  by (auto simp: indices_def)

lemma length_vpath [simp]: "length (vpath va) = 4"
  by (simp add: vpath_def)

lemma indices_vpath [simp]: "indices (vpath va)"
proof -
  have "unat (take_bit 9 (drop_bit k va)) < 512" for k
    by (simp add: unsigned_take_bit_eq take_bit_nat_less_exp [of 9, simplified])
  then show ?thesis by (simp add: indices_def vpath_def)
qed

lemma walk_append:
  "walk m t (p @ q) = (case walk m t p of None \<Rightarrow> None | Some u \<Rightarrow> walk m u q)"
  by (induction p arbitrary: t) (auto split: option.splits)

lemma walk_snoc:
  "walk m t (p @ [i]) = (case walk m t p of None \<Rightarrow> None | Some u \<Rightarrow> hw_next m u i)"
  by (auto simp: walk_append split: option.splits)

lemma walk_prefix_None: "walk m t p = None \<Longrightarrow> walk m t (p @ q) = None"
  by (simp add: walk_append)

section \<open>Entries\<close>

text \<open>
  The entries the kernel writes: nothing but the present bit, the write bit (both or neither)
  and 32 bits of frame number. In particular no entry maps a large page.
\<close>

definition plain :: "u64 \<Rightarrow> bool" where
  "plain w \<longleftrightarrow> (\<forall>i < 64. bit w i \<longrightarrow> i \<le> 1 \<or> 12 \<le> i \<and> i < 44) \<and> (bit w 0 \<longleftrightarrow> bit w 1)"

lemma plain_0 [simp]: "plain 0"
  by (simp add: plain_def)

definition page_of :: "ptr \<Rightarrow> ptr" where
  "page_of a = push_bit 12 (take_bit 32 (drop_bit 12 a))"

lemma page_of_id: "take_bit 12 a = 0 \<Longrightarrow> take_bit 44 a = a \<Longrightarrow> page_of a = a"
proof (rule bit_word_eqI)
  fix i assume a: "take_bit 12 a = 0" "take_bit 44 a = a" and i: "i < LENGTH(64)"
  from a(1) have "bit (take_bit 12 a) i \<longleftrightarrow> False" by simp
  moreover from a(2) have "bit (take_bit 44 a) i \<longleftrightarrow> bit a i" by simp
  ultimately show "bit (page_of a) i \<longleftrightarrow> bit a i"
    using i by (auto simp: page_of_def bit_simps)
qed

lemma hw_frame_aligned: "take_bit 12 (hw_frame w) = 0"
  by (rule bit_word_eqI) (auto simp: hw_frame_def bit_simps)

lemma page_of_aligned: "take_bit 12 (page_of w) = 0"
  by (rule bit_word_eqI) (auto simp: page_of_def bit_simps)

section \<open>Frames of 4096 bytes\<close>

definition frame_of :: "ptr \<Rightarrow> ptr set" where
  "frame_of a = region a 4096"

lemma aligned_frames_disjoint:
  assumes "take_bit 12 a = 0" "take_bit 12 b = 0" "a \<noteq> b"
  shows "frame_of a \<inter> frame_of b = {}"
  using aligned_regions_disjoint [OF _ assms] by (simp add: frame_of_def)

lemma entry_in_frame: "i < 512 \<Longrightarrow> region (off_ptr t (8 * i)) 8 \<subseteq> frame_of t"
proof
  fix x assume i: "i < 512" and x: "x \<in> region (off_ptr t (8 * i)) 8"
  then have "unat (x - t) < 8 * i + 8" by (simp add: region_shift)
  with i show "x \<in> frame_of t" by (simp add: frame_of_def region_iff)
qed

lemma entries_disjoint:
  assumes "i < 512" "j < 512" "i \<noteq> j"
  shows "region (off_ptr t (8 * i)) 8 \<inter> region (off_ptr t (8 * j)) 8 = {}"
proof -
  have "False" if "8 * i \<le> u" "u < 8 * i + 8" "8 * j \<le> u" "u < 8 * j + 8" for u
    using that assms(3) by linarith
  then show ?thesis
    using assms(1,2) by (auto simp: region_shift disjoint_iff)
qed

lemma table_entry_cong:
  assumes "\<And>x. x \<in> frame_of t \<Longrightarrow> m' x = m x" "i < 512"
  shows "table_entry m' t i = table_entry m t i"
  unfolding table_entry_def using assms entry_in_frame [OF assms(2)] by (intro load64_cong) auto

section \<open>The tree of tables\<close>

definition table_at :: "mem \<Rightarrow> ptr \<Rightarrow> nat list \<Rightarrow> ptr \<Rightarrow> bool" where
  "table_at m root p t \<longleftrightarrow> length p \<le> 3 \<and> indices p \<and> walk m root p = Some t"

definition tables :: "mem \<Rightarrow> ptr \<Rightarrow> ptr set" where
  "tables m root = {t. \<exists>p. table_at m root p t}"

text \<open>Every table is reached by one path only, and holds plain entries.\<close>

definition page_tree :: "mem \<Rightarrow> ptr \<Rightarrow> bool" where
  "page_tree m root \<longleftrightarrow> take_bit 12 root = 0
     \<and> (\<forall>p q t. table_at m root p t \<longrightarrow> table_at m root q t \<longrightarrow> p = q)
     \<and> (\<forall>t \<in> tables m root. \<forall>i < 512. plain (table_entry m t i))"

lemma root_in_tables: "root \<in> tables m root"
  unfolding tables_def table_at_def by (auto intro: exI [of _ "[]"])

lemma table_at_snoc:
  assumes "table_at m root (p @ [i]) u"
  obtains t where "table_at m root p t" "hw_next m t i = Some u" "i < 512" "length p \<le> 2"
  using assms by (auto simp: table_at_def walk_snoc split: option.splits)

lemma tables_aligned:
  assumes "page_tree m root" "t \<in> tables m root"
  shows "take_bit 12 t = 0"
proof -
  obtain p where p: "table_at m root p t" using assms(2) by (auto simp: tables_def)
  show ?thesis
  proof (cases p rule: rev_cases)
    case Nil
    with p assms(1) show ?thesis by (simp add: table_at_def page_tree_def)
  next
    case (snoc q i)
    with p obtain u where "hw_next m u i = Some t" by (auto elim: table_at_snoc)
    then show ?thesis by (auto simp: hw_next_def Let_def hw_frame_aligned split: if_splits)
  qed
qed

text \<open>The walk reads nothing but the tables.\<close>

lemma walk_same:
  assumes "\<And>t x. t \<in> tables m root \<Longrightarrow> x \<in> frame_of t \<Longrightarrow> m' x = m x"
  shows "length q \<le> 4 \<Longrightarrow> indices q \<Longrightarrow> walk m' root q = walk m root q"
proof (induction q rule: rev_induct)
  case (snoc i q)
  then have IH: "walk m' root q = walk m root q" by simp
  have "hw_next m' t i = hw_next m t i" if "walk m root q = Some t" for t
  proof -
    have "t \<in> tables m root" using that snoc.prems by (auto simp: tables_def table_at_def)
    then have "table_entry m' t i = table_entry m t i"
      using assms snoc.prems by (intro table_entry_cong) auto
    then show ?thesis by (simp add: hw_next_def)
  qed
  with IH show ?case by (simp add: walk_snoc split: option.split)
qed simp

lemma tables_same:
  assumes "\<And>t x. t \<in> tables m root \<Longrightarrow> x \<in> frame_of t \<Longrightarrow> m' x = m x"
  shows "tables m' root = tables m root"
    and "table_at m' root p t = table_at m root p t"
    and "page_tree m' root = page_tree m root"
proof -
  show at: "table_at m' root p t = table_at m root p t" for p t
    using walk_same [of m root m' p, OF assms] by (auto simp: table_at_def)
  then show tb: "tables m' root = tables m root" by (simp add: tables_def)
  have "table_entry m' t i = table_entry m t i" if "t \<in> tables m root" "i < 512" for t i
    using assms [OF that(1)] that(2) by (intro table_entry_cong) auto
  then show "page_tree m' root = page_tree m root" by (auto simp: page_tree_def at tb)
qed

lemma translate_same:
  assumes "\<And>t x. t \<in> tables m root \<Longrightarrow> x \<in> frame_of t \<Longrightarrow> m' x = m x"
  shows "translate m' root a = translate m root a"
  using walk_same [where m = m and m' = m' and q = "vpath a", OF assms] by (simp add: translate_def)

text \<open>
  One entry of one table changes: the walk changes below that entry only.
\<close>

definition entry_updated :: "mem \<Rightarrow> mem \<Rightarrow> ptr \<Rightarrow> ptr \<Rightarrow> nat \<Rightarrow> bool" where
  "entry_updated m m' root t i \<longleftrightarrow>
     (\<forall>u \<in> tables m root. \<forall>j < 512. (u, j) \<noteq> (t, i) \<longrightarrow> table_entry m' u j = table_entry m u j)"

lemma walk_elsewhere:
  assumes tree: "page_tree m root" and t: "table_at m root p t"
    and upd: "entry_updated m m' root t i"
  shows "length q \<le> 4 \<Longrightarrow> indices q \<Longrightarrow> (\<And>r. q \<noteq> p @ [i] @ r) \<Longrightarrow> walk m' root q = walk m root q"
proof (induction q rule: rev_induct)
  case Nil
  show ?case by simp
next
  case (snoc j q)
  have IH: "walk m' root q = walk m root q"
  proof (rule snoc.IH)
    show "q \<noteq> p @ [i] @ r" for r using snoc.prems(3) [of "r @ [j]"] by auto
  qed (use snoc.prems in simp_all)
  have "hw_next m' u j = hw_next m u j" if u: "walk m root q = Some u" for u
  proof -
    have tu: "table_at m root q u" using u snoc.prems by (simp add: table_at_def)
    have "(u, j) \<noteq> (t, i)"
    proof
      assume "(u, j) = (t, i)"
      then have "q = p" using tree t tu by (auto simp: page_tree_def)
      with snoc.prems(3) [of "[]"] \<open>(u, j) = (t, i)\<close> show False by simp
    qed
    moreover have "u \<in> tables m root" using tu by (auto simp: tables_def)
    ultimately have "table_entry m' u j = table_entry m u j"
      using upd snoc.prems by (simp add: entry_updated_def)
    then show ?thesis by (simp add: hw_next_def)
  qed
  with IH show ?case by (auto simp: walk_snoc split: option.splits)
qed

text \<open>The path to the table whose entry changed is itself unchanged.\<close>

lemma walk_to_updated:
  assumes "page_tree m root" "table_at m root p t" "entry_updated m m' root t i"
  shows "walk m' root p = Some t"
proof -
  have "p \<noteq> p @ [i] @ r" for r by simp
  then have "walk m' root p = walk m root p"
    using assms by (intro walk_elsewhere [OF assms]) (auto simp: table_at_def)
  with assms(2) show ?thesis by (simp add: table_at_def)
qed

text \<open>A store to an entry, where the other entries are what they were in \<open>m\<close>.\<close>

lemma entry_store:
  fixes w :: u64
  assumes tree: "page_tree m root" and t: "table_at m root p t" and i: "i < 512"
    and same: "\<And>v j. v \<in> tables m root \<Longrightarrow> j < 512 \<Longrightarrow> table_entry n v j = table_entry m v j"
  defines "n' \<equiv> store64 (off_ptr t (8 * i)) w n"
  shows "entry_updated m n' root t i" "table_entry n' t i = w"
    and "x \<notin> frame_of t \<Longrightarrow> n' x = n x"
proof -
  show "table_entry n' t i = w" by (simp add: n'_def table_entry_def)
  show out: "n' x = n x" if "x \<notin> frame_of t" for x
    using that entry_in_frame [OF i, of t] unfolding n'_def by (intro store64_outside) auto
  have "t \<in> tables m root" using t by (auto simp: tables_def)
  then have al: "take_bit 12 t = 0" by (rule tables_aligned [OF tree])
  show "entry_updated m n' root t i"
    unfolding entry_updated_def
  proof (intro ballI allI impI)
    fix v j assume v: "v \<in> tables m root" and j: "j < 512" and ne: "(v, j) \<noteq> (t, i)"
    have "table_entry n' v j = table_entry n v j"
    proof (cases "v = t")
      case True
      with ne i j show ?thesis unfolding n'_def table_entry_def
        by (intro load64_store64_disjoint) (auto dest: entries_disjoint [OF j i])
    next
      case False
      then have "frame_of v \<inter> frame_of t = {}"
        using aligned_frames_disjoint [OF tables_aligned [OF tree v] al] by simp
      then show ?thesis using out j by (intro table_entry_cong) auto
    qed
    then show "table_entry n' v j = table_entry m v j" using same [OF v j] by simp
  qed
qed

text \<open>Setting an entry of a page table: one page is mapped, nothing else changes.\<close>

lemma leaf_update:
  assumes tree: "page_tree m root" and t: "table_at m root p t" and p: "length p = 3"
    and i: "i < 512" and upd: "entry_updated m m' root t i"
    and w: "table_entry m' t i = w" "plain w" "bit w 0"
  shows "page_tree m' root" "tables m' root = tables m root"
    and "length q \<le> 4 \<Longrightarrow> indices q \<Longrightarrow>
      walk m' root q = (if q = p @ [i] then Some (hw_frame w) else walk m root q)"
proof -
  have W: "walk m' root q = (if q = p @ [i] then Some (hw_frame w) else walk m root q)"
    if "length q \<le> 4" "indices q" for q
  proof (cases "q = p @ [i]")
    case True
    then show ?thesis
      using walk_to_updated [OF tree t upd] w by (simp add: walk_snoc hw_next_def Let_def)
  next
    case False
    then have "q \<noteq> p @ [i] @ r" for r using that(1) p by (cases r) auto
    with False walk_elsewhere [OF tree t upd that] show ?thesis by simp
  qed
  then show "length q \<le> 4 \<Longrightarrow> indices q \<Longrightarrow>
      walk m' root q = (if q = p @ [i] then Some (hw_frame w) else walk m root q)" by simp
  have TA: "table_at m' root q u \<longleftrightarrow> table_at m root q u" for q u
    using W [of q] p by (auto simp: table_at_def)
  then show T: "tables m' root = tables m root" by (simp add: tables_def)
  have "plain (table_entry m' u j)" if "u \<in> tables m root" "j < 512" for u j
    using tree upd w that by (cases "(u, j) = (t, i)") (auto simp: page_tree_def entry_updated_def)
  with tree T TA show "page_tree m' root" by (simp add: page_tree_def)
qed

text \<open>Linking a zeroed frame below an absent entry: one table is added, no page is mapped.\<close>

lemma link_update:
  assumes tree: "page_tree m root" and t: "table_at m root p t" and p: "length p \<le> 2"
    and i: "i < 512" and upd: "entry_updated m m' root t i"
    and w: "table_entry m' t i = w" "plain w" "bit w 0" "hw_frame w = u"
    and absent: "walk m root (p @ [i]) = None"
    and new: "u \<notin> tables m root" "\<And>j. j < 512 \<Longrightarrow> table_entry m' u j = 0"
  shows "page_tree m' root" "tables m' root = insert u (tables m root)"
    and "length q \<le> 4 \<Longrightarrow> indices q \<Longrightarrow>
      walk m' root q = (if q = p @ [i] then Some u else walk m root q)"
proof -
  have pi: "walk m' root (p @ [i]) = Some u"
    using walk_to_updated [OF tree t upd] w by (simp add: walk_snoc hw_next_def Let_def)
  have W: "walk m' root q = (if q = p @ [i] then Some u else walk m root q)"
    if "length q \<le> 4" "indices q" for q
  proof (cases "\<exists>r. q = p @ [i] @ r")
    case True
    then obtain r where r: "q = (p @ [i]) @ r" by auto
    show ?thesis
    proof (cases r)
      case Nil
      with r pi show ?thesis by simp
    next
      case (Cons j r')
      have "walk m' u r = None"
        using new(2) [of j] that r Cons by (simp add: hw_next_def Let_def)
      then have "walk m' root q = None" unfolding r walk_append [of m' root "p @ [i]"] pi by simp
      moreover have "walk m root q = None" unfolding r by (rule walk_prefix_None [OF absent])
      ultimately show ?thesis using r Cons by simp
    qed
  next
    case False
    with walk_elsewhere [OF tree t upd that] show ?thesis by (metis append.right_neutral append.assoc)
  qed
  then show "length q \<le> 4 \<Longrightarrow> indices q \<Longrightarrow>
      walk m' root q = (if q = p @ [i] then Some u else walk m root q)" by simp
  have "indices p" using t by (simp add: table_at_def)
  then have TA: "table_at m' root q v \<longleftrightarrow> table_at m root q v \<or> q = p @ [i] \<and> v = u" for q v
    using W [of q] p i absent by (auto simp: table_at_def)
  then show T: "tables m' root = insert u (tables m root)" by (auto simp: tables_def)
  have "plain (table_entry m' v j)" if "v \<in> tables m' root" "j < 512" for v j
    using tree upd w that new(2)
    by (cases "(v, j) = (t, i)"; cases "v = u") (auto simp: page_tree_def entry_updated_def T)
  moreover have "q = r" if "table_at m' root q v" "table_at m' root r v" for q r v
    using that tree new(1) unfolding TA page_tree_def by (auto simp: tables_def)
  ultimately show "page_tree m' root" using tree by (simp add: page_tree_def)
qed

section \<open>Pages of virtual addresses\<close>

text \<open>Two addresses have the same path when they agree in bits 12 to 47.\<close>

definition same_page :: "ptr \<Rightarrow> ptr \<Rightarrow> bool" where
  "same_page a b \<longleftrightarrow> take_bit 36 (drop_bit 12 a) = take_bit 36 (drop_bit 12 b)"

lemma take_bit_9_eq:
  "take_bit 9 (drop_bit k a) = take_bit 9 (drop_bit k b)
     \<longleftrightarrow> (\<forall>i. k \<le> i \<and> i < k + 9 \<longrightarrow> bit (a :: u64) i = bit b i)"
proof
  assume eq: "take_bit 9 (drop_bit k a) = take_bit 9 (drop_bit k b)"
  show "\<forall>i. k \<le> i \<and> i < k + 9 \<longrightarrow> bit a i = bit b i"
  proof (intro allI impI)
    fix i assume i: "k \<le> i \<and> i < k + 9"
    then have "i - k < 9" by linarith
    with i show "bit a i = bit b i"
      using arg_cong [OF eq, of "\<lambda>w. bit w (i - k)"] by (simp add: bit_simps)
  qed
next
  assume "\<forall>i. k \<le> i \<and> i < k + 9 \<longrightarrow> bit a i = bit b i"
  then show "take_bit 9 (drop_bit k a) = take_bit 9 (drop_bit k b)"
    by (intro bit_word_eqI) (auto simp: bit_simps)
qed

lemma same_page_bits: "same_page a b \<longleftrightarrow> (\<forall>i. 12 \<le> i \<and> i < 48 \<longrightarrow> bit a i = bit b i)"
proof
  assume eq: "same_page a b"
  show "\<forall>i. 12 \<le> i \<and> i < 48 \<longrightarrow> bit a i = bit b i"
  proof (intro allI impI)
    fix i :: nat assume i: "12 \<le> i \<and> i < 48"
    then have "i - 12 < 36" by linarith
    with i show "bit a i = bit b i"
      using arg_cong [OF eq [unfolded same_page_def], of "\<lambda>w. bit w (i - 12)"]
      by (simp add: bit_simps)
  qed
next
  assume "\<forall>i. 12 \<le> i \<and> i < 48 \<longrightarrow> bit a i = bit b i"
  then show "same_page a b"
    unfolding same_page_def by (intro bit_word_eqI) (auto simp: bit_simps)
qed

lemma vpath_eq_iff: "vpath a = vpath b \<longleftrightarrow> same_page a b"
proof -
  have "vpath a = vpath b \<longleftrightarrow> (\<forall>k \<in> {39, 30, 21, 12}. \<forall>i. k \<le> i \<and> i < k + 9 \<longrightarrow> bit a i = bit b i)"
    by (simp add: vpath_def take_bit_9_eq [symmetric] word_unat_eq_iff [symmetric])
  also have "\<dots> \<longleftrightarrow> (\<forall>i. 12 \<le> i \<and> i < 48 \<longrightarrow> bit a i = bit b i)"
  proof -
    have "12 \<le> i \<and> i < 48 \<longleftrightarrow> (\<exists>k \<in> {39, 30, 21, 12 :: nat}. k \<le> i \<and> i < k + 9)" for i :: nat
      by auto
    then show ?thesis by blast
  qed
  finally show ?thesis by (simp add: same_page_bits)
qed

lemma same_page_page_of: "same_page a b \<Longrightarrow> page_of a = page_of b"
  unfolding same_page_bits by (rule bit_word_eqI) (auto simp: page_of_def bit_simps)

lemma page_of_offset: "page_of a OR take_bit 12 a = take_bit 44 a"
  by (rule bit_word_eqI) (auto simp: page_of_def bit_simps)

text \<open>A zeroed PML4 is a tree of one table that maps nothing.\<close>

lemma empty_pml4:
  assumes "take_bit 12 root = 0" "\<And>x. x \<in> frame_of root \<Longrightarrow> m x = 0"
  shows "page_tree m root" "tables m root = {root}"
    and "walk m root (i # p) = None \<or> 512 \<le> i"
proof -
  have z: "table_entry m root i = 0" if "i < 512" for i
    unfolding table_entry_def using assms(2) entry_in_frame [OF that, of root]
    by (intro load64_zero) auto
  then have n: "hw_next m root i = None" if "i < 512" for i
    using that by (simp add: hw_next_def)
  then show "walk m root (i # p) = None \<or> 512 \<le> i" by (cases "i < 512") simp_all
  have T: "table_at m root p t \<longleftrightarrow> p = [] \<and> t = root" for p t
    using n by (cases p) (auto simp: table_at_def)
  then show "tables m root = {root}" by (simp add: tables_def)
  then show "page_tree m root" using assms(1) z by (simp add: page_tree_def T)
qed

end
