(* ===== verification/Paging.thy ===== *)
theory Paging
  imports Page_Tree Pmem
begin

text \<open>
  Four-level paging, \<^verbatim>\<open>src/src/memory/paging.c\<close>: building the tables one mapping at a time.
  \<open>pml4\<close> is the address of the global \<^verbatim>\<open>PML4\<close>. The contract of the frame allocator the code
  relies on is a locale, and the tables keep their shape under any allocator that meets it.
\<close>

unbundle bit_operations_syntax

section \<open>The indices of a virtual address\<close>

record VaddrIndexes =
  pml4_entry :: u16
  pdpt_entry :: u16
  pd_entry :: u16
  pt_entry :: u16

abbreviation PAGE_OFFSET_BITS :: nat where "PAGE_OFFSET_BITS \<equiv> 12"
abbreviation BITS_9_MASK :: u64 where "BITS_9_MASK \<equiv> 0x1ff"

definition extract_vaddr_paging_indexes :: "u64 \<Rightarrow> VaddrIndexes" where
  "extract_vaddr_paging_indexes vaddr =
     (let v1 = drop_bit PAGE_OFFSET_BITS vaddr;
          v2 = drop_bit 9 v1;
          v3 = drop_bit 9 v2;
          v4 = drop_bit 9 v3
      in \<lparr>pml4_entry = ucast (v4 AND BITS_9_MASK), pdpt_entry = ucast (v3 AND BITS_9_MASK),
          pd_entry = ucast (v2 AND BITS_9_MASK), pt_entry = ucast (v1 AND BITS_9_MASK)\<rparr>)"

section \<open>Entries in memory\<close>

text \<open>\<^verbatim>\<open>&table[index]\<close>, and assignments to the fields of the entry there.\<close>

definition entry_ptr :: "ptr \<Rightarrow> u16 \<Rightarrow> ptr" where
  "entry_ptr table index = table + ucast index * 8"

definition get_PML4 :: "pstate \<Rightarrow> ptr \<Rightarrow> PML4_Entry" where
  "get_PML4 s a = read_PML4_Entry (load64 (ram s) a)"

definition set_PML4 :: "ptr \<Rightarrow> (PML4_Entry \<Rightarrow> PML4_Entry) \<Rightarrow> pstate \<Rightarrow> pstate" where
  "set_PML4 a f s = s\<lparr>ram := store64 a (lay_PML4_Entry (f (get_PML4 s a))) (ram s)\<rparr>"

definition get_PDPT :: "pstate \<Rightarrow> ptr \<Rightarrow> PDPT_Entry" where
  "get_PDPT s a = read_PDPT_Entry (load64 (ram s) a)"

definition set_PDPT :: "ptr \<Rightarrow> (PDPT_Entry \<Rightarrow> PDPT_Entry) \<Rightarrow> pstate \<Rightarrow> pstate" where
  "set_PDPT a f s = s\<lparr>ram := store64 a (lay_PDPT_Entry (f (get_PDPT s a))) (ram s)\<rparr>"

definition get_PD :: "pstate \<Rightarrow> ptr \<Rightarrow> PD_Entry" where
  "get_PD s a = read_PD_Entry (load64 (ram s) a)"

definition set_PD :: "ptr \<Rightarrow> (PD_Entry \<Rightarrow> PD_Entry) \<Rightarrow> pstate \<Rightarrow> pstate" where
  "set_PD a f s = s\<lparr>ram := store64 a (lay_PD_Entry (f (get_PD s a))) (ram s)\<rparr>"

definition get_PT :: "pstate \<Rightarrow> ptr \<Rightarrow> PT_Entry" where
  "get_PT s a = read_PT_Entry (load64 (ram s) a)"

definition set_PT :: "ptr \<Rightarrow> (PT_Entry \<Rightarrow> PT_Entry) \<Rightarrow> pstate \<Rightarrow> pstate" where
  "set_PT a f s = s\<lparr>ram := store64 a (lay_PT_Entry (f (get_PT s a))) (ram s)\<rparr>"

text \<open>
  \<^verbatim>\<open>(uint64_t) p >> PAGE_OFFSET_BITS\<close> assigned to a field of 32 bits, and \<^verbatim>\<open>field <<
  PAGE_OFFSET_BITS\<close> read from one. The type in which C shifts a field declared
  \<^verbatim>\<open>uint64_t x : 32\<close> is the compiler's choice: \<open>pw\<close> is its width, 32 where the field keeps
  its own width (GCC) and 64 where it is promoted to the declared type (Clang).
\<close>

definition to_field :: "ptr \<Rightarrow> 32 word" where
  "to_field p = ucast (drop_bit PAGE_OFFSET_BITS p)"

definition of_field :: "nat \<Rightarrow> 32 word \<Rightarrow> ptr" where
  "of_field pw f = take_bit pw (push_bit PAGE_OFFSET_BITS (ucast f))"

definition zero_page :: "ptr \<Rightarrow> pstate \<Rightarrow> pstate" where
  "zero_page p s = s\<lparr>ram := memset p 0 PAGE_SZ (ram s)\<rparr>"

section \<open>Mapping a page\<close>

definition descend_PML4 :: "nat \<Rightarrow> ptr \<Rightarrow> pstate \<Rightarrow> pstate \<times> ptr" where
  "descend_PML4 pw entry s =
     (if pml4_present (get_PML4 s entry) = 0 then
        let (s1, PDPT) = pmem_request_frame s;
            s2 = zero_page PDPT s1;
            s3 = set_PML4 entry (\<lambda>e. e\<lparr>PDPT_addr := to_field PDPT\<rparr>) s2;
            s4 = set_PML4 entry (\<lambda>e. e\<lparr>pml4_present := 1\<rparr>) s3;
            s5 = set_PML4 entry (\<lambda>e. e\<lparr>pml4_rw := 1\<rparr>) s4
        in (s5, PDPT)
      else (s, of_field pw (PDPT_addr (get_PML4 s entry))))"

definition descend_PDPT :: "nat \<Rightarrow> ptr \<Rightarrow> pstate \<Rightarrow> pstate \<times> ptr" where
  "descend_PDPT pw entry s =
     (if pdpt_present (get_PDPT s entry) = 0 then
        let (s1, PD) = pmem_request_frame s;
            s2 = zero_page PD s1;
            s3 = set_PDPT entry (\<lambda>e. e\<lparr>PD_addr := to_field PD\<rparr>) s2;
            s4 = set_PDPT entry (\<lambda>e. e\<lparr>pdpt_present := 1\<rparr>) s3;
            s5 = set_PDPT entry (\<lambda>e. e\<lparr>pdpt_rw := 1\<rparr>) s4
        in (s5, PD)
      else (s, of_field pw (PD_addr (get_PDPT s entry))))"

definition descend_PD :: "nat \<Rightarrow> ptr \<Rightarrow> pstate \<Rightarrow> pstate \<times> ptr" where
  "descend_PD pw entry s =
     (if pd_present (get_PD s entry) = 0 then
        let (s1, PT) = pmem_request_frame s;
            s2 = zero_page PT s1;
            s3 = set_PD entry (\<lambda>e. e\<lparr>PT_addr := to_field PT\<rparr>) s2;
            s4 = set_PD entry (\<lambda>e. e\<lparr>pd_present := 1\<rparr>) s3;
            s5 = set_PD entry (\<lambda>e. e\<lparr>pd_rw := 1\<rparr>) s4
        in (s5, PT)
      else (s, of_field pw (PT_addr (get_PD s entry))))"

definition set_page :: "ptr \<Rightarrow> ptr \<Rightarrow> pstate \<Rightarrow> pstate" where
  "set_page entry paddr s =
     (let s1 = set_PT entry (\<lambda>e. e\<lparr>page_addr := to_field paddr\<rparr>) s;
          s2 = set_PT entry (\<lambda>e. e\<lparr>pt_present := 1\<rparr>) s1
      in set_PT entry (\<lambda>e. e\<lparr>pt_rw := 1\<rparr>) s2)"

definition map_vaddr_to_paddr :: "nat \<Rightarrow> ptr \<Rightarrow> ptr \<Rightarrow> ptr \<Rightarrow> pstate \<Rightarrow> pstate" where
  "map_vaddr_to_paddr pw pml4 vaddr paddr s =
     (let indexes = extract_vaddr_paging_indexes vaddr;
          (s1, PDPT) = descend_PML4 pw (entry_ptr pml4 (pml4_entry indexes)) s;
          (s2, PD) = descend_PDPT pw (entry_ptr PDPT (pdpt_entry indexes)) s1;
          (s3, PT) = descend_PD pw (entry_ptr PD (pd_entry indexes)) s2
      in set_page (entry_ptr PT (pt_entry indexes)) paddr s3)"

definition is_page_present :: "nat \<Rightarrow> ptr \<Rightarrow> ptr \<Rightarrow> pstate \<Rightarrow> bool" where
  "is_page_present pw pml4 vaddr s =
     (let indexes = extract_vaddr_paging_indexes vaddr;
          e4 = get_PML4 s (entry_ptr pml4 (pml4_entry indexes))
      in if pml4_present e4 = 0 then False else
      let PDPT = of_field pw (PDPT_addr e4);
          e3 = get_PDPT s (entry_ptr PDPT (pdpt_entry indexes))
      in if pdpt_present e3 = 0 then False else
      let PD = of_field pw (PD_addr e3);
          e2 = get_PD s (entry_ptr PD (pd_entry indexes))
      in if pd_present e2 = 0 then False else
      let PT = of_field pw (PT_addr e2)
      in pt_present (get_PT s (entry_ptr PT (pt_entry indexes))) \<noteq> 0)"

section \<open>Mapping areas one to one\<close>

text \<open>The state of the loop is the machine state and the variable \<^verbatim>\<open>addr\<close>.\<close>

definition identity_paging :: "nat \<Rightarrow> ptr \<Rightarrow> ptr \<Rightarrow> u64 \<Rightarrow> pstate \<Rightarrow> pstate" where
  "identity_paging pw pml4 addr n s =
     fst (for_bound 0 (\<lambda>_. n div (PAGE_SZ + 1) + 1)
       (\<lambda>_ (s, addr). (map_vaddr_to_paddr pw pml4 addr addr s, addr + PAGE_SZ)) (s, addr))"

definition identity_paging_frames :: "nat \<Rightarrow> ptr \<Rightarrow> pstate \<Rightarrow> pstate" where
  "identity_paging_frames pw pml4 s =
     for_bound 0 (\<lambda>s. frames (pm s))
       (\<lambda>i s. let addr = frame_addr_at s i in map_vaddr_to_paddr pw pml4 addr addr s) s"

section \<open>The three directory levels are one\<close>

definition link_entry :: "32 word \<Rightarrow> u64 \<Rightarrow> u64" where
  "link_entry f w = lay_PD_Entry ((read_PD_Entry w)\<lparr>PT_addr := f, pd_present := 1, pd_rw := 1\<rparr>)"

definition descend ::
  "(pstate \<Rightarrow> pstate \<times> ptr) \<Rightarrow> nat \<Rightarrow> ptr \<Rightarrow> pstate \<Rightarrow> pstate \<times> ptr" where
  "descend request pw entry s =
     (if \<not> bit (load64 (ram s) entry) 0 then
        let (s1, t) = request s;
            s2 = zero_page t s1
        in (s2\<lparr>ram := store64 entry (link_entry (to_field t) (load64 (ram s2) entry)) (ram s2)\<rparr>, t)
      else (s, of_field pw (field_at 12 (load64 (ram s) entry))))"

lemma present_bit: "(field_at 0 w :: 1 word) = 0 \<longleftrightarrow> \<not> bit w 0"
proof
  assume "(field_at 0 w :: 1 word) = 0"
  then have "\<not> bit (field_at 0 w :: 1 word) 0" by simp
  then show "\<not> bit w 0" by (simp add: bits_simps)
next
  assume "\<not> bit w 0"
  then show "(field_at 0 w :: 1 word) = 0"
    by (intro bit_word_eqI) (simp add: bits_simps)
qed

lemma set_level_link:
  "set_PML4 a (\<lambda>e. e\<lparr>pml4_rw := 1\<rparr>) (set_PML4 a (\<lambda>e. e\<lparr>pml4_present := 1\<rparr>)
     (set_PML4 a (\<lambda>e. e\<lparr>PDPT_addr := f\<rparr>) s))
   = s\<lparr>ram := store64 a (link_entry f (load64 (ram s) a)) (ram s)\<rparr>"
  "set_PDPT a (\<lambda>e. e\<lparr>pdpt_rw := 1\<rparr>) (set_PDPT a (\<lambda>e. e\<lparr>pdpt_present := 1\<rparr>)
     (set_PDPT a (\<lambda>e. e\<lparr>PD_addr := f\<rparr>) s))
   = s\<lparr>ram := store64 a (link_entry f (load64 (ram s) a)) (ram s)\<rparr>"
  "set_PD a (\<lambda>e. e\<lparr>pd_rw := 1\<rparr>) (set_PD a (\<lambda>e. e\<lparr>pd_present := 1\<rparr>)
     (set_PD a (\<lambda>e. e\<lparr>PT_addr := f\<rparr>) s))
   = s\<lparr>ram := store64 a (link_entry f (load64 (ram s) a)) (ram s)\<rparr>"
  by (simp_all add: set_PML4_def get_PML4_def set_PDPT_def get_PDPT_def set_PD_def get_PD_def
      store64_twice read_lay_PML4_Entry read_lay_PDPT_Entry read_lay_PD_Entry)
    (simp_all add: link_entry_def lay_PML4_Entry_def read_PML4_Entry_def lay_PDPT_Entry_def
      read_PDPT_Entry_def lay_PD_Entry_def read_PD_Entry_def)

lemma get_level:
  "pml4_present (get_PML4 s a) = field_at 0 (load64 (ram s) a)"
  "pdpt_present (get_PDPT s a) = field_at 0 (load64 (ram s) a)"
  "pd_present (get_PD s a) = field_at 0 (load64 (ram s) a)"
  "pt_present (get_PT s a) = field_at 0 (load64 (ram s) a)"
  "PDPT_addr (get_PML4 s a) = field_at 12 (load64 (ram s) a)"
  "PD_addr (get_PDPT s a) = field_at 12 (load64 (ram s) a)"
  "PT_addr (get_PD s a) = field_at 12 (load64 (ram s) a)"
  by (simp_all add: get_PML4_def get_PDPT_def get_PD_def get_PT_def read_PML4_Entry_def
      read_PDPT_Entry_def read_PD_Entry_def read_PT_Entry_def)

lemma descend_levels:
  "descend_PML4 = descend pmem_request_frame"
  "descend_PDPT = descend pmem_request_frame"
  "descend_PD = descend pmem_request_frame"
  by (intro ext, simp add: descend_PML4_def descend_PDPT_def descend_PD_def descend_def
      get_level present_bit set_level_link Let_def split: prod.split)+

section \<open>What the written entries mean\<close>

text \<open>The bits of a linked directory entry and of a page entry.\<close>

definition page_entry :: "32 word \<Rightarrow> u64 \<Rightarrow> u64" where
  "page_entry f w = lay_PT_Entry ((read_PT_Entry w)\<lparr>page_addr := f, pt_present := 1, pt_rw := 1\<rparr>)"

lemma set_page_entry:
  "set_page a pa s = s\<lparr>ram := store64 a (page_entry (to_field pa) (load64 (ram s) a)) (ram s)\<rparr>"
  by (simp add: set_page_def set_PT_def get_PT_def store64_twice read_lay_PT_Entry Let_def)
    (simp add: page_entry_def)

lemma plain_field:
  assumes "plain w" "2 \<le> k" "k + LENGTH('n) \<le> 12 \<or> 44 \<le> k"
  shows "(field_at k w :: 'n::len word) = 0"
proof (rule bit_word_eqI)
  fix i assume i: "i < LENGTH('n)"
  have "\<not> bit w (k + i)"
  proof
    assume b: "bit w (k + i)"
    then have "k + i < 64" using bit_imp_le_length by fastforce
    with assms b i show False by (auto simp: plain_def)
  qed
  then show "bit (field_at k w :: 'n word) i \<longleftrightarrow> bit (0 :: 'n word) i" by (simp add: bits_simps)
qed

definition mapped_entry :: "32 word \<Rightarrow> u64" where
  "mapped_entry f = at_field 0 (1 :: 1 word) OR at_field 1 (1 :: 1 word) OR at_field 12 f"

lemma plain_entries:
  assumes "plain w"
  shows "link_entry f w = mapped_entry f" "page_entry f w = mapped_entry f"
  using assms
  by (simp_all add: link_entry_def page_entry_def mapped_entry_def lay_PD_Entry_def
      read_PD_Entry_def lay_PT_Entry_def read_PT_Entry_def plain_field)

lemma bit_mapped_entry: "bit (mapped_entry f) i \<longleftrightarrow> i \<le> 1 \<or> 12 \<le> i \<and> i < 44 \<and> bit f (i - 12)"
  by (auto simp: mapped_entry_def bits_simps bit_or_iff bit_1_iff dest: bit_imp_le_length)

lemma mapped_entry_facts:
  "plain (mapped_entry f)" "bit (mapped_entry f) 0"
  "hw_frame (mapped_entry (to_field a)) = page_of a"
  by (auto simp: plain_def bit_mapped_entry hw_frame_def page_of_def to_field_def bit_simps
      intro!: bit_word_eqI)

text \<open>
  The code follows an entry as the processor does, if the frame number fits the type that the
  code shifts it in.
\<close>

lemma follow_entry:
  assumes "plain w" "take_bit K (hw_frame w) = hw_frame w" "K \<le> pw"
  shows "of_field pw (field_at 12 w) = hw_frame w"
proof (rule bit_word_eqI)
  fix i assume i: "i < LENGTH(64)"
  have hi: "i < 44" if "bit (hw_frame w) i"
  proof -
    from that have "bit w i" "12 \<le> i" by (auto simp: hw_frame_def bit_simps)
    with assms(1) i show ?thesis by (auto simp: plain_def)
  qed
  have "bit (take_bit K (hw_frame w)) i \<longleftrightarrow> bit (hw_frame w) i" by (simp add: assms(2))
  then have lo: "i < pw" if "bit (hw_frame w) i" using that assms(3) by (simp add: bit_simps)
  show "bit (of_field pw (field_at 12 w)) i \<longleftrightarrow> bit (hw_frame w) i"
    using i hi lo by (auto simp: of_field_def field_at_def hw_frame_def bit_simps)
qed

text \<open>The code's indices are the path of the address.\<close>

lemma entry_ptr_index:
  "unat (ucast index :: u64) = n \<Longrightarrow> entry_ptr t index = off_ptr t (8 * n)"
  by (auto simp: entry_ptr_def off_ptr_def mult.commute)

lemma index_of_bits:
  "unat (ucast (ucast (w AND 0x1ff :: u64) :: u16) :: u64) = unat (take_bit 9 w)"
proof -
  have eq: "w AND 0x1ff = take_bit 9 w" by (simp add: take_bit_eq_mask mask_eq_exp_minus_1)
  have "ucast (ucast (w AND 0x1ff :: u64) :: u16) = take_bit 9 w"
    unfolding eq by (intro bit_word_eqI) (auto simp: bit_simps)
  then show ?thesis by simp
qed

lemma vaddr_entries:
  "entry_ptr t (pml4_entry (extract_vaddr_paging_indexes va)) = off_ptr t (8 * (vpath va ! 0))"
  "entry_ptr t (pdpt_entry (extract_vaddr_paging_indexes va)) = off_ptr t (8 * (vpath va ! 1))"
  "entry_ptr t (pd_entry (extract_vaddr_paging_indexes va)) = off_ptr t (8 * (vpath va ! 2))"
  "entry_ptr t (pt_entry (extract_vaddr_paging_indexes va)) = off_ptr t (8 * (vpath va ! 3))"
  by (rule entry_ptr_index,
      simp add: extract_vaddr_paging_indexes_def Let_def index_of_bits vpath_def drop_bit_drop_bit)+

end
