(* ===== verification/Paging_Map.thy ===== *)
theory Paging_Map
  imports Paging
begin

text \<open>
  Mapping a page is one update of the translation the tables define. The proof is made once for
  any frame allocator that meets the contract \<open>page_frames\<close>, and the contract is then
  discharged for \<^verbatim>\<open>pmem_request_frame\<close> on the kernel's array of frames.
\<close>

unbundle bit_operations_syntax

section \<open>The contract of the allocator\<close>

text \<open>
  \<open>avail\<close> is the set of frames a request may return, \<open>meta\<close> the memory the allocator keeps its
  records in, \<open>info\<close> what no request changes, \<open>good\<close> its invariant; frames lie below
  \<open>2 ^ K\<close>. A request takes a frame away and
  writes to the records only, and writing elsewhere does not disturb the allocator.
\<close>

locale page_frames =
  fixes request :: "pstate \<Rightarrow> pstate \<times> ptr"
    and good :: "pstate \<Rightarrow> bool"
    and avail :: "pstate \<Rightarrow> ptr set"
    and meta :: "pstate \<Rightarrow> ptr set"
    and info :: "pstate \<Rightarrow> 'info"
    and K :: nat
  assumes request: "good s \<Longrightarrow> avail s \<noteq> {} \<Longrightarrow> request s = (s', f) \<Longrightarrow>
      f \<in> avail s \<and> good s' \<and> avail s' = avail s - {f} \<and> meta s' = meta s
      \<and> info s' = info s \<and> (\<forall>x. x \<notin> meta s \<longrightarrow> ram s' x = ram s x)"
    and elsewhere: "good s \<Longrightarrow> (\<And>x. x \<in> meta s \<Longrightarrow> m x = ram s x) \<Longrightarrow>
      good (s\<lparr>ram := m\<rparr>) \<and> avail (s\<lparr>ram := m\<rparr>) = avail s \<and> meta (s\<lparr>ram := m\<rparr>) = meta s
      \<and> info (s\<lparr>ram := m\<rparr>) = info s"
    and avail_frame: "good s \<Longrightarrow> f \<in> avail s \<Longrightarrow>
      take_bit 12 f = 0 \<and> take_bit K f = f \<and> frame_of f \<inter> meta s = {}"
    and finite_avail: "good s \<Longrightarrow> finite (avail s)"
    and K_44: "good s \<Longrightarrow> K \<le> 44"

text \<open>The tables are a tree, in frames that are neither available nor records.\<close>

definition tables_ok :: "ptr set \<Rightarrow> ptr set \<Rightarrow> nat \<Rightarrow> ptr \<Rightarrow> mem \<Rightarrow> bool" where
  "tables_ok av me K root m \<longleftrightarrow> page_tree m root
     \<and> (\<forall>t \<in> tables m root. t \<notin> av \<and> frame_of t \<inter> me = {} \<and> (t \<noteq> root \<longrightarrow> take_bit K t = t))"

lemma tables_ok_table:
  assumes "tables_ok av me K root m" "table_at m root p t"
  shows "t \<in> tables m root" "t \<notin> av" "frame_of t \<inter> me = {}" "take_bit 12 t = 0"
    "p \<noteq> [] \<Longrightarrow> take_bit K t = t" "i < 512 \<Longrightarrow> plain (table_entry m t i)"
proof -
  show t: "t \<in> tables m root" using assms(2) by (auto simp: tables_def)
  with assms(1) show "t \<notin> av" "frame_of t \<inter> me = {}" "i < 512 \<Longrightarrow> plain (table_entry m t i)"
    by (auto simp: tables_ok_def page_tree_def)
  show "take_bit 12 t = 0"
    using tables_aligned [OF _ t] assms(1) by (simp add: tables_ok_def)
  have "t \<noteq> root" if "p \<noteq> []"
  proof
    assume "t = root"
    then have "table_at m root [] t" by (simp add: table_at_def)
    with that assms show False unfolding tables_ok_def page_tree_def by metis
  qed
  with assms(1) t show "p \<noteq> [] \<Longrightarrow> take_bit K t = t" by (auto simp: tables_ok_def)
qed

context page_frames
begin

text \<open>
  The invariant, with enough frames for the tables still missing on the paths in \<open>P\<close>; and the
  part of the state that building tables keeps.
\<close>

definition reach :: "nat list set \<Rightarrow> ptr \<Rightarrow> pstate \<Rightarrow> bool" where
  "reach P root s \<longleftrightarrow> good s \<and> tables_ok (avail s) (meta s) K root (ram s) \<and> finite P
     \<and> card {q \<in> P. walk (ram s) root q = None} \<le> card (avail s)"

definition kept :: "ptr \<Rightarrow> pstate \<Rightarrow> pstate \<Rightarrow> bool" where
  "kept root s s' \<longleftrightarrow> meta s' = meta s \<and> info s' = info s
     \<and> tables (ram s') root \<union> avail s' = tables (ram s) root \<union> avail s
     \<and> (\<forall>x. x \<notin> meta s \<longrightarrow> x \<notin> \<Union> (frame_of ` (tables (ram s) root \<union> avail s))
          \<longrightarrow> ram s' x = ram s x)"

lemma kept_refl [simp]: "kept root s s"
  by (simp add: kept_def)

lemma kept_trans: "kept root s t \<Longrightarrow> kept root t u \<Longrightarrow> kept root s u"
  by (simp add: kept_def)

text \<open>Following an entry that is present.\<close>

lemma descend_present:
  assumes "tables_ok (avail s) (meta s) K root (ram s)" "table_at (ram s) root p t"
    and "length p \<le> 2" "i < 512" "K \<le> pw" "walk (ram s) root (p @ [i]) = Some u"
  shows "descend request pw (off_ptr t (8 * i)) s = (s, u)"
proof -
  let ?w = "load64 (ram s) (off_ptr t (8 * i))"
  have w: "bit ?w 0" "u = hw_frame ?w"
    using assms(2,6) by (auto simp: walk_snoc table_at_def hw_next_def table_entry_def Let_def
        split: if_splits)
  have "table_at (ram s) root (p @ [i]) u"
    using assms by (simp add: table_at_def)
  then have "take_bit K u = u" by (rule tables_ok_table [OF assms(1)]) simp
  moreover have "plain ?w"
    using tables_ok_table(6) [OF assms(1,2,4)] by (simp add: table_entry_def)
  ultimately have "of_field pw (field_at 12 ?w) = u"
    using w(2) assms(5) follow_entry by metis
  with w(1) show ?thesis by (simp add: descend_def)
qed

text \<open>A frame taken from the allocator and zeroed.\<close>

lemma fresh_table:
  assumes "good s" "avail s \<noteq> {}" "request s = (s1, u)"
  defines "s2 \<equiv> zero_page u s1"
  shows "u \<in> avail s" "good s2" "avail s2 = avail s - {u}" "meta s2 = meta s" "info s2 = info s"
    "x \<notin> meta s \<Longrightarrow> x \<notin> frame_of u \<Longrightarrow> ram s2 x = ram s x"
    "x \<in> frame_of u \<Longrightarrow> ram s2 x = 0"
proof -
  note r = request [OF assms(1-3)]
  then show "u \<in> avail s" by simp
  have fu: "frame_of u \<inter> meta s = {}" using avail_frame [OF assms(1)] r by simp
  have ram: "ram s2 x = (if x \<in> frame_of u then 0 else ram s1 x)" for x
    by (simp add: s2_def zero_page_def memset_apply frame_of_def)
  have "good s2 \<and> avail s2 = avail s1 \<and> meta s2 = meta s1 \<and> info s2 = info s1"
    unfolding s2_def zero_page_def
    using r fu by (intro elsewhere) (auto simp: memset_apply frame_of_def)
  with r show "good s2" "avail s2 = avail s - {u}" "meta s2 = meta s"
    "info s2 = info s" by simp_all
  show "x \<notin> meta s \<Longrightarrow> x \<notin> frame_of u \<Longrightarrow> ram s2 x = ram s x"
    "x \<in> frame_of u \<Longrightarrow> ram s2 x = 0"
    using ram r by simp_all
qed

text \<open>Writing an entry of a table once a fresh table is there.\<close>

lemma fresh_entries:
  fixes w :: u64
  assumes ok: "tables_ok (avail s) (meta s) K root (ram s)" and t: "table_at (ram s) root p t"
    and i: "i < 512" and good: "good s" and u: "u \<in> avail s"
    and m: "\<And>x. x \<notin> meta s \<Longrightarrow> x \<notin> frame_of u \<Longrightarrow> m x = ram s x" "\<And>x. x \<in> frame_of u \<Longrightarrow> m x = 0"
  defines "m' \<equiv> store64 (off_ptr t (8 * i)) w m"
  shows "entry_updated (ram s) m' root t i" "table_entry m' t i = w"
    and "table_entry m t i = table_entry (ram s) t i"
    and "j < 512 \<Longrightarrow> table_entry m' u j = 0"
    and "u \<notin> tables (ram s) root"
    and "x \<notin> frame_of t \<Longrightarrow> m' x = m x"
proof -
  have al: "take_bit 12 u = 0" using avail_frame [OF good u] by simp
  show un: "u \<notin> tables (ram s) root" using ok u by (auto simp: tables_ok_def)
  have dis: "frame_of v \<inter> frame_of u = {}" if "v \<in> tables (ram s) root" for v
    using aligned_frames_disjoint [OF tables_aligned al] ok that un by (auto simp: tables_ok_def)
  have old: "table_entry m v j = table_entry (ram s) v j"
    if "v \<in> tables (ram s) root" "j < 512" for v j
    using ok that dis [OF that(1)] m(1)
    by (intro table_entry_cong) (auto simp: tables_ok_def)
  have tree: "page_tree (ram s) root" using ok by (simp add: tables_ok_def)
  note tt = tables_ok_table [OF ok t] and es = entry_store [where w = w, OF tree t i old, folded m'_def]
  show "table_entry m t i = table_entry (ram s) t i" using old [OF tt(1) i] .
  show "entry_updated (ram s) m' root t i" "table_entry m' t i = w"
    and out: "x \<notin> frame_of t \<Longrightarrow> m' x = m x" for x
    using es by simp_all
  show "table_entry m' u j = 0" if "j < 512"
  proof -
    have "m' x = 0" if "x \<in> frame_of u" for x using out [of x] dis [OF tt(1)] m(2) that by auto
    then show ?thesis
      unfolding table_entry_def using entry_in_frame [OF that, of u] by (intro load64_zero) auto
  qed
qed

lemma descend_absent:
  assumes good: "good s" and ok: "tables_ok (avail s) (meta s) K root (ram s)"
    and t: "table_at (ram s) root p t" and p: "length p \<le> 2" and i: "i < 512"
    and absent: "walk (ram s) root (p @ [i]) = None" and av: "avail s \<noteq> {}"
  obtains s' u where "descend request pw (off_ptr t (8 * i)) s = (s', u)" "u \<in> avail s"
    "good s'" "avail s' = avail s - {u}" "tables_ok (avail s') (meta s') K root (ram s')"
    "\<And>q. length q \<le> 4 \<Longrightarrow> indices q \<Longrightarrow>
       walk (ram s') root q = (if q = p @ [i] then Some u else walk (ram s) root q)"
    "kept root s s'"
proof -
  obtain s1 u where req: "request s = (s1, u)" by (cases "request s")
  define s2 where "s2 = zero_page u s1"
  note f = fresh_table [OF good av req, folded s2_def]
  note uf = avail_frame [OF good f(1)]
  define w where "w = mapped_entry (to_field u)"
  define m' where "m' = store64 (off_ptr t (8 * i)) w (ram s2)"
  note fe0 = fresh_entries(3,5) [OF ok t i good f(1) f(6) f(7)]
    and fe = fresh_entries(1,2,4,6) [where w = w, OF ok t i good f(1) f(6) f(7), folded m'_def]
  note tt = tables_ok_table [OF ok t]
  define s' where "s' = s2\<lparr>ram := m'\<rparr>"
  have w: "plain w" "bit w 0" "hw_frame w = u"
    using uf K_44 [OF good] mapped_entry_facts page_of_id [of u]
    unfolding w_def by (auto, metis min.absorb2 take_bit_take_bit)
  have bit0: "\<not> bit (table_entry (ram s) t i) 0"
    using absent t by (auto simp: walk_snoc table_at_def hw_next_def Let_def split: if_splits)
  have "link_entry (to_field u) (load64 (ram s2) (off_ptr t (8 * i))) = w"
    using plain_entries(1) [OF tt(6) [OF i]] fe0(1) by (simp add: w_def table_entry_def)
  then have desc: "descend request pw (off_ptr t (8 * i)) s = (s', u)"
    using bit0 req by (simp add: descend_def table_entry_def s2_def [symmetric] s'_def m'_def)
  have "good s' \<and> avail s' = avail s2 \<and> meta s' = meta s2 \<and> info s' = info s2"
    unfolding s'_def using f(2,4) fe(4) tt(3) by (intro elsewhere) auto
  then have s': "good s'" "avail s' = avail s - {u}" "meta s' = meta s" "info s' = info s" "ram s' = m'"
    using f by (simp_all add: s'_def)
  have tree: "page_tree (ram s) root" using ok by (simp add: tables_ok_def)
  note lu = link_update [OF tree t p i fe(1) fe(2) w absent fe0(2) fe(3)]
  have "tables_ok (avail s') (meta s') K root (ram s')"
    using ok lu(1,2) s' uf by (auto simp: tables_ok_def)
  moreover have "kept root s s'"
    using s' lu(2) f(1) f(6) fe(4) tt(1) by (auto simp: kept_def)
  ultimately show thesis using that desc f(1) s' lu(3) by blast
qed

text \<open>One level down, whether the entry is present or not.\<close>

lemma descend_step:
  assumes r: "reach P root s" and t: "table_at (ram s) root p t" and p: "length p \<le> 2"
    and i: "i < 512" and pw: "K \<le> pw" and P: "p @ [i] \<in> P" "\<forall>q \<in> P. length q \<le> 4 \<and> indices q"
  obtains s' u where "descend request pw (off_ptr t (8 * i)) s = (s', u)" "reach P root s'"
    "table_at (ram s') root (p @ [i]) u" "kept root s s'"
    "\<And>q. length q \<le> 4 \<Longrightarrow> indices q \<Longrightarrow>
       walk (ram s') root q = (if q = p @ [i] then Some u else walk (ram s) root q)"
proof (cases "walk (ram s) root (p @ [i])")
  case (Some u)
  have ok: "tables_ok (avail s) (meta s) K root (ram s)" using r by (simp add: reach_def)
  have "table_at (ram s) root (p @ [i]) u" using Some t p i by (simp add: table_at_def)
  then show thesis
    by (rule that [OF descend_present [OF ok t p i pw Some] r _ kept_refl]) (simp add: Some)
next
  case None
  have good: "good s" and ok: "tables_ok (avail s) (meta s) K root (ram s)" and fin: "finite P"
    and enough: "card {q \<in> P. walk (ram s) root q = None} \<le> card (avail s)"
    using r by (simp_all add: reach_def)
  have fav: "finite (avail s)" by (rule finite_avail [OF good])
  have in': "p @ [i] \<in> {q \<in> P. walk (ram s) root q = None}" using P(1) None by simp
  then have "0 < card {q \<in> P. walk (ram s) root q = None}" using fin by (auto simp: card_gt_0_iff)
  with enough have "avail s \<noteq> {}" by auto
  then obtain s' u where s': "descend request pw (off_ptr t (8 * i)) s = (s', u)" "u \<in> avail s"
    "good s'" "avail s' = avail s - {u}" "tables_ok (avail s') (meta s') K root (ram s')"
    and W: "\<And>q. length q \<le> 4 \<Longrightarrow> indices q \<Longrightarrow>
       walk (ram s') root q = (if q = p @ [i] then Some u else walk (ram s) root q)"
    and k: "kept root s s'"
    by (rule descend_absent [OF good ok t p i None, where pw = pw]) (rule that; assumption)
  have "walk (ram s') root q = None \<longleftrightarrow> q \<noteq> p @ [i] \<and> walk (ram s) root q = None" if "q \<in> P" for q
    using W [of q] P(2) that by simp
  then have "{q \<in> P. walk (ram s') root q = None}
      = {q \<in> P. walk (ram s) root q = None} - {p @ [i]}"
    by blast
  then have "card {q \<in> P. walk (ram s') root q = None} \<le> card (avail s')"
    using in' fin enough fav s'(2,4) by (simp add: card_Diff_singleton)
  with s' fin have "reach P root s'" by (simp add: reach_def)
  moreover have "table_at (ram s') root (p @ [i]) u"
    using t p i W [of "p @ [i]"] by (simp add: table_at_def)
  ultimately show thesis by (rule that [OF s'(1) _ _ k W])
qed

text \<open>The entry of the page itself.\<close>

lemma set_page_step:
  fixes pa :: ptr
  assumes r: "reach P root s" and t: "table_at (ram s) root p t" and p: "length p = 3"
    and i: "i < 512" and P: "\<forall>q \<in> P. length q \<le> 4 \<and> indices q"
  defines "s' \<equiv> set_page (off_ptr t (8 * i)) pa s"
  shows "reach P root s'" "kept root s s'"
    and "length q \<le> 4 \<Longrightarrow> indices q \<Longrightarrow>
       walk (ram s') root q = (if q = p @ [i] then Some (page_of pa) else walk (ram s) root q)"
proof -
  have good: "good s" and ok: "tables_ok (avail s) (meta s) K root (ram s)" and fin: "finite P"
    and enough: "card {q \<in> P. walk (ram s) root q = None} \<le> card (avail s)"
    using r by (simp_all add: reach_def)
  note tt = tables_ok_table [OF ok t]
  define w where "w = mapped_entry (to_field pa)"
  define m' where "m' = store64 (off_ptr t (8 * i)) w (ram s)"
  have "page_entry (to_field pa) (load64 (ram s) (off_ptr t (8 * i))) = w"
    using plain_entries(2) [OF tt(6) [OF i]] by (simp add: w_def table_entry_def)
  then have s': "s' = s\<lparr>ram := m'\<rparr>" by (simp add: s'_def set_page_entry m'_def)
  have tree: "page_tree (ram s) root" using ok by (simp add: tables_ok_def)
  note es = entry_store [where w = w, OF tree t i refl, folded m'_def]
  note upd = es(1) and we = es(2) and out = es(3)
  note lu = leaf_update [OF tree t p i upd we mapped_entry_facts(1,2) [of "to_field pa", folded w_def]]
  have "good s' \<and> avail s' = avail s \<and> meta s' = meta s \<and> info s' = info s"
    unfolding s' using good out tt(3) by (intro elsewhere) auto
  then have s'2: "good s'" "avail s' = avail s" "meta s' = meta s" "ram s' = m'" "info s' = info s"
    by (simp_all add: s')
  show W: "walk (ram s') root q = (if q = p @ [i] then Some (page_of pa) else walk (ram s) root q)"
    if "length q \<le> 4" "indices q" for q
    using lu(3) [OF that] s'2(4) mapped_entry_facts(3) [of pa] by (simp add: w_def)
  have "{q \<in> P. walk (ram s') root q = None} \<subseteq> {q \<in> P. walk (ram s) root q = None}"
    using W P by (auto split: if_splits)
  then have "card {q \<in> P. walk (ram s') root q = None} \<le> card {q \<in> P. walk (ram s) root q = None}"
    using fin by (intro card_mono) auto
  with enough fin s'2 lu(1,2) ok show "reach P root s'"
    by (simp add: reach_def tables_ok_def)
  show "kept root s s'"
    using s'2 lu(2) out tt(1) by (auto simp: kept_def)
qed

end

section \<open>Mapping one page and mapping many\<close>

definition map_with ::
  "(pstate \<Rightarrow> pstate \<times> ptr) \<Rightarrow> nat \<Rightarrow> ptr \<Rightarrow> ptr \<Rightarrow> ptr \<Rightarrow> pstate \<Rightarrow> pstate" where
  "map_with request pw root va pa s =
     (let (s1, t3) = descend request pw (off_ptr root (8 * (vpath va ! 0))) s;
          (s2, t2) = descend request pw (off_ptr t3 (8 * (vpath va ! 1))) s1;
          (s3, t1) = descend request pw (off_ptr t2 (8 * (vpath va ! 2))) s2
      in set_page (off_ptr t1 (8 * (vpath va ! 3))) pa s3)"

lemma map_vaddr_with: "map_vaddr_to_paddr = map_with pmem_request_frame"
  by (intro ext)
    (simp add: map_vaddr_to_paddr_def map_with_def descend_levels vaddr_entries Let_def)

text \<open>The paths of the tables a mapping goes through.\<close>

definition table_paths :: "ptr \<Rightarrow> nat list set" where
  "table_paths va = (\<lambda>k. take k (vpath va)) ` {1, 2, 3}"

lemma vpath_split:
  obtains a b c d where "vpath va = [a, b, c, d]" "a < 512" "b < 512" "c < 512" "d < 512"
    "table_paths va = {[a], [a, b], [a, b, c]}"
proof -
  obtain a b c d where v: "vpath va = [a, b, c, d]" by (simp add: vpath_def)
  moreover have "indices (vpath va)" by simp
  moreover have "table_paths va = {[a], [a, b], [a, b, c]}"
    by (auto simp: table_paths_def v)
  ultimately show thesis using that by (auto simp: indices_def)
qed

context page_frames
begin

lemma map_with_step:
  assumes r: "reach P root s" and P: "table_paths va \<subseteq> P" "\<forall>q \<in> P. length q \<le> 4 \<and> indices q"
    and pw: "K \<le> pw"
  shows "reach P root (map_with request pw root va pa s)"
    and "kept root s (map_with request pw root va pa s)"
    and "length q = 4 \<Longrightarrow> indices q \<Longrightarrow> walk (ram (map_with request pw root va pa s)) root q
      = (if q = vpath va then Some (page_of pa) else walk (ram s) root q)"
proof -
  obtain a b c d where v: "vpath va = [a, b, c, d]" "a < 512" "b < 512" "c < 512" "d < 512"
    and tp: "table_paths va = {[a], [a, b], [a, b, c]}"
    by (rule vpath_split)
  have PP: "[] @ [a] \<in> P" "[a] @ [b] \<in> P" "[a, b] @ [c] \<in> P" using P(1) tp by simp_all
  have t0: "table_at (ram s) root [] root" by (simp add: table_at_def)
  have l: "length ([] :: nat list) \<le> 2" "length [a] \<le> 2" "length [a, b] \<le> 2" by simp_all
  obtain s1 t3 where 1: "descend request pw (off_ptr root (8 * a)) s = (s1, t3)" "reach P root s1"
    "table_at (ram s1) root ([] @ [a]) t3" "kept root s s1"
    and W1: "\<And>q. length q \<le> 4 \<Longrightarrow> indices q \<Longrightarrow>
       walk (ram s1) root q = (if q = [] @ [a] then Some t3 else walk (ram s) root q)"
    by (rule descend_step [OF r t0 l(1) v(2) pw PP(1) P(2)]) (rule that; assumption)
  obtain s2 t2 where 2: "descend request pw (off_ptr t3 (8 * b)) s1 = (s2, t2)" "reach P root s2"
    "table_at (ram s2) root ([a] @ [b]) t2" "kept root s1 s2"
    and W2: "\<And>q. length q \<le> 4 \<Longrightarrow> indices q \<Longrightarrow>
       walk (ram s2) root q = (if q = [a] @ [b] then Some t2 else walk (ram s1) root q)"
    by (rule descend_step [OF 1(2) 1(3) [simplified] l(2) v(3) pw PP(2) P(2)])
      (rule that; assumption)
  obtain s3 t1 where 3: "descend request pw (off_ptr t2 (8 * c)) s2 = (s3, t1)" "reach P root s3"
    "table_at (ram s3) root ([a, b] @ [c]) t1" "kept root s2 s3"
    and W3: "\<And>q. length q \<le> 4 \<Longrightarrow> indices q \<Longrightarrow>
       walk (ram s3) root q = (if q = [a, b] @ [c] then Some t1 else walk (ram s2) root q)"
    by (rule descend_step [OF 2(2) 2(3) [simplified] l(3) v(4) pw PP(3) P(2)])
      (rule that; assumption)
  have l3: "length ([a, b] @ [c]) = 3" by simp
  note sp = set_page_step [where pa = pa, OF 3(2,3) l3 v(5) P(2)]
  have eq: "map_with request pw root va pa s = set_page (off_ptr t1 (8 * d)) pa s3"
    by (simp add: map_with_def v(1) 1(1) 2(1) 3(1))
  show "reach P root (map_with request pw root va pa s)" unfolding eq by (rule sp(1))
  show "kept root s (map_with request pw root va pa s)"
    unfolding eq by (rule kept_trans [OF kept_trans [OF kept_trans [OF 1(4) 2(4)] 3(4)] sp(2)])
  show "walk (ram (map_with request pw root va pa s)) root q
      = (if q = vpath va then Some (page_of pa) else walk (ram s) root q)"
    if "length q = 4" "indices q"
    using that unfolding eq by (subst sp(3)) (auto simp: W1 W2 W3 v(1))
qed

text \<open>A run of mappings: later ones win.\<close>

lemma map_run:
  assumes "reach P root s" "\<Union> (table_paths ` fst ` set vps) \<subseteq> P"
    "\<forall>q \<in> P. length q \<le> 4 \<and> indices q" "K \<le> pw"
  defines "t \<equiv> fold (\<lambda>(va, pa). map_with request pw root va pa) vps s"
  shows "reach P root t" "kept root s t"
    and "length q = 4 \<Longrightarrow> indices q \<Longrightarrow> walk (ram t) root q =
      (case map_of (rev (map (\<lambda>(va, pa). (vpath va, page_of pa)) vps)) q of
         None \<Rightarrow> walk (ram s) root q | Some f \<Rightarrow> Some f)"
proof -
  have "reach P root t \<and> kept root s t \<and> (\<forall>q. length q = 4 \<longrightarrow> indices q \<longrightarrow> walk (ram t) root q =
      (case map_of (rev (map (\<lambda>(va, pa). (vpath va, page_of pa)) vps)) q of
         None \<Rightarrow> walk (ram s) root q | Some f \<Rightarrow> Some f))"
    unfolding t_def using assms(2)
  proof (induction vps rule: rev_induct)
    case Nil
    with assms(1) show ?case by simp
  next
    case (snoc vp vps)
    obtain va pa where vp: "vp = (va, pa)" by (cases vp)
    let ?u = "fold (\<lambda>(va, pa). map_with request pw root va pa) vps s"
    have u: "reach P root ?u" "kept root s ?u" "table_paths va \<subseteq> P"
      "\<And>q. length q = 4 \<Longrightarrow> indices q \<Longrightarrow> walk (ram ?u) root q =
      (case map_of (rev (map (\<lambda>(va, pa). (vpath va, page_of pa)) vps)) q of
         None \<Rightarrow> walk (ram s) root q | Some f \<Rightarrow> Some f)"
      using snoc vp by auto
    note st = map_with_step [where pa = pa, OF u(1,3) assms(3,4)]
    show ?case
      using st(1) kept_trans [OF u(2) st(2)] st(3) u(4) by (simp add: vp)
  qed
  then show "reach P root t" "kept root s t"
    "length q = 4 \<Longrightarrow> indices q \<Longrightarrow> walk (ram t) root q =
      (case map_of (rev (map (\<lambda>(va, pa). (vpath va, page_of pa)) vps)) q of
         None \<Rightarrow> walk (ram s) root q | Some f \<Rightarrow> Some f)"
    by blast+
qed

end

end
