(* ===== verification/Paging_Pmem.thy ===== *)
theory Paging_Pmem
  imports Paging_Map
begin

text \<open>
  Paging on the kernel's own allocator: \<^verbatim>\<open>pmem_request_frame\<close> meets the contract of
  \<open>page_frames\<close>, and what \<^verbatim>\<open>map_vaddr_to_paddr\<close>, \<^verbatim>\<open>is_page_present\<close> and the identity mappings
  of \<^verbatim>\<open>src/src/memory/paging.c\<close> do to the translation follows.
\<close>

unbundle bit_operations_syntax

section \<open>The allocator meets the contract\<close>

definition free_addrs :: "pstate \<Rightarrow> ptr set" where
  "free_addrs s = {frame_addr s i | i. i < n_frames s \<and> frame_st s i = FREE_FRAME}"

text \<open>
  Free frames are whole frames below \<open>2 ^ K\<close>, apart from each other and from the array.
\<close>

definition pool_ok :: "nat \<Rightarrow> pstate \<Rightarrow> bool" where
  "pool_ok K s \<longleftrightarrow> pm_inv s \<and> K \<le> 44
     \<and> (\<forall>i < n_frames s. frame_st s i = FREE_FRAME \<longrightarrow> take_bit 12 (frame_addr s i) = 0
          \<and> take_bit K (frame_addr s i) = frame_addr s i
          \<and> frame_of (frame_addr s i) \<inter> array_region s = {})
     \<and> (\<forall>i < n_frames s. \<forall>j < n_frames s. frame_st s i = FREE_FRAME \<longrightarrow> frame_st s j = FREE_FRAME
          \<longrightarrow> frame_addr s i = frame_addr s j \<longrightarrow> i = j)"

lemma pool_ok_inv: "pool_ok K s \<Longrightarrow> pm_inv s \<and> array_fits s"
  by (simp add: pool_ok_def)

lemma free_addrs_image:
  "free_addrs s = frame_addr s ` {i. i < n_frames s \<and> frame_st s i = FREE_FRAME}"
  by (auto simp: free_addrs_def)

lemma finite_free_addrs: "finite (free_addrs s)"
  by (simp add: free_addrs_image)

text \<open>What stays of the array: the number of frames and their addresses.\<close>

definition frame_list :: "pstate \<Rightarrow> ptr list" where
  "frame_list s = map (frame_addr s) [0..<n_frames s]"

lemma pool_request:
  assumes ok: "pool_ok K s" and ne: "free_addrs s \<noteq> {}" and req: "pmem_request_frame s = (s', f)"
  shows "f \<in> free_addrs s \<and> pool_ok K s' \<and> free_addrs s' = free_addrs s - {f}
    \<and> array_region s' = array_region s \<and> frame_list s' = frame_list s \<and> (\<forall>x. x \<notin> array_region s \<longrightarrow> ram s' x = ram s x)"
proof -
  have inv: "pm_inv s" and fits: "array_fits s" using pool_ok_inv [OF ok] by auto
  obtain i where fi: "first_index (\<lambda>x. x = FREE_FRAME) (frame_sts s) = Some i"
  proof (cases "first_index (\<lambda>x. x = FREE_FRAME) (frame_sts s)")
    case None
    then have "frame_st s k \<noteq> FREE_FRAME" if "k < n_frames s" for k
      using that nth_mem [of k "frame_sts s"] by (auto simp: first_index_None)
    with ne show ?thesis by (auto simp: free_addrs_def)
  qed
  then have i: "i < n_frames s" "frame_st s i = FREE_FRAME" by (auto simp: first_index_Some)
  have s': "s' = PhysicalMemory__lock_frame (word_of_nat i) s" "f = frame_addr s i"
    using pmem_request_frame_cases [OF inv] fi req by simp_all
  note n = lock.op_n_frames [of "word_of_nat i" s, folded s'(1)]
    and reg = lock.op_array_region [of "word_of_nat i" s, folded s'(1)]
    and inv' = lock.op_inv [OF inv i(1), folded s'(1)]
  have st: "frame_st s' j = (if j = i then LOCKED_FRAME else frame_st s j)" if "j < n_frames s" for j
    unfolding s'(1) lock.op_st [OF fits i(1) that] using i(2) by simp
  have ad: "frame_addr s' j = frame_addr s j" if "j < n_frames s" for j
    unfolding s'(1) by (rule lock.op_addr [OF fits i(1) that])
  have "pool_ok K s'"
    using ok inv' by (simp add: pool_ok_def n reg st ad)
  moreover have "free_addrs s' = free_addrs s - {f}"
  proof -
    have "{j. j < n_frames s' \<and> frame_st s' j = FREE_FRAME}
        = {j. j < n_frames s \<and> j \<noteq> i \<and> frame_st s j = FREE_FRAME}"
      using st by (auto simp: n split: if_splits)
    then have "free_addrs s' = frame_addr s' ` {j. j < n_frames s \<and> j \<noteq> i \<and> frame_st s j = FREE_FRAME}"
      by (simp add: free_addrs_image)
    also have "\<dots> = frame_addr s ` {j. j < n_frames s \<and> j \<noteq> i \<and> frame_st s j = FREE_FRAME}"
      by (rule image_cong) (simp_all add: ad)
    also have "\<dots> = free_addrs s - {f}"
      using ok i by (auto simp: free_addrs_def pool_ok_def s'(2))
    finally show ?thesis .
  qed
  moreover have "f \<in> free_addrs s" using i s'(2) by (auto simp: free_addrs_def)
  moreover have "frame_list s' = frame_list s" by (simp add: frame_list_def n ad)
  ultimately show ?thesis
    using reg lock.op_outside [OF fits i(1), folded s'(1)] by blast
qed

lemma pool_elsewhere:
  assumes ok: "pool_ok K s" and m: "\<And>x. x \<in> array_region s \<Longrightarrow> m x = ram s x"
  shows "pool_ok K (s\<lparr>ram := m\<rparr>) \<and> free_addrs (s\<lparr>ram := m\<rparr>) = free_addrs s
    \<and> array_region (s\<lparr>ram := m\<rparr>) = array_region s
    \<and> frame_list (s\<lparr>ram := m\<rparr>) = frame_list s"
proof -
  have fits: "array_fits s" using pool_ok_inv [OF ok] by simp
  let ?t = "s\<lparr>ram := m\<rparr>"
  have t: "n_frames ?t = n_frames s" "array_region ?t = array_region s" "array_fits ?t"
    using fits by (simp_all add: n_frames_def array_region_def array_fits_def)
  have pm: "pm ?t = pm s" by simp
  have c: "frame_addr ?t i = frame_addr s i" "frame_st ?t i = frame_st s i"
    if "i < n_frames s" for i
    using frames_cong [OF pm fits] m that by simp_all
  have "frame_sts ?t = frame_sts s" using frames_cong(3) [OF pm fits] m by simp
  then have "pm_inv ?t" using ok t by (simp add: pool_ok_def pm_inv_def)
  with ok have "pool_ok K ?t" by (simp add: pool_ok_def t c)
  moreover have "{i. i < n_frames ?t \<and> frame_st ?t i = FREE_FRAME}
      = {i. i < n_frames s \<and> frame_st s i = FREE_FRAME}"
    using c(2) by (auto simp: t)
  then have "free_addrs ?t = free_addrs s"
    unfolding free_addrs_image using c(1) by (simp cong: image_cong_simp)
  moreover have "frame_list ?t = frame_list s" by (simp add: frame_list_def t c)
  ultimately show ?thesis using t(2) by simp
qed

interpretation pool: page_frames pmem_request_frame "pool_ok K" free_addrs array_region frame_list K for K
proof (unfold_locales, goal_cases)
  case (1 s s' f)
  then show ?case by (rule pool_request)
next
  case (2 s m)
  then show ?case by (intro pool_elsewhere) auto
next
  case (3 s f)
  then show ?case by (auto simp: pool_ok_def free_addrs_def)
next
  case (4 s)
  show ?case by (rule finite_free_addrs)
next
  case (5 s)
  then show ?case by (simp add: pool_ok_def)
qed

text \<open>The counter of free frames counts the frames the allocator can give.\<close>

lemma card_free_addrs:
  assumes "pool_ok K s"
  shows "card (free_addrs s) = unat (free_frames (pm s))"
proof -
  let ?I = "{i. i < n_frames s \<and> frame_st s i = FREE_FRAME}"
  have "inj_on (frame_addr s) ?I"
    using assms by (auto simp: inj_on_def pool_ok_def)
  then have "card (free_addrs s) = card ?I" by (simp add: card_image free_addrs_image)
  also have "?I = {i. i < length (frame_sts s) \<and> FREE_FRAME = frame_sts s ! i}"
    by auto
  also have "card \<dots> = count_list (frame_sts s) FREE_FRAME"
    unfolding count_list_eq_length_filter length_filter_conv_card ..
  also have "\<dots> = unat (free_frames (pm s))"
    using pool_ok_inv [OF assms] by (simp add: pm_inv_def)
  finally show ?thesis .
qed

section \<open>The invariant of paging\<close>

definition paging_inv :: "nat \<Rightarrow> ptr \<Rightarrow> pstate \<Rightarrow> bool" where
  "paging_inv K pml4 s \<longleftrightarrow> pool_ok K s
     \<and> tables_ok (free_addrs s) (array_region s) K pml4 (ram s)"

text \<open>The number of tables that mappings of the addresses \<open>vas\<close> will have to create.\<close>

definition missing_tables :: "ptr \<Rightarrow> ptr list \<Rightarrow> pstate \<Rightarrow> nat" where
  "missing_tables pml4 vas s =
     card {q \<in> \<Union> (table_paths ` set vas). walk (ram s) pml4 q = None}"

lemma table_paths_bound:
  assumes "q \<in> table_paths va"
  shows "length q \<le> 4 \<and> indices q"
proof -
  obtain a b c d where v: "vpath va = [a, b, c, d]" "a < 512" "b < 512" "c < 512" "d < 512"
    and tp: "table_paths va = {[a], [a, b], [a, b, c]}"
    by (rule vpath_split [of va])
  have "q = [a] \<or> q = [a, b] \<or> q = [a, b, c]" using assms unfolding tp by blast
  then show ?thesis using v(2-4) by (elim disjE) simp_all
qed

lemma reach_paging:
  "pool.reach K (\<Union> (table_paths ` set vas)) pml4 s \<longleftrightarrow>
     paging_inv K pml4 s \<and> missing_tables pml4 vas s \<le> unat (free_frames (pm s))"
proof (cases "pool_ok K s")
  case True
  have "finite (table_paths va)" for va by (simp add: table_paths_def)
  then have "finite (\<Union> (table_paths ` set vas))" by blast
  then show ?thesis
    unfolding pool.reach_def paging_inv_def missing_tables_def card_free_addrs [OF True] by blast
next
  case False
  then show ?thesis unfolding pool.reach_def paging_inv_def by blast
qed

text \<open>The memory that building tables may write to.\<close>

definition paging_space :: "ptr \<Rightarrow> pstate \<Rightarrow> ptr set" where
  "paging_space pml4 s =
     array_region s \<union> \<Union> (frame_of ` (tables (ram s) pml4 \<union> free_addrs s))"

lemma paging_same:
  assumes inv: "paging_inv K pml4 s" and pm: "pm s' = pm s"
    and same: "\<And>x. x \<in> paging_space pml4 s \<Longrightarrow> ram s' x = ram s x"
  shows "paging_inv K pml4 s'" "paging_space pml4 s' = paging_space pml4 s"
    and "frame_list s' = frame_list s" "free_addrs s' = free_addrs s"
    and "missing_tables pml4 as s' = missing_tables pml4 as s"
    and "translate (ram s') pml4 a = translate (ram s) pml4 a"
proof -
  have arr: "ram s' x = ram s x" if "x \<in> array_region s" for x
    using that by (intro same) (simp add: paging_space_def)
  have tab: "ram s' x = ram s x" if "t \<in> tables (ram s) pml4" "x \<in> frame_of t" for t x
    using that by (intro same) (auto simp: paging_space_def)
  have p: "pool_ok K s" using inv by (simp add: paging_inv_def)
  then have fits: "array_fits s" using pool_ok_inv by blast
  note f = frames_cong [OF pm fits arr]
  have n: "n_frames s' = n_frames s" and ar: "array_region s' = array_region s" and fs: "array_fits s' = array_fits s"
    using pm by (simp_all add: n_frames_def array_region_def array_fits_def)
  have pi: "pm_inv s' = pm_inv s" by (simp add: pm_inv_def pm f(3) n fs)
  show fl: "frame_list s' = frame_list s" using f(1) by (simp add: frame_list_def n)
  show fa: "free_addrs s' = free_addrs s" 
    unfolding free_addrs_image n by (rule image_cong) (use f(1,2) in auto)
  have "pool_ok K s'" using p f(1,2) by (simp add: pool_ok_def pi n ar)
  moreover note ts = tables_same [OF tab]
  have "tables_ok (free_addrs s') (array_region s') K pml4 (ram s')
      = tables_ok (free_addrs s) (array_region s) K pml4 (ram s)"
    by (simp only: tables_ok_def ts fa ar)
  ultimately show "paging_inv K pml4 s'" using inv by (simp add: paging_inv_def)
  show "paging_space pml4 s' = paging_space pml4 s" by (simp add: paging_space_def ar fa ts)
  have "walk (ram s') pml4 q = walk (ram s) pml4 q" if "q \<in> table_paths va" for q va
    using table_paths_bound [OF that] walk_same [of "ram s" pml4 "ram s'" q, OF tab] by simp
  then have "{q \<in> \<Union> (table_paths ` set as). walk (ram s') pml4 q = None}
      = {q \<in> \<Union> (table_paths ` set as). walk (ram s) pml4 q = None}" by auto
  then show "missing_tables pml4 as s' = missing_tables pml4 as s" by (simp add: missing_tables_def)
  show "translate (ram s') pml4 a = translate (ram s) pml4 a"
    by (rule translate_same [OF tab])
qed

lemma kept_paging:
  assumes "pool.kept pml4 s s'"
  shows "x \<notin> paging_space pml4 s \<Longrightarrow> ram s' x = ram s x"
    and "frame_list s' = frame_list s"
  using assms by (auto simp: pool.kept_def paging_space_def)

lemma map_identity_list:
  "map_of (rev (map (\<lambda>(va, pa). (vpath va, page_of pa)) (map (\<lambda>a. (a, a)) as))) (vpath a)
     = (if \<exists>b \<in> set as. same_page a b then Some (page_of a) else None)"
proof (induction as rule: rev_induct)
  case Nil
  show ?case by simp
next
  case (snoc b as)
  show ?case
  proof (cases "same_page a b")
    case True
    then have "vpath b = vpath a" "page_of b = page_of a"
      using vpath_eq_iff same_page_page_of by metis+
    with True show ?thesis by simp
  next
    case False
    then have "vpath b \<noteq> vpath a" using vpath_eq_iff by metis
    with False snoc show ?thesis by simp
  qed
qed

text \<open>Mapping a list of pages one to one.\<close>

lemma identity_list:
  assumes "paging_inv K pml4 s" "missing_tables pml4 as s \<le> unat (free_frames (pm s))" "K \<le> pw"
  defines "t \<equiv> fold (\<lambda>a. map_vaddr_to_paddr pw pml4 a a) as s"
  shows "paging_inv K pml4 t"
    and "translate (ram t) pml4 a
      = (if \<exists>b \<in> set as. same_page a b then Some (take_bit 44 a) else translate (ram s) pml4 a)"
    and "x \<notin> paging_space pml4 s \<Longrightarrow> ram t x = ram s x"
    and "frame_list t = frame_list s"
proof -
  let ?P = "\<Union> (table_paths ` set as)" and ?vps = "map (\<lambda>a. (a, a)) as"
  have r: "pool.reach K ?P pml4 s" using assms(1,2) by (simp add: reach_paging)
  have sub: "\<Union> (table_paths ` fst ` set ?vps) \<subseteq> ?P" by auto
  have bnd: "\<forall>q \<in> ?P. length q \<le> 4 \<and> indices q" using table_paths_bound by auto
  have t: "t = fold (\<lambda>(va, pa). map_with pmem_request_frame pw pml4 va pa) ?vps s"
    by (simp add: t_def map_vaddr_with fold_map comp_def)
  note run = pool.map_run [OF r sub bnd assms(3), folded t]
  show "paging_inv K pml4 t" using run(1) by (simp add: reach_paging)
  show "x \<notin> paging_space pml4 s \<Longrightarrow> ram t x = ram s x" "frame_list t = frame_list s"
    using kept_paging [OF run(2)] by simp_all
  show "translate (ram t) pml4 a
      = (if \<exists>b \<in> set as. same_page a b then Some (take_bit 44 a) else translate (ram s) pml4 a)"
    using run(3) [of "vpath a"] map_identity_list [of as a]
    by (simp add: translate_def page_of_offset)
qed

text \<open>What is left for later mappings, and the memory they may write to.\<close>

lemma identity_list_budget:
  assumes "paging_inv K pml4 s" "missing_tables pml4 bs s \<le> unat (free_frames (pm s))" "K \<le> pw"
    and "set as \<subseteq> set bs"
  defines "t \<equiv> fold (\<lambda>a. map_vaddr_to_paddr pw pml4 a a) as s"
  shows "missing_tables pml4 bs t \<le> unat (free_frames (pm t))"
    and "paging_space pml4 t = paging_space pml4 s"
proof -
  let ?P = "\<Union> (table_paths ` set bs)" and ?vps = "map (\<lambda>a. (a, a)) as"
  have r: "pool.reach K ?P pml4 s" using assms(1,2) by (simp add: reach_paging)
  have sub: "\<Union> (table_paths ` fst ` set ?vps) \<subseteq> ?P" using assms(4) by auto
  have bnd: "\<forall>q \<in> ?P. length q \<le> 4 \<and> indices q" using table_paths_bound by auto
  have t: "t = fold (\<lambda>(va, pa). map_with pmem_request_frame pw pml4 va pa) ?vps s"
    by (simp add: t_def map_vaddr_with fold_map comp_def)
  note run = pool.map_run [OF r sub bnd assms(3), folded t]
  show "missing_tables pml4 bs t \<le> unat (free_frames (pm t))" using run(1) by (simp add: reach_paging)
  show "paging_space pml4 t = paging_space pml4 s"
    using run(2) by (simp add: pool.kept_def paging_space_def)
qed

lemma map_page:
  fixes pa :: ptr
  assumes "paging_inv K pml4 s" "missing_tables pml4 [va] s \<le> unat (free_frames (pm s))" "K \<le> pw"
  defines "t \<equiv> map_vaddr_to_paddr pw pml4 va pa s"
  shows "paging_inv K pml4 t"
    and "translate (ram t) pml4 a
      = (if same_page a va then Some (page_of pa OR take_bit 12 a) else translate (ram s) pml4 a)"
    and "x \<notin> paging_space pml4 s \<Longrightarrow> ram t x = ram s x"
    and "frame_list t = frame_list s" "paging_space pml4 t = paging_space pml4 s"
proof -
  let ?P = "\<Union> (table_paths ` set [va])"
  have r: "pool.reach K ?P pml4 s" using assms(1,2) by (simp add: reach_paging del: set_simps)
  have sub: "table_paths va \<subseteq> ?P" by simp
  have bnd: "\<forall>q \<in> ?P. length q \<le> 4 \<and> indices q" using table_paths_bound by auto
  note st = pool.map_with_step [where pa = pa, OF r sub bnd assms(3),
      folded map_vaddr_with, folded t_def]
  show "paging_inv K pml4 t" using st(1) by (simp add: reach_paging del: set_simps)
  show "x \<notin> paging_space pml4 s \<Longrightarrow> ram t x = ram s x" "frame_list t = frame_list s"
    using kept_paging [OF st(2)] by simp_all
  show "paging_space pml4 t = paging_space pml4 s"
    using st(2) by (simp add: pool.kept_def paging_space_def)
  show "translate (ram t) pml4 a
      = (if same_page a va then Some (page_of pa OR take_bit 12 a) else translate (ram s) pml4 a)"
    using st(3) [of "vpath a"] by (simp add: translate_def vpath_eq_iff)
qed

section \<open>Checking for a page\<close>

lemma present_step:
  assumes inv: "paging_inv K pml4 s" and K: "K \<le> pw" and t: "table_at (ram s) pml4 p t"
    and p: "length p \<le> 2" and i: "i < 512"
  defines "w \<equiv> load64 (ram s) (off_ptr t (8 * i))"
  shows "(field_at 0 w :: 1 word) = 0 \<longleftrightarrow> hw_next (ram s) t i = None"
    and "hw_next (ram s) t i = Some u \<Longrightarrow>
      of_field pw (field_at 12 w) = u \<and> table_at (ram s) pml4 (p @ [i]) u"
proof -
  have ok: "tables_ok (free_addrs s) (array_region s) K pml4 (ram s)"
    using inv by (simp add: paging_inv_def)
  have hn: "hw_next (ram s) t i = (if bit w 0 then Some (hw_frame w) else None)"
    by (simp add: hw_next_def table_entry_def w_def)
  then show "(field_at 0 w :: 1 word) = 0 \<longleftrightarrow> hw_next (ram s) t i = None"
    by (simp add: present_bit)
  assume u: "hw_next (ram s) t i = Some u"
  then have ta: "table_at (ram s) pml4 (p @ [i]) u"
    using t p i by (simp add: table_at_def walk_snoc)
  then have "take_bit K u = u" by (rule tables_ok_table [OF ok]) simp
  moreover have "plain w" using tables_ok_table(6) [OF ok t i] by (simp add: table_entry_def w_def)
  moreover have "hw_frame w = u" using u hn by (simp split: if_splits)
  ultimately show "of_field pw (field_at 12 w) = u \<and> table_at (ram s) pml4 (p @ [i]) u"
    using follow_entry [of w K pw] K ta by simp
qed

lemma is_page_present_walk:
  assumes inv: "paging_inv K pml4 s" and K: "K \<le> pw"
  shows "is_page_present pw pml4 va s \<longleftrightarrow> walk (ram s) pml4 (vpath va) \<noteq> None"
proof -
  obtain a b c d where v: "vpath va = [a, b, c, d]" "a < 512" "b < 512" "c < 512" "d < 512"
    "table_paths va = {[a], [a, b], [a, b, c]}"
    by (rule vpath_split [of va])
  have t0: "table_at (ram s) pml4 [] pml4" by (simp add: table_at_def)
  have l: "length ([] :: nat list) \<le> 2" "length [a] \<le> 2" "length [a, b] \<le> 2" by simp_all
  note p1 = present_step [OF inv K t0 l(1) v(2)]
  note defs = is_page_present_def Let_def vaddr_entries v(1) get_level
  show ?thesis
  proof (cases "hw_next (ram s) pml4 a")
    case None
    with p1(1) show ?thesis by (simp add: defs)
  next
    case (Some t3)
    then have t3: "table_at (ram s) pml4 [a] t3" and 1: "of_field pw
        (field_at 12 (load64 (ram s) (off_ptr pml4 (8 * a)))) = t3"
      using p1(2) by simp_all
    note p2 = present_step [OF inv K t3 l(2) v(3)]
    show ?thesis
    proof (cases "hw_next (ram s) t3 b")
      case None
      with p1(1) p2(1) Some 1 show ?thesis by (simp add: defs)
    next
      case (Some t2)
      then have t2: "table_at (ram s) pml4 [a, b] t2" and 2: "of_field pw
          (field_at 12 (load64 (ram s) (off_ptr t3 (8 * b)))) = t2"
        using p2(2) by simp_all
      note p3 = present_step [OF inv K t2 l(3) v(4)]
      note here = \<open>hw_next (ram s) pml4 a = Some t3\<close> Some 1 2 p1(1) p2(1)
      show ?thesis
      proof (cases "hw_next (ram s) t2 c")
        case None
        with p3(1) here show ?thesis by (simp add: defs)
      next
        case (Some t1)
        then have "of_field pw (field_at 12 (load64 (ram s) (off_ptr t2 (8 * c)))) = t1"
          using p3(2) by simp
        with p3(1) here Some show ?thesis
          by (simp add: defs hw_next_def [of _ t1] table_entry_def Let_def present_bit)
      qed
    qed
  qed
qed

section \<open>The identity mappings\<close>

text \<open>The pages the loop of \<^verbatim>\<open>_identity_paging\<close> goes through.\<close>

definition identity_pages :: "ptr \<Rightarrow> u64 \<Rightarrow> ptr list" where
  "identity_pages addr n =
     map (\<lambda>k. addr + word_of_nat k * PAGE_SZ) [0..<unat n div 4097 + 1]"

lemma identity_paging_fold:
  "identity_paging pw pml4 addr n s
    = fold (\<lambda>a. map_vaddr_to_paddr pw pml4 a a) (identity_pages addr n) s"
proof -
  have "unat n div 4097 + 1 < 2 ^ 64"
    using unat64_less [of n] by simp
  then have N: "unat (n div 4097 + 1) = unat n div 4097 + 1"
    by (simp add: unat_word_ariths unat_div_distrib)
  have run: "fold (\<lambda>k (s, addr). (map_vaddr_to_paddr pw pml4 addr addr s, addr + PAGE_SZ)) [0..<k] (s, addr)
    = (fold (\<lambda>a. map_vaddr_to_paddr pw pml4 a a)
         (map (\<lambda>k. addr + word_of_nat k * PAGE_SZ) [0..<k]) s, addr + word_of_nat k * PAGE_SZ)" for k
    by (induction k) (simp_all add: algebra_simps)
  show ?thesis
    using run [of "unat n div 4097 + 1"]
    by (simp add: identity_paging_def for_range_fold N identity_pages_def del: upt_Suc)
qed

lemma identity_paging_frames_fold:
  assumes "\<And>k. k \<le> n_frames s \<Longrightarrow> frame_list
    (fold (\<lambda>a. map_vaddr_to_paddr pw pml4 a a) (take k (frame_list s)) s) = frame_list s"
  shows "identity_paging_frames pw pml4 s
    = fold (\<lambda>a. map_vaddr_to_paddr pw pml4 a a) (frame_list s) s"
proof -
  let ?run = "\<lambda>k. fold (\<lambda>a. map_vaddr_to_paddr pw pml4 a a) (take k (frame_list s)) s"
  have len: "length (frame_list s) = n_frames s" by (simp add: frame_list_def)
  have "identity_paging_frames pw pml4 s = ?run (unat (frames (pm s)))"
    unfolding identity_paging_frames_def
  proof (rule for_bound_invariant
      [where P = "\<lambda>k t. t = ?run k \<and> k \<le> n_frames s \<and> frames (pm t) = frames (pm s)", THEN conjunct1])
    show "s = ?run 0 \<and> 0 \<le> n_frames s \<and> frames (pm s) = frames (pm s)" by simp
  next
    fix k t
    assume k: "k < unat (frames (pm s))" and t: "t = ?run k \<and> k \<le> n_frames s \<and> frames (pm t) = frames (pm s)"
    have fl: "frame_list (?run j) = frame_list s" if "j \<le> n_frames s" for j using assms that by simp
    have kn: "k < n_frames s" using k by (simp add: n_frames_def)
    have "frame_list t ! k = frame_list s ! k" using t fl by simp
    moreover have "n_frames t = n_frames s" using conjunct2 [OF conjunct2 [OF t]] by (simp only: n_frames_def)
    ultimately have "frame_addr_at t (word_of_nat k) = frame_list s ! k"
      using kn by (simp add: frame_addr_at_nat frame_list_def)
    then have eq: "map_vaddr_to_paddr pw pml4 (frame_addr_at t (word_of_nat k))
        (frame_addr_at t (word_of_nat k)) t = ?run (Suc k)"
      using t kn len by (simp add: take_Suc_conv_app_nth)
    have "length (frame_list (?run (Suc k))) = n_frames s" using fl [of "Suc k"] kn len by simp
    then have "frames (pm (?run (Suc k))) = frames (pm s)"
      by (simp add: frame_list_def n_frames_def word_unat_eq_iff)
    with eq kn show "(let addr = frame_addr_at t (word_of_nat k) in map_vaddr_to_paddr pw pml4 addr addr t)
        = ?run (Suc k) \<and> Suc k \<le> n_frames s
        \<and> frames (pm (let addr = frame_addr_at t (word_of_nat k) in
            map_vaddr_to_paddr pw pml4 addr addr t)) = frames (pm s)"
      by (simp add: Let_def)
  qed simp
  then show ?thesis using len by (simp add: n_frames_def)
qed

lemma table_paths_card: "card (\<Union> (table_paths ` set as)) \<le> 3 * length as"
proof (induction as)
  case (Cons a as)
  have "card (table_paths a) \<le> 3"
    unfolding table_paths_def using card_image_le [of "{1, 2, 3 :: nat}" "\<lambda>k. take k (vpath a)"] by simp
  then show ?case
    using Cons card_Un_le [of "table_paths a" "\<Union> (table_paths ` set as)"] by simp
qed simp

lemma missing_tables_paths:
  assumes "table_paths ` set as \<subseteq> table_paths ` set bs"
  shows "missing_tables pml4 as s \<le> 3 * length bs"
proof -
  have fin: "finite (\<Union> (table_paths ` set cs))" for cs by (simp add: table_paths_def)
  have "missing_tables pml4 as s \<le> card (\<Union> (table_paths ` set bs))"
    unfolding missing_tables_def using Union_mono [OF assms] fin [of bs] by (intro card_mono) auto
  with table_paths_card [of bs] show ?thesis by linarith
qed

lemma missing_tables_bound: "missing_tables pml4 vas s \<le> 3 * length vas"
  by (rule missing_tables_paths) simp

lemma missing_tables_mono:
  assumes "set as \<subseteq> set bs"
  shows "missing_tables pml4 as s \<le> missing_tables pml4 bs s"
proof -
  have "finite (table_paths va)" for va by (simp add: table_paths_def)
  then have "finite (\<Union> (table_paths ` set bs))" by blast
  then show ?thesis
    unfolding missing_tables_def using assms by (intro card_mono) auto
qed

lemma identity_frames:
  assumes "paging_inv K pml4 s" "K \<le> pw"
    and "missing_tables pml4 (frame_list s) s \<le> unat (free_frames (pm s))"
  shows "identity_paging_frames pw pml4 s
    = fold (\<lambda>a. map_vaddr_to_paddr pw pml4 a a) (frame_list s) s"
proof (rule identity_paging_frames_fold)
  fix k assume "k \<le> n_frames s"
  have "missing_tables pml4 (take k (frame_list s)) s \<le> unat (free_frames (pm s))"
    using missing_tables_mono [OF set_take_subset, of pml4 k "frame_list s" s] assms(3) by simp
  from identity_list(4) [OF assms(1) this assms(2)]
  show "frame_list (fold (\<lambda>a. map_vaddr_to_paddr pw pml4 a a) (take k (frame_list s)) s)
    = frame_list s" .
qed

text \<open>Pages by number, below \<open>2 ^ 44\<close>.\<close>

lemma same_page_nat:
  assumes "unat a < 2 ^ 48" "unat b < 2 ^ 48"
  shows "same_page a b \<longleftrightarrow> unat a div 4096 = unat b div 4096"
proof -
  have eq: "unat (take_bit 36 (drop_bit 12 c)) = unat c div 4096" if "unat c < 2 ^ 48" for c :: u64
  proof -
    have "unat c div 4096 < 2 ^ 36" using that by (simp add: less_mult_imp_div_less)
    then show ?thesis
      by (simp add: unsigned_take_bit_eq unat_drop_bit_eq)
        (simp add: drop_bit_eq_div take_bit_nat_eq_self)
  qed
  show ?thesis
    unfolding same_page_def word_unat_eq_iff eq [OF assms(1)] eq [OF assms(2)] ..
qed

lemma identity_page_of_byte:
  assumes "take_bit 12 addr = 0" "unat addr + j < 2 ^ 44" "unat addr + k * 4096 < 2 ^ 44"
  shows "same_page (addr + word_of_nat j) (addr + word_of_nat k * PAGE_SZ) \<longleftrightarrow> j div 4096 = k"
proof -
  have "unat addr mod 4096 = 0"
    using arg_cong [OF assms(1), of unat]
    by (simp add: unsigned_take_bit_eq) (simp add: take_bit_eq_mod)
  then obtain c where c: "unat addr = 4096 * c" by (metis mod_0_imp_dvd dvd_def)
  have a: "unat (addr + word_of_nat j) = unat addr + j"
    using assms(2) by (simp add: unat_word_ariths unsigned_of_nat take_bit_eq_mod)
  have b: "unat (addr + word_of_nat k * PAGE_SZ) = unat addr + k * 4096"
    using assms(3) by (simp add: unat_word_ariths unsigned_of_nat take_bit_eq_mod mod_simps)
  have "(4096 * c + j) div 4096 = c + j div 4096" "(4096 * c + k * 4096) div 4096 = c + k"
    by simp_all
  then show ?thesis
    using assms(2,3) a b c by (subst same_page_nat) simp_all
qed

lemma link_entry_fields:
  "field_at 12 (link_entry f w) = f" "field_at 0 (link_entry f w) = (1 :: 1 word)"
  by (simp_all add: link_entry_def lay_PD_Entry_def field_simps_bits)

section \<open>A small machine\<close>

lemma small_free: "free_addrs small_machine = {0x2000, 0x3000, 0x4000, 0x5000}"
proof -
  have "free_addrs small_machine = set (map (frame_addr small_machine) [0..<4])"
    by (auto simp: free_addrs_image small_frame(2))
  then show ?thesis by (simp add: small_frames(1))
qed

lemma small_region: "x \<in> region 0x1000 64 \<longleftrightarrow> 0x1000 \<le> unat x \<and> unat x < 0x1040"
  by (subst region_interval) simp_all

lemma small_frame_region: "i < 4 \<Longrightarrow> x \<in> frame_of (0x2000 + word_of_nat i * 0x1000) \<longleftrightarrow> 0x2000 + i * 0x1000 \<le> unat x \<and> unat x < 0x3000 + i * 0x1000"
proof -
  assume "i < 4"
  then have "i = 0 \<or> i = 1 \<or> i = 2 \<or> i = 3" by linarith
  then show ?thesis unfolding frame_of_def by (subst region_interval) auto
qed

lemma small_pool: "pool_ok 44 small_machine"
proof -
  have a: "take_bit 12 (0x2000 + word_of_nat i * 0x1000 :: u64) = 0
     \<and> take_bit 44 (0x2000 + word_of_nat i * 0x1000 :: u64) = 0x2000 + word_of_nat i * 0x1000" if "i < 4" for i
  proof -
    from that have "i = 0 \<or> i = 1 \<or> i = 2 \<or> i = 3" by linarith
    then show ?thesis by auto
  qed
  have b: "i = j" if "i < 4" "j < 4" "(0x2000 + word_of_nat i * 0x1000 :: u64) = 0x2000 + word_of_nat j * 0x1000" for i j
  proof -
    from that(1) have "i = 0 \<or> i = 1 \<or> i = 2 \<or> i = 3" by linarith
    moreover from that(2) have "j = 0 \<or> j = 1 \<or> j = 2 \<or> j = 3" by linarith
    ultimately show ?thesis using that(3) by auto
  qed
  have c: "frame_of (0x2000 + word_of_nat i * 0x1000) \<inter> region 0x1000 64 = {}" if "i < 4" for i
    using that by (auto simp: small_frame_region small_region)
  show ?thesis
    using small_inv a b c by (simp add: pool_ok_def small_frame small_array)
qed

lemma small_paging: "paging_inv 44 0x8000 small_machine"
proof -
  have reg: "x \<in> frame_of 0x8000 \<longleftrightarrow> 0x8000 \<le> unat x \<and> unat x < 0x9000" for x
    unfolding frame_of_def by (subst region_interval) auto
  have z: "ram small_machine x = 0" if "x \<in> frame_of 0x8000" for x
    using that unfolding reg by (auto simp: small_machine_def)
  have "take_bit 12 (0x8000 :: u64) = 0" by simp
  note e = empty_pml4 [OF this z]
  show ?thesis
    using e(1,2) small_pool
    by (auto simp: paging_inv_def tables_ok_def small_free small_array reg small_region)
qed

text \<open>The bytes of a region that are on one of its pages.\<close>

lemma identity_pages_cover:
  assumes "take_bit 12 addr = 0" "unat addr + unat n + 4096 < 2 ^ 44" "j < unat n"
  shows "(\<exists>b \<in> set (identity_pages addr n). same_page (addr + word_of_nat j) b)
      \<longleftrightarrow> j < 4096 * (unat n div 4097 + 1)"
    and "take_bit 44 (addr + word_of_nat j) = addr + word_of_nat j"
proof -
  let ?a = "addr + word_of_nat j"
  have j: "unat addr + j < 2 ^ 44" using assms(2,3) by simp
  have page: "same_page ?a (addr + word_of_nat k * PAGE_SZ) \<longleftrightarrow> j div 4096 = k"
    if "k \<le> unat n div 4097" for k
  proof -
    have "k * 4096 \<le> unat n" using that by linarith
    then show ?thesis using assms(1,2) j by (intro identity_page_of_byte) simp_all
  qed
  have "(\<exists>b \<in> set (identity_pages addr n). same_page ?a b) \<longleftrightarrow> j div 4096 \<le> unat n div 4097"
    using page by (auto simp: identity_pages_def less_Suc_eq_le simp del: upt_Suc)
  also have "\<dots> \<longleftrightarrow> j < 4096 * (unat n div 4097 + 1)"
    using div_less_iff_less_mult [of 4096 j "unat n div 4097 + 1"]
    by (simp add: less_Suc_eq_le mult.commute)
  finally show "(\<exists>b \<in> set (identity_pages addr n). same_page ?a b)
      \<longleftrightarrow> j < 4096 * (unat n div 4097 + 1)" .
  have "unat ?a = unat addr + j"
    using j by (simp add: unat_word_ariths unsigned_of_nat take_bit_eq_mod)
  then show "take_bit 44 ?a = ?a"
    using j by (simp add: word_unat_eq_iff unsigned_take_bit_eq take_bit_nat_eq_self)
qed

section \<open>Properties\<close>

text \<open>C3. \<^verbatim>\<open>map_vaddr_to_paddr\<close> (paging.c) is one update of the address translation: while enough
  free frames remain for the tables the path lacks, every address of the page of \<open>va\<close> comes to
  translate to the frame of \<open>pa\<close>, every other address translates as before, and the page tables
  and the allocator keep their invariant.\<close>

theorem map_vaddr_to_paddr_translates:
  assumes "paging_inv K pml4 s" "K \<le> pw"
    and "missing_tables pml4 [va] s \<le> unat (free_frames (pm s))"
  shows "paging_inv K pml4 (map_vaddr_to_paddr pw pml4 va pa s)
    \<and> (\<forall>a. translate (ram (map_vaddr_to_paddr pw pml4 va pa s)) pml4 a
         = (if same_page a va then Some (page_of pa OR take_bit 12 a)
            else translate (ram s) pml4 a))"
  using map_page(1,2) [OF assms(1,3,2)] by simp

theorem map_vaddr_to_paddr_translates_witness:
  "translate (ram (map_vaddr_to_paddr 64 0x8000 0x99999999999 0x3000 small_machine)) 0x8000
     0x99999999abc = Some 0x3abc"
proof -
  have "missing_tables 0x8000 [0x99999999999] small_machine
      \<le> unat (free_frames (pm small_machine))"
    using missing_tables_bound [of "0x8000" "[0x99999999999]" small_machine]
    by (simp add: small_machine_def)
  with map_vaddr_to_paddr_translates [OF small_paging, of 64 "0x99999999999" "0x3000"]
  have "translate (ram (map_vaddr_to_paddr 64 0x8000 0x99999999999 0x3000 small_machine)) 0x8000
     0x99999999abc = (if same_page 0x99999999abc 0x99999999999
       then Some (page_of 0x3000 OR take_bit 12 0x99999999abc)
       else translate (ram small_machine) 0x8000 0x99999999abc)" by simp
  moreover have "same_page 0x99999999abc 0x99999999999"
    "page_of 0x3000 OR take_bit 12 0x99999999abc = 0x3abc" by code_simp+
  ultimately show ?thesis by simp
qed

text \<open>C6. Building tables stays in bounds: \<^verbatim>\<open>map_vaddr_to_paddr\<close> (paging.c) writes to no byte
  outside the array of page frames, the existing tables and the frames that were free, and it
  changes neither the number nor the addresses of the frames.\<close>

theorem map_vaddr_to_paddr_in_bounds:
  assumes "paging_inv K pml4 s" "K \<le> pw"
    and "missing_tables pml4 [va] s \<le> unat (free_frames (pm s))"
  shows "(\<forall>x. x \<notin> paging_space pml4 s \<longrightarrow>
      ram (map_vaddr_to_paddr pw pml4 va pa s) x = ram s x)
    \<and> frame_list (map_vaddr_to_paddr pw pml4 va pa s) = frame_list s"
  using map_page(3,4) [OF assms(1,3,2)] by simp

theorem map_vaddr_to_paddr_in_bounds_witness:
  "frame_list (map_vaddr_to_paddr 64 0x8000 0x99999999999 0x3000 small_machine)
     = frame_list small_machine"
proof -
  have "missing_tables 0x8000 [0x99999999999] small_machine
      \<le> unat (free_frames (pm small_machine))"
    using missing_tables_bound [of "0x8000" "[0x99999999999]" small_machine]
    by (simp add: small_machine_def)
  with map_vaddr_to_paddr_in_bounds [OF small_paging, of 64 "0x99999999999" "0x3000"]
  show ?thesis by simp
qed

text \<open>C11. \<^verbatim>\<open>is_page_present\<close> (paging.c) answers whether the processor's walk translates the
  address.\<close>

theorem is_page_present_iff_translates:
  assumes "paging_inv K pml4 s" "K \<le> pw"
  shows "is_page_present pw pml4 va s \<longleftrightarrow> translate (ram s) pml4 va \<noteq> None"
  using is_page_present_walk [OF assms] by (simp add: translate_def)

theorem is_page_present_iff_translates_witness:
  "\<not> is_page_present 64 0x8000 0x2000 small_machine"
proof -
  have "walk (ram small_machine) 0x8000 (vpath 0x2000) = None" by code_simp
  with is_page_present_iff_translates [OF small_paging, of 64 "0x2000"]
  show ?thesis by (simp add: translate_def)
qed

text \<open>C13. \<^verbatim>\<open>_identity_paging\<close> (paging.c) maps the pages of \<open>addr\<close>, \<open>addr + 4096\<close>, ... one to one,
  \<open>n / 4097 + 1\<close> of them, and leaves every other translation as it was.\<close>

theorem identity_paging_translates:
  assumes "paging_inv K pml4 s" "K \<le> pw"
    and "missing_tables pml4 (identity_pages addr n) s \<le> unat (free_frames (pm s))"
  shows "paging_inv K pml4 (identity_paging pw pml4 addr n s)
    \<and> (\<forall>a. translate (ram (identity_paging pw pml4 addr n s)) pml4 a
         = (if \<exists>k \<le> unat n div 4097. same_page a (addr + word_of_nat k * PAGE_SZ)
            then Some (take_bit 44 a) else translate (ram s) pml4 a))"
proof -
  have "(\<exists>b \<in> set (identity_pages addr n). same_page a b)
      \<longleftrightarrow> (\<exists>k \<le> unat n div 4097. same_page a (addr + word_of_nat k * PAGE_SZ))" for a
    by (auto simp: identity_pages_def less_Suc_eq_le simp del: upt_Suc)
  then show ?thesis
    using identity_list(1,2) [OF assms(1,3,2)] by (simp add: identity_paging_fold)
qed

theorem identity_paging_translates_witness:
  "translate (ram (identity_paging 64 0x8000 0xfee00000 4096 small_machine)) 0x8000 0xfee00020
     = Some 0xfee00020"
proof -
  have "identity_pages 0xfee00000 4096 = [0xfee00000]" by code_simp
  then have "missing_tables 0x8000 (identity_pages 0xfee00000 4096) small_machine
      \<le> unat (free_frames (pm small_machine))"
    using missing_tables_bound [of "0x8000" "[0xfee00000]" small_machine]
    by (simp add: small_machine_def)
  with identity_paging_translates [OF small_paging, of 64 "0xfee00000" 4096]
  have "translate (ram (identity_paging 64 0x8000 0xfee00000 4096 small_machine)) 0x8000 0xfee00020
      = (if same_page 0xfee00020 0xfee00000 then Some (take_bit 44 0xfee00020)
         else translate (ram small_machine) 0x8000 0xfee00020)" by simp
  moreover have "same_page 0xfee00020 0xfee00000" by code_simp
  ultimately show ?thesis by simp
qed

text \<open>C24. What \<^verbatim>\<open>_identity_paging\<close> (paging.c) covers of the \<open>n\<close> bytes from a page boundary: the
  first \<open>4096 * (n / 4097 + 1)\<close> of them. The comment in the source says that \<open>n\<close> is always
  rounded up to whole pages; beyond that many bytes (from \<open>n = 8193\<close> on there are such) the
  translation is left as it was.\<close>

theorem identity_paging_coverage:
  assumes "paging_inv K pml4 s" "K \<le> pw"
    and "missing_tables pml4 (identity_pages addr n) s \<le> unat (free_frames (pm s))"
    and "take_bit 12 addr = 0" "unat addr + unat n + 4096 < 2 ^ 44" "j < unat n"
  shows "translate (ram (identity_paging pw pml4 addr n s)) pml4 (addr + word_of_nat j)
    = (if j < 4096 * (unat n div 4097 + 1) then Some (addr + word_of_nat j)
       else translate (ram s) pml4 (addr + word_of_nat j))"
proof -
  note c = identity_pages_cover [OF assms(4-6)]
  then show ?thesis
    using identity_list(2) [OF assms(1,3,2), of "addr + word_of_nat j"] by (simp add: identity_paging_fold)
qed

theorem identity_paging_coverage_witness:
  "translate (ram (identity_paging 64 0x8000 0xfee00000 8193 small_machine)) 0x8000 0xfee02000
     = None"
proof -
  have pages: "identity_pages 0xfee00000 8193 = [0xfee00000, 0xfee01000]" by code_simp
  have "vpath 0xfee01000 = [0, 3, 503, 1]" "vpath 0xfee00000 = [0, 3, 503, 0]" by code_simp+
  then have "table_paths 0xfee01000 = table_paths 0xfee00000" by (simp add: table_paths_def)
  then have "missing_tables 0x8000 [0xfee00000, 0xfee01000] small_machine
      = missing_tables 0x8000 [0xfee00000] small_machine"
    by (simp add: missing_tables_def)
  then have "missing_tables 0x8000 (identity_pages 0xfee00000 8193) small_machine
      \<le> unat (free_frames (pm small_machine))"
    using missing_tables_bound [of "0x8000" "[0xfee00000]" small_machine] pages
    by (simp add: small_machine_def)
  from identity_paging_coverage [OF small_paging _ this, of 64 8192]
  have "translate (ram (identity_paging 64 0x8000 0xfee00000 8193 small_machine)) 0x8000 0xfee02000
      = translate (ram small_machine) 0x8000 0xfee02000" by simp
  moreover have "translate (ram small_machine) 0x8000 0xfee02000 = None" by code_simp
  ultimately show ?thesis by simp
qed

text \<open>The first loop of \<^verbatim>\<open>_identity_paging_memory\<close> (paging.c): after it every address of every
  page frame of the memory map translates to itself, and all other translations, the list of
  frames and the invariant are kept, although the loop takes frames from the list it runs over.\<close>

lemma identity_paging_frames_translates:
  assumes "paging_inv K pml4 s" "K \<le> pw"
    and "missing_tables pml4 (frame_list s) s \<le> unat (free_frames (pm s))"
  shows "paging_inv K pml4 (identity_paging_frames pw pml4 s)
    \<and> frame_list (identity_paging_frames pw pml4 s) = frame_list s
    \<and> (\<forall>a. translate (ram (identity_paging_frames pw pml4 s)) pml4 a
         = (if \<exists>f \<in> set (frame_list s). same_page a f then Some (take_bit 44 a)
            else translate (ram s) pml4 a))"
  using identity_list(1,2,4) [OF assms(1,3,2)] identity_frames [OF assms] by simp

lemma identity_paging_frames_translates_witness:
  "translate (ram (identity_paging_frames 64 0x8000 small_machine)) 0x8000 0x4123 = Some 0x4123"
proof -
  have fl: "frame_list small_machine = [0x2000, 0x3000, 0x4000, 0x5000]"
    using small_frames(1) by (simp add: frame_list_def)
  have "vpath 0x2000 = [0, 0, 0, 2]" "vpath 0x3000 = [0, 0, 0, 3]" "vpath 0x4000 = [0, 0, 0, 4]"
    "vpath 0x5000 = [0, 0, 0, 5]" by code_simp+
  then have "table_paths 0x3000 = table_paths 0x2000" "table_paths 0x4000 = table_paths 0x2000"
    "table_paths 0x5000 = table_paths 0x2000" by (simp_all add: table_paths_def)
  then have "missing_tables 0x8000 [0x2000, 0x3000, 0x4000, 0x5000] small_machine
      = missing_tables 0x8000 [0x2000] small_machine"
    by (simp add: missing_tables_def)
  then have "missing_tables 0x8000 (frame_list small_machine) small_machine
      \<le> unat (free_frames (pm small_machine))"
    using missing_tables_bound [of "0x8000" "[0x2000]" small_machine] fl
    by (simp add: small_machine_def)
  with identity_paging_frames_translates [OF small_paging, of 64]
  have "translate (ram (identity_paging_frames 64 0x8000 small_machine)) 0x8000 0x4123
      = (if \<exists>f \<in> set (frame_list small_machine). same_page 0x4123 f then Some (take_bit 44 0x4123)
         else translate (ram small_machine) 0x8000 0x4123)" by simp
  moreover have "same_page 0x4123 0x4000" by code_simp
  ultimately show ?thesis by (simp add: fl)
qed



end
