(* ===== verification/Boot_Memory.thy ===== *)
theory Boot_Memory
  imports Pmem_Pool Paging_Pmem
begin

text \<open>
  From the firmware's memory map to the paging invariant: what \<^verbatim>\<open>init_physical_memory\<close>
  (\<^verbatim>\<open>src/src/memory/pmem.c\<close>) leaves behind is what \<^verbatim>\<open>map_vaddr_to_paddr\<close>
  (\<^verbatim>\<open>src/src/memory/paging.c\<close>) needs.
\<close>

unbundle bit_operations_syntax

section \<open>What the memory map must be like\<close>

text \<open>Its frames are whole pages below \<open>2 ^ 44\<close>, listed once.\<close>

definition map_sound :: "EfiMemoryDescriptor list \<Rightarrow> bool" where
  "map_sound ds \<longleftrightarrow> distinct (map fst (map_frames ds))
     \<and> (\<forall>f \<in> set (map fst (map_frames ds)). take_bit 12 f = 0 \<and> take_bit 44 f = f)"

text \<open>The region the array is put in is large enough for it: sixteen bytes per frame.\<close>

definition array_room :: "ptr \<Rightarrow> EfiMemoryDescriptor list \<Rightarrow> bool" where
  "array_room buf ds \<longleftrightarrow> (\<exists>ds1 d ds2. ds = ds1 @ d # ds2 \<and> physical_addr d = buf
     \<and> (\<forall>e \<in> set ds2. physical_addr e \<noteq> buf) \<and> total_pages ds \<le> 256 * unat (number_of_pages d))"

lemma array_start_split:
  assumes "physical_addr d = buf" "\<forall>e \<in> set ds2. physical_addr e \<noteq> buf"
  shows "array_start buf k acc (ds1 @ d # ds2) = k + total_pages ds1"
proof -
  have "array_start buf k' acc' ds2 = acc'" for k' acc'
    using assms(2) by (induction ds2 arbitrary: k' acc') simp_all
  then show ?thesis
    using assms(1) by (induction ds1 arbitrary: k acc) (simp_all add: total_pages_def)
qed

text \<open>The pages of the array are the first ones of its region.\<close>

lemma array_pages:
  assumes "array_room buf ds" "256 * i < total_pages ds"
  shows "array_start buf 0 0 ds + i < total_pages ds"
    and "map fst (map_frames ds) ! (array_start buf 0 0 ds + i) = buf + word_of_nat i * FRAME_SZ"
proof -
  obtain ds1 d ds2 where ds: "ds = ds1 @ d # ds2" "physical_addr d = buf"
    "\<forall>e \<in> set ds2. physical_addr e \<noteq> buf" "total_pages ds \<le> 256 * unat (number_of_pages d)"
    using assms(1) by (auto simp: array_room_def)
  have a: "array_start buf 0 0 ds = total_pages ds1"
    using array_start_split [OF ds(2,3)] by (simp add: ds(1))
  have i: "i < unat (number_of_pages d)" using assms(2) ds(4) by linarith
  then show "array_start buf 0 0 ds + i < total_pages ds"
    unfolding a by (simp add: ds(1) total_pages_def)
  have "map_frames ds = map_frames ds1 @ region_frames d @ map_frames ds2"
    by (simp add: ds(1) map_frames_def)
  then show "map fst (map_frames ds) ! (array_start buf 0 0 ds + i) = buf + word_of_nat i * FRAME_SZ"
    unfolding a using i ds(2)
    by (simp add: nth_append length_map_frames region_frames_def)
qed

text \<open>From 32 frames on, the frames that are locked hold the array.\<close>

lemma boot_states_free:
  assumes "boot_states stack buf ds ! j = FREE_FRAME" "j < total_pages ds"
  shows "j < array_start buf 0 0 ds \<or> array_start buf 0 0 ds + total_pages ds div 32 \<le> j"
  using assms by (auto simp: boot_states_def Let_def length_map_frames split: if_splits)

lemma boot_states_type:
  assumes "boot_states stack buf ds ! j = FREE_FRAME" "j < total_pages ds"
  shows "(map fst (map_frames ds) ! j, FREE_FRAME) \<in> set (map_frames ds)"
proof -
  have j: "j < length (map_frames ds)" using assms(2) by (simp add: length_map_frames)
  have "stack_reserved stack (map_frames ds) ! j = FREE_FRAME"
    using assms by (simp add: boot_states_def Let_def length_map_frames split: if_splits)
  then have "snd (map_frames ds ! j) = FREE_FRAME"
  proof -
    have "l ! j = FREE_FRAME" if "l[i := RESERVED_FRAME] ! j = FREE_FRAME" "j < length l" for l i
      using that by (cases "i = j") simp_all
    from this [of "map snd (map_frames ds)"] show ?thesis
      using j \<open>stack_reserved stack (map_frames ds) ! j = FREE_FRAME\<close>
      by (auto simp: stack_reserved_def split: option.splits if_splits)
  qed
  then have "map_frames ds ! j = (map fst (map_frames ds) ! j, FREE_FRAME)"
    using j by (simp add: prod_eq_iff)
  with nth_mem [OF j] show ?thesis by simp
qed

lemma free_frame_apart:
  assumes "map_sound ds" "array_room buf ds" "32 \<le> total_pages ds"
    and j: "j < total_pages ds" "boot_states stack buf ds ! j = FREE_FRAME"
  shows "frame_of (map fst (map_frames ds) ! j) \<inter> region buf (16 * total_pages ds) = {}"
proof (rule ccontr)
  let ?n = "total_pages ds" and ?a = "array_start buf 0 0 ds" and ?fs = "map fst (map_frames ds)"
  assume "frame_of (?fs ! j) \<inter> region buf (16 * ?n) \<noteq> {}"
  then obtain x where x: "x \<in> frame_of (?fs ! j)" "unat (x - buf) < 16 * ?n"
    by (auto simp: region_iff)
  define i where "i = unat (x - buf) div 4096"
  have i: "256 * i < ?n" using x(2) unfolding i_def by linarith
  note p = array_pages [OF assms(2) i]
  have "32 * Suc i \<le> ?n" using i assms(3) by (cases "i = 0") simp_all
  then have "i < ?n div 32"
    using div_le_mono [of "32 * Suc i" ?n 32] by simp
  with boot_states_free [OF j(2,1)] have ne: "?a + i \<noteq> j" by auto
  have len: "length ?fs = ?n" by (simp add: length_map_frames)
  have al: "take_bit 12 (?fs ! k) = 0" if "k < ?n" for k
    using assms(1) that len nth_mem [of k ?fs] by (auto simp: map_sound_def)
  have "?fs ! (?a + i) \<noteq> ?fs ! j"
    using assms(1) ne p(1) j(1) len by (simp add: map_sound_def nth_eq_iff_index_eq del: nth_map)
  then have "frame_of (?fs ! (?a + i)) \<inter> frame_of (?fs ! j) = {}"
    using al p(1) j(1) by (intro aligned_frames_disjoint) simp_all
  moreover have "x \<in> frame_of (?fs ! (?a + i))"
  proof -
    have "unat (x - buf) = 4096 * i + unat (x - buf) mod 4096" by (simp add: i_def)
    then have "word_of_nat (unat (x - buf))
        = (word_of_nat (4096 * i) + word_of_nat (unat (x - buf) mod 4096) :: u64)"
      by (metis of_nat_add)
    then have "x - buf = word_of_nat (4096 * i) + word_of_nat (unat (x - buf) mod 4096)" by simp
    then have "x = (buf + word_of_nat i * FRAME_SZ) + word_of_nat (unat (x - buf) mod 4096)"
      by (simp add: algebra_simps)
    moreover have "unat (x - buf) mod 4096 < 4096" by simp
    then have "buf + word_of_nat i * FRAME_SZ + word_of_nat (unat (x - buf) mod 4096)
        \<in> region (buf + word_of_nat i * FRAME_SZ) 4096"
      by (intro region_offset) simp_all
    ultimately show ?thesis unfolding p(2) frame_of_def by simp
  qed
  ultimately show False using x(1) by blast
qed

section \<open>The memory map after writes elsewhere\<close>

lemma map_same:
  assumes "map_separate md m R" and same: "\<And>x. x \<notin> R \<Longrightarrow> m' x = m x"
  shows "memory_data m' md = memory_data m md" "efi_map md m' = efi_map md m"
    and "map_separate md m' S = map_separate md m S"
    and "get_largest_free_mem_seg md m' seg = get_largest_free_mem_seg md m seg"
proof -
  show md: "memory_data m' md = memory_data m md"
    by (rule memory_data_cong) (use assms in \<open>auto simp: map_separate_def\<close>)
  then have g: "get_memory_descriptor md n m' = get_memory_descriptor md n m" for n
    by (simp add: get_memory_descriptor_def)
  have d: "efi_desc m' (get_memory_descriptor md (word_of_nat i) m) = efi_desc m (get_memory_descriptor md (word_of_nat i) m)"
    if "i < unat (entries (memory_data m md))" for i
    by (rule efi_desc_cong) (use assms that in \<open>auto simp: map_separate_def\<close>)
  then show "efi_map md m' = efi_map md m" by (simp add: efi_map_def md g)
  show "map_separate md m' S = map_separate md m S" by (simp add: map_separate_def md g)
  show "get_largest_free_mem_seg md m' seg = get_largest_free_mem_seg md m seg"
    unfolding get_largest_free_mem_seg_def for_range_fold md g
    by (rule fold_cong) (simp_all add: d)
qed

lemma boot_ready_same:
  assumes "map_separate md (ram s) R" "\<And>x. x \<notin> R \<Longrightarrow> ram s' x = ram s x" "pm s' = pm s"
  shows "boot_ready md stack buf s' = boot_ready md stack buf s"
  using map_same [OF assms(1,2)] by (simp add: boot_ready_def assms(3))

section \<open>The pool is ready for paging\<close>

lemma pool_okI:
  assumes "pm_inv s" "K \<le> 44" "distinct (frame_list s)"
    and "\<And>f. f \<in> set (frame_list s) \<Longrightarrow> take_bit 12 f = 0 \<and> take_bit K f = f"
    and "\<And>f. f \<in> free_addrs s \<Longrightarrow> frame_of f \<inter> array_region s = {}"
  shows "pool_ok K s"
proof -
  have len: "length (frame_list s) = n_frames s" and nth: "frame_list s ! i = frame_addr s i" if "i < n_frames s" for i
    using that by (simp_all add: frame_list_def)
  have "take_bit 12 (frame_addr s i) = 0 \<and> take_bit K (frame_addr s i) = frame_addr s i" if "i < n_frames s" for i
    using assms(4) [of "frame_addr s i"] that by (simp add: frame_list_def)
  moreover have "frame_of (frame_addr s i) \<inter> array_region s = {}"
    if "i < n_frames s" "frame_st s i = FREE_FRAME" for i
    using assms(5) [of "frame_addr s i"] that by (auto simp: free_addrs_def)
  moreover have "i = j" if "i < n_frames s" "j < n_frames s" "frame_addr s i = frame_addr s j" for i j
    using assms(3) that by (auto simp: frame_list_def distinct_map inj_on_def)
  ultimately show ?thesis using assms(1,2) unfolding pool_ok_def by blast
qed

text \<open>An empty table outside the array and the free frames.\<close>

lemma empty_table_paging:
  assumes "pool_ok K s" "take_bit 12 pml4 = 0" "\<And>x. x \<in> frame_of pml4 \<Longrightarrow> ram s x = 0"
    and "pml4 \<notin> free_addrs s" "frame_of pml4 \<inter> array_region s = {}"
  shows "paging_inv K pml4 s"
  using assms(1,4,5) empty_pml4(1,2) [OF assms(2,3)] by (simp add: paging_inv_def tables_ok_def)

text \<open>The frames that booting leaves free.\<close>

definition boot_free :: "ptr \<Rightarrow> ptr \<Rightarrow> EfiMemoryDescriptor list \<Rightarrow> ptr set" where
  "boot_free stack buf ds = {map fst (map_frames ds) ! j | j.
     j < total_pages ds \<and> boot_states stack buf ds ! j = FREE_FRAME}"

text \<open>Booting as a whole.\<close>

lemma boot_paging:
  assumes "boot_ready md stack buf s" "buf = snd (get_largest_free_mem_seg md (ram s) 0)"
    and "map_sound (efi_map md (ram s))" "array_room buf (efi_map md (ram s))"
    and "32 \<le> total_pages (efi_map md (ram s))"
    and "take_bit 12 pml4 = 0" "\<And>x. x \<in> frame_of pml4 \<Longrightarrow> ram s x = 0"
    and "pml4 \<notin> boot_free stack buf (efi_map md (ram s))"
    and "frame_of pml4 \<inter> region buf (16 * total_pages (efi_map md (ram s))) = {}"
  shows "\<exists>s'. init_physical_memory md stack s = Some s' \<and> paging_inv 44 pml4 s'
    \<and> frame_list s' = map fst (map_frames (efi_map md (ram s)))
    \<and> free_addrs s' = boot_free stack buf (efi_map md (ram s))
    \<and> (\<forall>a. translate (ram s') pml4 a = None) \<and> tables (ram s') pml4 = {pml4}
    \<and> unat (free_frames (pm s')) = count_list (boot_states stack buf (efi_map md (ram s))) FREE_FRAME
    \<and> array_region s' = region buf (16 * total_pages (efi_map md (ram s)))
    \<and> (\<forall>x. x \<notin> array_region s' \<longrightarrow> ram s' x = ram s x)"
proof -
  let ?ds = "efi_map md (ram s)" and ?fs = "map_frames (efi_map md (ram s))"
  obtain s' where s': "PhysicalMemory__init md stack buf s = Some s'" "pm_inv s'"
      "frame_array (pm s') = buf" "n_frames s' = total_pages ?ds"
      "map (frame_addr s') [0..<n_frames s'] = map fst ?fs"
      "frame_sts s' = boot_states stack buf ?ds"
      "\<And>x. x \<notin> region buf (16 * n_frames s') \<Longrightarrow> ram s' x = ram s x"
    by (rule PhysicalMemory__init_correct [OF assms(1)]) blast
  have list: "frame_list s' = map fst ?fs" using s'(5) by (simp add: frame_list_def)
  have array: "array_region s' = region buf (16 * total_pages ?ds)"
    by (simp add: array_region_def s'(3,4))
  have addr: "frame_addr s' j = map fst ?fs ! j" if "j < total_pages ?ds" for j
    using arg_cong [OF s'(5), of "\<lambda>l. l ! j"] that s'(4) by simp
  have st: "frame_st s' j = boot_states stack buf ?ds ! j" if "j < total_pages ?ds" for j
    using arg_cong [OF s'(6), of "\<lambda>l. l ! j"] that s'(4) by (simp add: frame_sts_def)
  have fr: "free_addrs s' = boot_free stack buf ?ds"
    using s'(4) by (auto simp: free_addrs_def boot_free_def addr st) (metis addr st)
  have free: "\<exists>j < total_pages ?ds. f = map fst ?fs ! j \<and> boot_states stack buf ?ds ! j = FREE_FRAME"
    if "f \<in> free_addrs s'" for f
    using that by (auto simp: fr boot_free_def)
  have "pool_ok 44 s'"
  proof (rule pool_okI [OF s'(2)])
    show "frame_of f \<inter> array_region s' = {}" if "f \<in> free_addrs s'" for f
      using free [OF that] free_frame_apart [OF assms(3-5)] unfolding array by auto
  qed (use assms(3) in \<open>auto simp: list map_sound_def\<close>)
  moreover have "pml4 \<notin> free_addrs s'"
    using assms(8) by (simp add: fr)
  moreover have z: "ram s' x = 0" if "x \<in> frame_of pml4" for x
  proof -
    have "x \<notin> region buf (16 * n_frames s')" using that assms(9) unfolding s'(4) by blast
    then show ?thesis using s'(7) assms(7) that by simp
  qed
  ultimately have "paging_inv 44 pml4 s'"
    using assms(6,9) by (intro empty_table_paging) (simp_all add: array)
  moreover have "translate (ram s') pml4 a = None" for a
  proof -
    obtain i p where "vpath a = i # p" "i < 512" by (rule vpath_split [of a]) blast
    then show ?thesis
      using empty_pml4(3) [of pml4 "ram s'" i p, OF assms(6) z] by (auto simp: translate_def)
  qed
  moreover have "init_physical_memory md stack s = Some s'"
    by (simp add: init_physical_memory_def case_prod_beta assms(2) [symmetric] s'(1))
  moreover have "\<forall>x. x \<notin> array_region s' \<longrightarrow> ram s' x = ram s x"
    using s'(4,7) by (simp add: array)
  moreover have "unat (free_frames (pm s')) = count_list (boot_states stack buf ?ds) FREE_FRAME"
    using s'(2) by (simp add: pm_inv_def s'(6))
  moreover have "tables (ram s') pml4 = {pml4}" by (rule empty_pml4(2) [OF assms(6) z])
  ultimately show ?thesis using list array fr by blast
qed

lemma boot_free_type: "f \<in> boot_free stack buf ds \<Longrightarrow> (f, FREE_FRAME) \<in> set (map_frames ds)"
  using boot_states_type by (auto simp: boot_free_def)

section \<open>A machine of 64 frames\<close>

text \<open>As \<open>boot_machine\<close>, with 64 pages from \<open>0x10000\<close> on; a framebuffer structure at \<open>0x300\<close> and the
  table of the event timer at \<open>0x400\<close>, both devices in the region of the local APIC.\<close>

definition boot64 :: pstate where
  "boot64 = \<lparr>ram = (\<lambda>_. 0)(0x101 := 2, 0x110 := 48, 0x118 := 1, 0x200 := 7, 0x20a := 1, 0x218 := 64,
       0x302 := 0xe1, 0x303 := 0xfe, 0x42e := 0xe2, 0x42f := 0xfe),
     pm = \<lparr>free_frames = 0, reserved_frames = 0, locked_frames = 0, frames = 0,
       frame_array = 0, initialized = False\<rparr>\<rparr>"

lemma boot64_map:
  "efi_map 0x100 (ram boot64) = [\<lparr>efi_type = 7, efi_pad = 0, physical_addr = 0x10000,
     virtual_addr = 0, number_of_pages = 64, attribute = 0\<rparr>]"
  by code_simp

lemma boot64_frames:
  "map_frames (efi_map 0x100 (ram boot64))
    = map (\<lambda>k. (0x10000 + word_of_nat k * 0x1000, FREE_FRAME)) [0..<64]"
  by (simp add: boot64_map map_frames_def region_frames_def kernel_may_use_def)

lemma boot64_frame: "k < 64 \<Longrightarrow> unat (0x10000 + word_of_nat k * 0x1000 :: ptr) = 0x10000 + k * 0x1000"
  by (simp add: unat_word_ariths unsigned_of_nat take_bit_nat_eq_self)

lemma boot64_total: "total_pages (efi_map 0x100 (ram boot64)) = 64"
  by (simp add: boot64_map total_pages_def)

lemma boot64_ready: "boot_ready 0x100 0x11f00 0x10000 boot64"
proof -
  have d: "entries (memory_data (ram boot64) 0x100) = 1"
    "get_memory_descriptor 0x100 0 (ram boot64) = 0x200"
    by code_simp+
  have "map_separate 0x100 (ram boot64) (region 0x10000 (16 * 64))"
    by (auto simp: map_separate_def d region_interval)
  moreover have "\<not> initialized (pm boot64)" by (simp add: boot64_def)
  moreover have "first_index (frame_holds 0x11f00) (map fst (map_frames (efi_map 0x100 (ram boot64)))) \<noteq> None"
    by (auto simp: first_index_None boot64_frames frame_holds_def intro!: bexI [of _ 1])
  ultimately show ?thesis
    by (simp add: boot_ready_def d Let_def boot64_total) (simp add: boot64_map)
qed

lemma boot64_sound: "map_sound (efi_map 0x100 (ram boot64))"
proof -
  have "k = l" if "k < 64" "l < 64" "(0x10000 + word_of_nat k * 0x1000 :: ptr) = 0x10000 + word_of_nat l * 0x1000" for k l
    using arg_cong [OF that(3), of unat] boot64_frame that(1,2) by simp
  then have "distinct (map fst (map_frames (efi_map 0x100 (ram boot64))))"
    by (simp add: boot64_frames comp_def distinct_map inj_on_def)
  moreover have "take_bit 12 f = 0 \<and> take_bit 44 f = f" if "f = 0x10000 + word_of_nat k * 0x1000" "k < 64" for f :: ptr and k
  proof -
    have u: "unat f = 4096 * (16 + k)" using boot64_frame [OF that(2)] that(1) by simp
    have "unat (take_bit 12 f) = 0"
      unfolding unsigned_take_bit_eq u by (simp add: take_bit_eq_mod)
    moreover have "unat (take_bit 44 f) = unat f"
      using that(2) unfolding unsigned_take_bit_eq u by (intro take_bit_nat_eq_self) simp
    ultimately show ?thesis by (simp add: word_unat_eq_iff)
  qed
  ultimately show ?thesis by (auto simp: map_sound_def boot64_frames)
qed

text \<open>The kernel's first table at \<open>0x8000\<close>.\<close>

lemma boot64_facts:
  "0x10000 = snd (get_largest_free_mem_seg 0x100 (ram boot64) 0)"
  "array_room 0x10000 (efi_map 0x100 (ram boot64))" "32 \<le> total_pages (efi_map 0x100 (ram boot64))"
  "x \<in> frame_of 0x8000 \<Longrightarrow> ram boot64 x = 0"
  "(0x8000, FREE_FRAME) \<notin> set (map_frames (efi_map 0x100 (ram boot64)))"
  "frame_of 0x8000 \<inter> region 0x10000 (16 * total_pages (efi_map 0x100 (ram boot64))) = {}"
proof -
  have reg: "x \<in> frame_of 0x8000 \<longleftrightarrow> 0x8000 \<le> unat x \<and> unat x < 0x9000" for x
    unfolding frame_of_def by (subst region_interval) auto
  show "0x10000 = snd (get_largest_free_mem_seg 0x100 (ram boot64) 0)" by code_simp
  show "32 \<le> total_pages (efi_map 0x100 (ram boot64))" by (simp add: boot64_total)
  show "array_room 0x10000 (efi_map 0x100 (ram boot64))"
    unfolding array_room_def boot64_total
    by (intro exI [of _ "[]"] exI conjI, simp add: boot64_map) simp_all
  show "x \<in> frame_of 0x8000 \<Longrightarrow> ram boot64 x = 0" unfolding reg by (auto simp: boot64_def)
  have "\<forall>f \<in> set (map_frames (efi_map 0x100 (ram boot64))). 0x10000 \<le> unat (fst f)"
    by (simp add: boot64_frames boot64_frame)
  then show "(0x8000, FREE_FRAME) \<notin> set (map_frames (efi_map 0x100 (ram boot64)))" by fastforce
  show "frame_of 0x8000 \<inter> region 0x10000 (16 * total_pages (efi_map 0x100 (ram boot64))) = {}"
    unfolding boot64_total frame_of_def by (rule regions_apart) simp_all
qed

section \<open>Properties\<close>

text \<open>C10. Booting prepares paging: where the firmware's map lists whole pages below \<open>2 ^ 44\<close> once
  each, at least 32 of them, the largest free region has room for the array, and the kernel's
  zeroed first table is not in a free frame or the array, \<^verbatim>\<open>init_physical_memory\<close> (pmem.c)
  returns with the invariant that \<^verbatim>\<open>map_vaddr_to_paddr\<close> (paging.c) works under; the frames it
  lists are those of the map, and no address is translated yet.\<close>

theorem boot_prepares_paging:
  assumes "boot_ready md stack buf s" "buf = snd (get_largest_free_mem_seg md (ram s) 0)"
    and "map_sound (efi_map md (ram s))" "array_room buf (efi_map md (ram s))"
    and "32 \<le> total_pages (efi_map md (ram s))"
    and "take_bit 12 pml4 = 0" "\<And>x. x \<in> frame_of pml4 \<Longrightarrow> ram s x = 0"
    and "(pml4, FREE_FRAME) \<notin> set (map_frames (efi_map md (ram s)))"
    and "frame_of pml4 \<inter> region buf (16 * total_pages (efi_map md (ram s))) = {}"
  shows "\<exists>s'. init_physical_memory md stack s = Some s' \<and> paging_inv 44 pml4 s'
    \<and> frame_list s' = map fst (map_frames (efi_map md (ram s)))
    \<and> (\<forall>a. translate (ram s') pml4 a = None)"
  using boot_paging [OF assms(1-7) _ assms(9)] boot_free_type assms(8) by blast

theorem boot_prepares_paging_witness:
  "\<exists>s'. init_physical_memory 0x100 0x11f00 boot64 = Some s' \<and> paging_inv 44 0x8000 s'
    \<and> length (frame_list s') = 64"
proof -
  have "\<exists>s'. init_physical_memory 0x100 0x11f00 boot64 = Some s' \<and> paging_inv 44 0x8000 s'
    \<and> frame_list s' = map fst (map_frames (efi_map 0x100 (ram boot64)))
    \<and> (\<forall>a. translate (ram s') 0x8000 a = None)"
    using boot64_facts boot64_ready boot64_sound by (intro boot_prepares_paging) simp_all
  then show ?thesis by (auto simp: boot64_frames)
qed

end
