(* ===== verification/Acpi.thy ===== *)
theory Acpi
  imports Libc
begin

text \<open>
  Finding the firmware's tables, \<^verbatim>\<open>src/src/acpi/acpi.c\<close> and \<^verbatim>\<open>acpi.h\<close>. \<open>rsdp\<close> is the pointer
  \<^verbatim>\<open>kernel.acpi_rsdp\<close>; a string literal of the source is the pointer to its bytes.
\<close>

unbundle bit_operations_syntax

section \<open>Tables\<close>

record ACPI_RSDP =
  rsdp_checksum :: u8
  rsdp_revision :: u8
  rsdt_addr :: u32

definition rsdp_at :: "mem \<Rightarrow> ptr \<Rightarrow> ACPI_RSDP" where
  "rsdp_at m p = \<lparr>rsdp_checksum = load8 m (p + 8), rsdp_revision = load8 m (p + 15),
     rsdt_addr = load32 m (p + 16)\<rparr>"

record ACPI_SDT_Header =
  sdt_length :: u32
  sdt_revision :: u8
  sdt_checksum :: u8
  oem_revision :: u32
  creator_id :: u32
  creator_revision :: u32

definition sdt_header_at :: "mem \<Rightarrow> ptr \<Rightarrow> ACPI_SDT_Header" where
  "sdt_header_at m p = \<lparr>sdt_length = load32 m (p + 4), sdt_revision = load8 m (p + 8),
     sdt_checksum = load8 m (p + 9), oem_revision = load32 m (p + 24),
     creator_id = load32 m (p + 28), creator_revision = load32 m (p + 32)\<rparr>"

text \<open>\<^verbatim>\<open>sizeof(ACPI_SDT_Header)\<close> is also the size of \<^verbatim>\<open>ACPI_RSDT\<close> without its table.\<close>

abbreviation ACPI_RSDT_sz :: u64 where "ACPI_RSDT_sz \<equiv> 36"

text \<open>The generic address structure.\<close>

record ACPI_GAS =
  address_space_id :: u8
  reg_bit_width :: u8
  reg_bit_offset :: u8
  access_size :: u8
  gas_address :: u64

definition gas_at :: "mem \<Rightarrow> ptr \<Rightarrow> ACPI_GAS" where
  "gas_at m p = \<lparr>address_space_id = load8 m p, reg_bit_width = load8 m (p + 1),
     reg_bit_offset = load8 m (p + 2), access_size = load8 m (p + 3), gas_address = load64 m (p + 4)\<rparr>"

abbreviation RSDP_SIGNATURE :: string where "RSDP_SIGNATURE \<equiv> ''RSD PTR ''"
abbreviation RSDT_SIGNATURE :: string where "RSDT_SIGNATURE \<equiv> ''RSDT''"
abbreviation HPET_STD_SIGNATURE :: string where "HPET_STD_SIGNATURE \<equiv> ''HPET''"

abbreviation ACPI_1_VERSION :: u8 where "ACPI_1_VERSION \<equiv> 0"
abbreviation ACPI_2_VERSION :: u8 where "ACPI_2_VERSION \<equiv> 2"

section \<open>Operations\<close>

definition get_acpi_version :: "mem \<Rightarrow> ptr \<Rightarrow> u8" where
  "get_acpi_version m rsdp = rsdp_revision (rsdp_at m rsdp)"

definition is_rsdp_sig_correct :: "mem \<Rightarrow> ptr \<Rightarrow> ptr \<Rightarrow> bool" where
  "is_rsdp_sig_correct m rsdp rsdp_sig = (strncmp m rsdp rsdp_sig 8 = 0)"

definition is_rsdt_sig_correct :: "mem \<Rightarrow> ptr \<Rightarrow> ptr \<Rightarrow> bool" where
  "is_rsdt_sig_correct m rsdp rsdt_sig =
     (let rsdt = ucast (rsdt_addr (rsdp_at m rsdp)) :: ptr in strncmp m rsdt rsdt_sig 4 = 0)"

text \<open>\<^verbatim>\<open>rsdt->sdt_table[i]\<close>\<close>

definition sdt_table_entry :: "mem \<Rightarrow> ptr \<Rightarrow> u64 \<Rightarrow> ptr" where
  "sdt_table_entry m rsdt i = ucast (load32 m (rsdt + ACPI_RSDT_sz + i * 4))"

definition sdt_entries :: "mem \<Rightarrow> ptr \<Rightarrow> u64" where
  "sdt_entries m rsdt = (ucast (sdt_length (sdt_header_at m rsdt)) - ACPI_RSDT_sz) div 4"

function find_sdt :: "mem \<Rightarrow> ptr \<Rightarrow> ptr \<Rightarrow> u64 \<Rightarrow> u64 \<Rightarrow> ptr" where
  "find_sdt m rsdt signature entries i =
     (if i < entries then
        let sdt_header = sdt_table_entry m rsdt i
        in if strncmp m sdt_header signature 4 = 0 then sdt_header
           else find_sdt m rsdt signature entries (i + 1)
      else 0)"
  by pat_completeness auto
termination
  by (relation "measure (\<lambda>(m, rsdt, signature, entries, i). unat entries - unat i)")
    (auto simp: unat_Suc_less word_less_nat_alt)

declare find_sdt.simps [simp del]

definition get_acpi_std_header :: "mem \<Rightarrow> ptr \<Rightarrow> ptr \<Rightarrow> ptr" where
  "get_acpi_std_header m rsdp signature =
     (let rsdt = ucast (rsdt_addr (rsdp_at m rsdp)) :: ptr
      in find_sdt m rsdt signature (sdt_entries m rsdt) 0)"

section \<open>The table that is found\<close>

text \<open>The pointers of the table, and whether the table one points to has the signature.\<close>

definition sdt_table :: "mem \<Rightarrow> ptr \<Rightarrow> ptr list" where
  "sdt_table m rsdt = map (\<lambda>i. sdt_table_entry m rsdt (word_of_nat i)) [0..<unat (sdt_entries m rsdt)]"

definition has_signature :: "mem \<Rightarrow> ptr \<Rightarrow> ptr \<Rightarrow> bool" where
  "has_signature m signature p \<longleftrightarrow> agree m p signature 4"

lemma strncmp_signature: "strncmp m p signature 4 = 0 \<longleftrightarrow> has_signature m signature p"
  by (simp add: strncmp_agree has_signature_def)

lemma nth_sdt_table:
  "k < unat (sdt_entries m rsdt) \<Longrightarrow> sdt_table m rsdt ! k = sdt_table_entry m rsdt (word_of_nat k)"
  by (simp add: sdt_table_def)

lemma find_sdt_first:
  assumes "k \<le> unat (sdt_entries m rsdt)"
  shows "find_sdt m rsdt signature (sdt_entries m rsdt) (word_of_nat k)
    = (case first_index (has_signature m signature) (drop k (sdt_table m rsdt)) of
         None \<Rightarrow> 0 | Some i \<Rightarrow> sdt_table m rsdt ! (k + i))"
  using assms
proof (induction "unat (sdt_entries m rsdt) - k" arbitrary: k)
  case 0
  have "\<not> word_of_nat k < sdt_entries m rsdt"
    using 0 unat64_less [of "sdt_entries m rsdt"]
    by (simp add: word_less_nat_alt unat_of_nat_small)
  with 0 show ?case by (simp add: find_sdt.simps sdt_table_def)
next
  case (Suc d)
  then have k: "k < unat (sdt_entries m rsdt)" by simp
  then have lt: "word_of_nat k < sdt_entries m rsdt"
    using unat64_less [of "sdt_entries m rsdt"]
    by (simp add: word_less_nat_alt unat_of_nat_small)
  have dr: "drop k (sdt_table m rsdt)
      = sdt_table_entry m rsdt (word_of_nat k) # drop (Suc k) (sdt_table m rsdt)"
    using Cons_nth_drop_Suc [of k "sdt_table m rsdt"] k by (simp add: sdt_table_def)
  have "find_sdt m rsdt signature (sdt_entries m rsdt) (word_of_nat (Suc k))
      = (case first_index (has_signature m signature) (drop (Suc k) (sdt_table m rsdt)) of
           None \<Rightarrow> 0 | Some i \<Rightarrow> sdt_table m rsdt ! (Suc k + i))"
    using Suc.hyps(1) [of "Suc k"] Suc.hyps(2) k by simp
  then show ?case
    using lt nth_sdt_table [OF k]
    by (simp add: find_sdt.simps [of m rsdt signature _ "word_of_nat k"] dr strncmp_signature
        Let_def add.commute split: option.splits)
qed

section \<open>The signature checks\<close>

text \<open>The signature checks of acpi.c compare all the bytes of a signature that has no zero
  byte: \<^verbatim>\<open>is_rsdp_sig_correct\<close> eight at the RSDP, \<^verbatim>\<open>is_rsdt_sig_correct\<close> four at the RSDT the RSDP
  points to.\<close>

lemma signatures_checked:
  assumes "\<And>i. i < 8 \<Longrightarrow> m (rsdp_sig + word_of_nat i) \<noteq> 0"
    and "\<And>i. i < 4 \<Longrightarrow> m (rsdt_sig + word_of_nat i) \<noteq> 0"
  shows "(is_rsdp_sig_correct m rsdp rsdp_sig \<longleftrightarrow> bytes_at m rsdp 8 = bytes_at m rsdp_sig 8)
    \<and> (is_rsdt_sig_correct m rsdp rsdt_sig
       \<longleftrightarrow> bytes_at m (ucast (rsdt_addr (rsdp_at m rsdp))) 4 = bytes_at m rsdt_sig 4)"
proof -
  have all: "agree m a b n \<longleftrightarrow> bytes_at m a n = bytes_at m b n"
    if "\<And>i. i < n \<Longrightarrow> m (b + word_of_nat i) \<noteq> 0" for a b n
  proof
    assume ag: "agree m a b n"
    have same: "m (a + word_of_nat i) = m (b + word_of_nat i)" if "i < n" for i
      using that
    proof (induction i rule: less_induct)
      case (less i)
      then have "\<forall>j < i. m (a + word_of_nat j) \<noteq> 0"
        using \<open>\<And>i. i < n \<Longrightarrow> m (b + word_of_nat i) \<noteq> 0\<close> by simp
      then show ?case using ag less.prems unfolding agree_iff by blast
    qed
    then show "bytes_at m a n = bytes_at m b n" by (simp add: bytes_at_def)
  next
    assume eq: "bytes_at m a n = bytes_at m b n"
    have "m (a + word_of_nat i) = m (b + word_of_nat i)" if "i < n" for i
      using arg_cong [OF eq, of "\<lambda>xs. xs ! i"] that by simp
    then show "agree m a b n" by (simp add: agree_iff)
  qed
  show ?thesis
    using all [OF assms(1)] all [OF assms(2)]
    by (simp add: is_rsdp_sig_correct_def is_rsdt_sig_correct_def strncmp_agree Let_def)
qed

lemma signatures_checked_differ:
  "\<not> is_rsdp_sig_correct ((\<lambda>_. 1)(0x20 := 2)) 0x20 0x40"
proof -
  have "bytes_at ((\<lambda>_. 1)(0x20 := 2)) 0x20 8 \<noteq> bytes_at ((\<lambda>_. 1)(0x20 := 2)) 0x40 8" by code_simp
  moreover have "((\<lambda>_. 1)(0x20 := 2)) x \<noteq> (0 :: u8)" for x :: ptr by simp
  ultimately show ?thesis
    using signatures_checked [of "(\<lambda>_. 1)(0x20 := 2)" "0x40" "0x40" "0x20"] by blast
qed

section \<open>Properties\<close>

text \<open>C29. \<^verbatim>\<open>get_acpi_std_header\<close> (acpi.c) returns the first table of the RSDT whose four bytes of
  signature are the ones asked for, and \<^verbatim>\<open>NULL\<close> if no table has them.\<close>

theorem get_acpi_std_header_first:
  "let rsdt = ucast (rsdt_addr (rsdp_at m rsdp)); table = sdt_table m rsdt
   in get_acpi_std_header m rsdp signature
      = (case first_index (has_signature m signature) table of None \<Rightarrow> 0 | Some i \<Rightarrow> table ! i)"
  using find_sdt_first [of 0 m "ucast (rsdt_addr (rsdp_at m rsdp))" signature]
  by (simp add: get_acpi_std_header_def Let_def split: option.splits)

end
