(* ===== verification/Hpet.thy ===== *)
theory Hpet
  imports Acpi Machine Bitfields
begin

text \<open>
  The event timer, \<^verbatim>\<open>src/src/acpi/hpet/hpet.c\<close>, \<^verbatim>\<open>hpet.h\<close>, \<^verbatim>\<open>timer.c\<close> and \<^verbatim>\<open>timer.h\<close>. \<open>desc\<close> is the
  pointer to the HPET's description table that the source keeps in its variable
  \<^verbatim>\<open>hpet_desc\<close> (and in \<^verbatim>\<open>kernel.hpet_desc\<close>), \<open>m\<close> the memory the table is in, \<open>d\<close> the state of the
  device behind the bus.
\<close>

unbundle bit_operations_syntax

section \<open>Registers\<close>

abbreviation HPET_CAP_REG :: u64 where "HPET_CAP_REG \<equiv> 0"
abbreviation HPET_CONFIG_REG :: u64 where "HPET_CONFIG_REG \<equiv> 0x10"
abbreviation HPET_COUNTER_REG :: u64 where "HPET_COUNTER_REG \<equiv> 0xf0"

record HPET_CapReg =
  rev_id :: u8
  num_tim_cap :: "5 word"
  count_size_cap :: "1 word"
  cap_reserved1 :: "1 word"
  leg_route_cap :: "1 word"
  vendor_id :: u16
  counter_clk_period :: u32

record HPET_ConfigReg =
  enable_cnf :: "1 word"
  leg_rt_cnf :: "1 word"
  config_reserved1 :: "62 word"

definition read_HPET_CapReg :: "u64 \<Rightarrow> HPET_CapReg" where
  "read_HPET_CapReg w = \<lparr>rev_id = field_at 0 w, num_tim_cap = field_at 8 w,
     count_size_cap = field_at 13 w, cap_reserved1 = field_at 14 w, leg_route_cap = field_at 15 w,
     vendor_id = field_at 16 w, counter_clk_period = field_at 32 w\<rparr>"

definition read_HPET_ConfigReg :: "u64 \<Rightarrow> HPET_ConfigReg" where
  "read_HPET_ConfigReg w =
     \<lparr>enable_cnf = field_at 0 w, leg_rt_cnf = field_at 1 w, config_reserved1 = field_at 2 w\<rparr>"

definition lay_HPET_ConfigReg :: "HPET_ConfigReg \<Rightarrow> u64" where
  "lay_HPET_ConfigReg c =
     at_field 0 (enable_cnf c) OR at_field 1 (leg_rt_cnf c) OR at_field 2 (config_reserved1 c)"

text \<open>The description table: a header of 36 bytes, a block id of four, an address structure of twelve.\<close>

record HPET_DescTable =
  hpet_header :: ACPI_SDT_Header
  event_timer_block_id :: u32
  hpet_base_address :: ACPI_GAS
  hpet_number :: u8
  min_clock_tick_periodic_mode :: u16
  page_protection :: u8

definition hpet_desc_at :: "mem \<Rightarrow> ptr \<Rightarrow> HPET_DescTable" where
  "hpet_desc_at m desc = \<lparr>hpet_header = sdt_header_at m desc,
     event_timer_block_id = load32 m (desc + 36), hpet_base_address = gas_at m (desc + 40),
     hpet_number = load8 m (desc + 52), min_clock_tick_periodic_mode = load16 m (desc + 53),
     page_protection = load8 m (desc + 55)\<rparr>"

text \<open>The address of the timer's registers, \<^verbatim>\<open>hpet_desc->base_address.address\<close>.\<close>

abbreviation hpet_address :: "mem \<Rightarrow> ptr \<Rightarrow> ptr" where
  "hpet_address m desc \<equiv> gas_address (hpet_base_address (hpet_desc_at m desc))"

lemma hpet_address_load: "hpet_address m desc = load64 m (desc + 44)"
  by (simp add: hpet_desc_at_def gas_at_def add.commute)

section \<open>Operations\<close>

definition HPET_get_reg_ptr :: "mem \<Rightarrow> ptr \<Rightarrow> u64 \<Rightarrow> ptr" where
  "HPET_get_reg_ptr m desc reg = hpet_address m desc + reg"

definition HPET_write_reg :: "'d bus \<Rightarrow> mem \<Rightarrow> ptr \<Rightarrow> u64 \<Rightarrow> u64 \<Rightarrow> 'd \<Rightarrow> 'd" where
  "HPET_write_reg bus m desc reg val d = mmio_write64 bus (HPET_get_reg_ptr m desc reg) val d"

definition HPET_read_reg :: "'d bus \<Rightarrow> mem \<Rightarrow> ptr \<Rightarrow> u64 \<Rightarrow> 'd \<Rightarrow> u64 \<times> 'd" where
  "HPET_read_reg bus m desc reg d = mmio_read64 bus (HPET_get_reg_ptr m desc reg) d"

definition HPET_get_desc_table :: "mem \<Rightarrow> ptr \<Rightarrow> ptr \<Rightarrow> ptr" where
  "HPET_get_desc_table m rsdp hpet_sig = get_acpi_std_header m rsdp hpet_sig"

definition HPET_is_counter_enabled :: "'d bus \<Rightarrow> mem \<Rightarrow> ptr \<Rightarrow> 'd \<Rightarrow> u8 \<times> 'd" where
  "HPET_is_counter_enabled bus m desc d =
     (let (reg, d') = HPET_read_reg bus m desc HPET_CONFIG_REG d
      in (ucast (enable_cnf (read_HPET_ConfigReg reg)), d'))"

definition HPET_enable_counter :: "'d bus \<Rightarrow> mem \<Rightarrow> ptr \<Rightarrow> 'd \<Rightarrow> 'd" where
  "HPET_enable_counter bus m desc d =
     (let (reg, d') = HPET_read_reg bus m desc HPET_CONFIG_REG d;
          reg' = lay_HPET_ConfigReg ((read_HPET_ConfigReg reg)\<lparr>enable_cnf := 1\<rparr>)
      in HPET_write_reg bus m desc HPET_CONFIG_REG reg' d')"

definition HPET_disable_counter :: "'d bus \<Rightarrow> mem \<Rightarrow> ptr \<Rightarrow> 'd \<Rightarrow> 'd" where
  "HPET_disable_counter bus m desc d =
     (let (reg, d') = HPET_read_reg bus m desc HPET_CONFIG_REG d;
          reg' = lay_HPET_ConfigReg ((read_HPET_ConfigReg reg)\<lparr>enable_cnf := 0\<rparr>)
      in HPET_write_reg bus m desc HPET_CONFIG_REG reg' d')"

definition HPET_init :: "'d bus \<Rightarrow> mem \<Rightarrow> ptr \<Rightarrow> ptr \<Rightarrow> 'd \<Rightarrow> ptr \<times> 'd" where
  "HPET_init bus m rsdp hpet_sig d =
     (let hpet_desc = HPET_get_desc_table m rsdp hpet_sig
      in (hpet_desc, HPET_enable_counter bus m hpet_desc d))"

definition HPET_get_main_counter :: "'d bus \<Rightarrow> mem \<Rightarrow> ptr \<Rightarrow> 'd \<Rightarrow> u64 \<times> 'd" where
  "HPET_get_main_counter bus m desc d = HPET_read_reg bus m desc HPET_COUNTER_REG d"

definition HPET_get_no_timers :: "'d bus \<Rightarrow> mem \<Rightarrow> ptr \<Rightarrow> 'd \<Rightarrow> u8 \<times> 'd" where
  "HPET_get_no_timers bus m desc d =
     (let (reg, d') = HPET_read_reg bus m desc HPET_CAP_REG d
      in (ucast (num_tim_cap (read_HPET_CapReg reg)) + 1, d'))"

definition HPET_get_mmio_sz :: "'d bus \<Rightarrow> mem \<Rightarrow> ptr \<Rightarrow> 'd \<Rightarrow> u64 \<times> 'd" where
  "HPET_get_mmio_sz bus m desc d =
     (let result = 8 * 8 :: u32; (no_timers, d') = HPET_get_no_timers bus m desc d
      in (ucast (result + ucast no_timers * (4 * 8)), d'))"

section \<open>Timers\<close>

abbreviation TIMER_FIRST_OFF :: u64 where "TIMER_FIRST_OFF \<equiv> 0x100"
abbreviation TIMER_CONFIG_REG :: u64 where "TIMER_CONFIG_REG \<equiv> 0"
abbreviation TIMER_COMPAR_REG :: u64 where "TIMER_COMPAR_REG \<equiv> 8"
abbreviation TIMER_ONE_SHOT_TYPE :: "1 word" where "TIMER_ONE_SHOT_TYPE \<equiv> 1"
abbreviation NANOSECONDS_PER_TICK :: u64 where "NANOSECONDS_PER_TICK \<equiv> 100"

record HTimerConfigReg =
  tn_reserved1 :: "1 word"
  tn_int_type_cnf :: "1 word"
  tn_int_enb_cnf :: "1 word"
  tn_type_cnf :: "1 word"
  tn_per_int_cap :: "1 word"
  tn_size_cap :: "1 word"
  tn_val_set_cnf :: "1 word"
  tn_reserved2 :: "1 word"
  tn_32mode_cnf :: "1 word"
  tn_int_route_cnf :: "5 word"
  tn_fsb_en_cnf :: "1 word"
  tn_fsb_int_del_cap :: "1 word"
  tn_reserved3 :: u16
  tn_int_route_cap :: u32

definition lay_HTimerConfigReg :: "HTimerConfigReg \<Rightarrow> u64" where
  "lay_HTimerConfigReg c = at_field 0 (tn_reserved1 c) OR at_field 1 (tn_int_type_cnf c)
     OR at_field 2 (tn_int_enb_cnf c) OR at_field 3 (tn_type_cnf c) OR at_field 4 (tn_per_int_cap c)
     OR at_field 5 (tn_size_cap c) OR at_field 6 (tn_val_set_cnf c) OR at_field 7 (tn_reserved2 c)
     OR at_field 8 (tn_32mode_cnf c) OR at_field 9 (tn_int_route_cnf c)
     OR at_field 14 (tn_fsb_en_cnf c) OR at_field 15 (tn_fsb_int_del_cap c)
     OR at_field 16 (tn_reserved3 c) OR at_field 32 (tn_int_route_cap c)"

definition read_HTimerConfigReg :: "u64 \<Rightarrow> HTimerConfigReg" where
  "read_HTimerConfigReg w = \<lparr>tn_reserved1 = field_at 0 w, tn_int_type_cnf = field_at 1 w,
     tn_int_enb_cnf = field_at 2 w, tn_type_cnf = field_at 3 w, tn_per_int_cap = field_at 4 w,
     tn_size_cap = field_at 5 w, tn_val_set_cnf = field_at 6 w, tn_reserved2 = field_at 7 w,
     tn_32mode_cnf = field_at 8 w, tn_int_route_cnf = field_at 9 w, tn_fsb_en_cnf = field_at 14 w,
     tn_fsb_int_del_cap = field_at 15 w, tn_reserved3 = field_at 16 w, tn_int_route_cap = field_at 32 w\<rparr>"

lemma read_lay_HTimerConfigReg: "read_HTimerConfigReg (lay_HTimerConfigReg c) = c"
  by (simp add: read_HTimerConfigReg_def lay_HTimerConfigReg_def field_simps_bits)

lemma lay_read_HTimerConfigReg: "lay_HTimerConfigReg (read_HTimerConfigReg w) = w"
  by (simp add: read_HTimerConfigReg_def lay_HTimerConfigReg_def relay_simps)

text \<open>The block of a timer: a configuration, a comparator, an FSB route and a reserved word.\<close>

record HTimerFsbReg =
  tn_fsb_int_val :: u32
  tn_fsb_int_addr :: u32

record HTimer =
  timer_config_reg :: HTimerConfigReg
  timer_reg :: u64
  timer_fsb_reg :: HTimerFsbReg
  timer_reserved :: u64

definition htimer_at :: "mem \<Rightarrow> ptr \<Rightarrow> HTimer" where
  "htimer_at m p = \<lparr>timer_config_reg = read_HTimerConfigReg (load64 m p), timer_reg = load64 m (p + 8),
     timer_fsb_reg = \<lparr>tn_fsb_int_val = load32 m (p + 16), tn_fsb_int_addr = load32 m (p + 20)\<rparr>,
     timer_reserved = load64 m (p + 24)\<rparr>"

text \<open>\<^verbatim>\<open>sizeof(HTimer)\<close> is the size \<^verbatim>\<open>TIMER_BLOCK_SZ\<close> of the block.\<close>

abbreviation TIMER_BLOCK_SZ :: u64 where "TIMER_BLOCK_SZ \<equiv> 4 * 8"
abbreviation TIMER_FSB_REG :: u64 where "TIMER_FSB_REG \<equiv> 0xf"

definition HTimer_get_timer_reg_ptr :: "mem \<Rightarrow> ptr \<Rightarrow> u8 \<Rightarrow> u64 \<Rightarrow> ptr" where
  "HTimer_get_timer_reg_ptr m desc timer_n reg =
     (let timers = hpet_address m desc + TIMER_FIRST_OFF;
          base_addr = timers + ucast timer_n * TIMER_BLOCK_SZ
      in base_addr + reg)"

definition HTimer_write_reg :: "'d bus \<Rightarrow> mem \<Rightarrow> ptr \<Rightarrow> u8 \<Rightarrow> u64 \<Rightarrow> u64 \<Rightarrow> 'd \<Rightarrow> 'd" where
  "HTimer_write_reg bus m desc timer_n reg val d =
     mmio_write64 bus (HTimer_get_timer_reg_ptr m desc timer_n reg) val d"

definition HTimer_read_reg :: "'d bus \<Rightarrow> mem \<Rightarrow> ptr \<Rightarrow> u8 \<Rightarrow> u64 \<Rightarrow> 'd \<Rightarrow> u64 \<times> 'd" where
  "HTimer_read_reg bus m desc timer_n reg d =
     mmio_read64 bus (HTimer_get_timer_reg_ptr m desc timer_n reg) d"

definition HTimer_set_config :: "'d bus \<Rightarrow> mem \<Rightarrow> ptr \<Rightarrow> u8 \<Rightarrow> HTimerConfigReg \<Rightarrow> 'd \<Rightarrow> 'd" where
  "HTimer_set_config bus m desc timer_n reg d =
     HTimer_write_reg bus m desc timer_n TIMER_CONFIG_REG (lay_HTimerConfigReg reg) d"

definition HTimer_set_compar :: "'d bus \<Rightarrow> mem \<Rightarrow> ptr \<Rightarrow> u8 \<Rightarrow> u64 \<Rightarrow> 'd \<Rightarrow> 'd" where
  "HTimer_set_compar bus m desc timer_n val d =
     HTimer_write_reg bus m desc timer_n TIMER_COMPAR_REG val d"

definition HTimer_get_compar :: "'d bus \<Rightarrow> mem \<Rightarrow> ptr \<Rightarrow> u8 \<Rightarrow> 'd \<Rightarrow> u64 \<times> 'd" where
  "HTimer_get_compar bus m desc timer_n d = HTimer_read_reg bus m desc timer_n TIMER_COMPAR_REG d"

definition HTimer_set_one_shot :: "'d bus \<Rightarrow> mem \<Rightarrow> ptr \<Rightarrow> u8 \<Rightarrow> u64 \<Rightarrow> 'd \<Rightarrow> 'd" where
  "HTimer_set_one_shot bus m desc timer_n ms_time d =
     (let config_reg = \<lparr>tn_reserved1 = 0, tn_int_type_cnf = 0, tn_int_enb_cnf = 1,
            tn_type_cnf = TIMER_ONE_SHOT_TYPE, tn_per_int_cap = 0, tn_size_cap = 0,
            tn_val_set_cnf = 0, tn_reserved2 = 0, tn_32mode_cnf = 0, tn_int_route_cnf = 0,
            tn_fsb_en_cnf = 0, tn_fsb_int_del_cap = 0, tn_reserved3 = 0, tn_int_route_cap = 0\<rparr>;
          d1 = HTimer_set_config bus m desc timer_n config_reg d;
          ticks = ms_time * 1000000 div NANOSECONDS_PER_TICK;
          (counter, d2) = HPET_get_main_counter bus m desc d1
      in HTimer_set_compar bus m desc timer_n (counter + ticks) d2)"

section \<open>Registers behind the bus\<close>

lemma read_lay_HPET_ConfigReg: "read_HPET_ConfigReg (lay_HPET_ConfigReg c) = c"
  by (simp add: read_HPET_ConfigReg_def lay_HPET_ConfigReg_def field_simps_bits)

lemma lay_read_HPET_ConfigReg: "lay_HPET_ConfigReg (read_HPET_ConfigReg w) = w"
  by (simp add: read_HPET_ConfigReg_def lay_HPET_ConfigReg_def relay_simps)

lemma enable_bits:
  "lay_HPET_ConfigReg ((read_HPET_ConfigReg w)\<lparr>enable_cnf := 1\<rparr>) = w OR 1"
  "lay_HPET_ConfigReg ((read_HPET_ConfigReg w)\<lparr>enable_cnf := 0\<rparr>) = w AND NOT 1"
proof -
  have rest: "at_field 1 (field_at 1 w :: 1 word) OR at_field 2 (field_at 2 w :: 62 word)
      = bit_range 1 64 w"
    by (simp add: relay_simps)
  have r: "bit_range 1 64 w = w AND NOT 1"
    by (rule bit_word_eqI) (auto simp: bit_bit_range bit_simps)
  have "at_field 0 (1 :: 1 word) = (1 :: u64)"
    by (rule bit_word_eqI) (auto simp: bits_simps bit_1_iff)
  moreover have "1 OR (w AND NOT 1) = w OR 1"
    by (rule bit_word_eqI) (auto simp: bit_simps)
  ultimately show "lay_HPET_ConfigReg ((read_HPET_ConfigReg w)\<lparr>enable_cnf := 1\<rparr>) = w OR 1"
    "lay_HPET_ConfigReg ((read_HPET_ConfigReg w)\<lparr>enable_cnf := 0\<rparr>) = w AND NOT 1"
    using rest r by (simp_all add: lay_HPET_ConfigReg_def read_HPET_ConfigReg_def)
qed

lemma enable_counter_modify:
  "HPET_enable_counter bus m desc d = (let p = HPET_get_reg_ptr m desc HPET_CONFIG_REG
     in wr64 bus p (fst (rd64 bus d p) OR 1) (snd (rd64 bus d p)))"
  "HPET_disable_counter bus m desc d = (let p = HPET_get_reg_ptr m desc HPET_CONFIG_REG
     in wr64 bus p (fst (rd64 bus d p) AND NOT 1) (snd (rd64 bus d p)))"
  by (simp_all add: HPET_enable_counter_def HPET_disable_counter_def HPET_read_reg_def
      HPET_write_reg_def mmio_read64_def mmio_write64_def enable_bits Let_def split: prod.splits)

lemma counter_enabled_bit:
  assumes "fst (rd64 bus d (HPET_get_reg_ptr m desc HPET_CONFIG_REG)) = w OR 1"
  shows "fst (HPET_is_counter_enabled bus m desc d) = 1"
proof -
  have "(field_at 0 (w OR 1) :: 1 word) = 1" by (rule bit_word_eqI) (auto simp: bits_simps bit_simps bit_1_iff)
  with assms show ?thesis
    by (simp add: HPET_is_counter_enabled_def HPET_read_reg_def mmio_read64_def read_HPET_ConfigReg_def case_prod_beta)
qed

context mmio_registers
begin

lemma counter_register:
  assumes "HPET_get_reg_ptr m desc HPET_CONFIG_REG \<in> A" "b \<in> A"
  shows "fst (rd64 bus (HPET_enable_counter bus m desc d) b)
      = (if b = HPET_get_reg_ptr m desc HPET_CONFIG_REG then fst (rd64 bus d b) OR 1
         else fst (rd64 bus d b))"
    and "fst (rd64 bus (HPET_disable_counter bus m desc d) b)
      = (if b = HPET_get_reg_ptr m desc HPET_CONFIG_REG then fst (rd64 bus d b) AND NOT 1
         else fst (rd64 bus d b))"
  using modify_register [OF assms, of "\<lambda>w. w OR 1" d]
    modify_register [OF assms, of "\<lambda>w. w AND NOT 1" d]
  by (simp_all add: enable_counter_modify Let_def)

lemma one_shot_registers:
  assumes "c \<in> A" "t \<in> A" "p \<in> A" "c \<noteq> t" "c \<noteq> p" "p \<noteq> t" "b \<in> A"
  shows "fst (rd64 bus (wr64 bus p (fst (rd64 bus (wr64 bus t v d) c) + k)
      (snd (rd64 bus (wr64 bus t v d) c))) b)
    = (if b = p then fst (rd64 bus d c) + k else if b = t then v else fst (rd64 bus d b))"
  using assms by (simp add: wr_rd wr_other rd_keeps)

end

lemma one_shot_writes:
  "HTimer_set_one_shot bus m desc n ms d =
     (let c = HPET_get_reg_ptr m desc HPET_COUNTER_REG;
          t = HTimer_get_timer_reg_ptr m desc n TIMER_CONFIG_REG;
          p = HTimer_get_timer_reg_ptr m desc n TIMER_COMPAR_REG;
          d1 = wr64 bus t 0xc d
      in wr64 bus p (fst (rd64 bus d1 c) + ms * 1000000 div 100) (snd (rd64 bus d1 c)))"
proof -
  have "lay_HTimerConfigReg \<lparr>tn_reserved1 = 0, tn_int_type_cnf = 0, tn_int_enb_cnf = 1,
      tn_type_cnf = TIMER_ONE_SHOT_TYPE, tn_per_int_cap = 0, tn_size_cap = 0,
      tn_val_set_cnf = 0, tn_reserved2 = 0, tn_32mode_cnf = 0, tn_int_route_cnf = 0,
      tn_fsb_en_cnf = 0, tn_fsb_int_del_cap = 0, tn_reserved3 = 0, tn_int_route_cap = 0\<rparr> = 0xc"
    by code_simp
  then show ?thesis
    by (simp add: HTimer_set_one_shot_def HTimer_set_config_def HTimer_set_compar_def
        HTimer_write_reg_def HPET_get_main_counter_def HPET_read_reg_def mmio_read64_def
        mmio_write64_def Let_def split: prod.splits)
qed

text \<open>Over plain memory the functions of \<^verbatim>\<open>timer.c\<close> read the fields of the block they mean to; the first
  field of the FSB route is one byte past the offset that \<^verbatim>\<open>timer.h\<close> defines for it.\<close>

lemma timer_block_registers:
  defines "block \<equiv> \<lambda>desc n m. HTimer_get_timer_reg_ptr m desc n 0"
  shows "HTimer_get_compar ram_bus m desc n d = (timer_reg (htimer_at d (block desc n m)), d)"
    and "HTimer_read_reg ram_bus m desc n TIMER_CONFIG_REG d
      = (lay_HTimerConfigReg (timer_config_reg (htimer_at d (block desc n m))), d)"
    and "tn_fsb_int_val (timer_fsb_reg (htimer_at d (block desc n m)))
      = load32 d (HTimer_get_timer_reg_ptr m desc n (TIMER_FSB_REG + 1))"
  by (simp_all add: block_def HTimer_get_compar_def HTimer_read_reg_def HTimer_get_timer_reg_ptr_def mmio_read64_def
      ram_bus_def htimer_at_def lay_read_HTimerConfigReg Let_def add.assoc)

text \<open>The registers of a timer are apart from each other and from the general ones.\<close>

lemma timer_block_apart:
  assumes "unat r < 256" "unat k < 256"
  shows "HPET_get_reg_ptr m desc r \<noteq> HTimer_get_timer_reg_ptr m desc n k"
proof -
  have n: "unat (ucast n :: u64) < 256"
    using unat_less_exp [of n] by (simp add: unat_ucast_up)
  have "r \<noteq> 0x100 + ucast n * 32 + k"
  proof
    assume e: "r = 0x100 + ucast n * 32 + k"
    have "unat r = 256 + unat (ucast n :: u64) * 32 + unat k"
      unfolding e using n assms(2) by (simp add: unat_word_ariths)
    then show False using assms(1) by simp
  qed
  then show ?thesis by (simp add: HPET_get_reg_ptr_def HTimer_get_timer_reg_ptr_def Let_def add.assoc)
qed

lemma config_apart:
  "HPET_get_reg_ptr m desc HPET_CONFIG_REG \<noteq> HTimer_get_timer_reg_ptr m desc n TIMER_CONFIG_REG"
  "HPET_get_reg_ptr m desc HPET_CONFIG_REG \<noteq> HTimer_get_timer_reg_ptr m desc n TIMER_COMPAR_REG"
  by (rule timer_block_apart; simp)+

lemma timer_registers_apart:
  "HPET_get_reg_ptr m desc HPET_COUNTER_REG \<noteq> HTimer_get_timer_reg_ptr m desc n TIMER_CONFIG_REG"
  "HPET_get_reg_ptr m desc HPET_COUNTER_REG \<noteq> HTimer_get_timer_reg_ptr m desc n TIMER_COMPAR_REG"
  "HTimer_get_timer_reg_ptr m desc n TIMER_COMPAR_REG
     \<noteq> HTimer_get_timer_reg_ptr m desc n TIMER_CONFIG_REG"
  by (rule timer_block_apart; simp)+ (simp add: HTimer_get_timer_reg_ptr_def Let_def)

text \<open>The addresses of the registers follow from that of the timer.\<close>

lemma hpet_address_registers:
  assumes "hpet_address m' desc = hpet_address m desc"
  shows "HPET_get_reg_ptr m' desc r = HPET_get_reg_ptr m desc r"
    and "HTimer_get_timer_reg_ptr m' desc n r = HTimer_get_timer_reg_ptr m desc n r"
  by (simp_all add: HPET_get_reg_ptr_def HTimer_get_timer_reg_ptr_def assms)

lemma hpet_address_same:
  assumes "\<And>x. x \<in> region desc 56 \<Longrightarrow> m' x = m x"
  shows "hpet_address m' desc = hpet_address m desc"
proof -
  have "region (desc + 44) 8 \<subseteq> region desc 56" by (rule region_sub) simp_all
  then show ?thesis unfolding hpet_address_load by (intro load64_cong assms) blast
qed

context mmio_devices
begin

text \<open>Arming the timer takes the time from wherever the main counter stands.\<close>

lemma one_shot_arms:
  assumes "HTimer_get_timer_reg_ptr m desc n TIMER_CONFIG_REG \<in> A" "HTimer_get_timer_reg_ptr m desc n TIMER_COMPAR_REG \<in> A"
    and "b \<in> A"
  shows "fst (rd64 bus (HTimer_set_one_shot bus m desc n ms d) b)
    = (if b = HTimer_get_timer_reg_ptr m desc n TIMER_COMPAR_REG
       then fst (HPET_get_main_counter bus m desc (wr64 bus (HTimer_get_timer_reg_ptr m desc n TIMER_CONFIG_REG) 0xc d))
         + ms * 1000000 div 100
       else if b = HTimer_get_timer_reg_ptr m desc n TIMER_CONFIG_REG then 0xc else fst (rd64 bus d b))"
  using assms timer_registers_apart(3) [of m desc n]
  by (simp add: one_shot_writes Let_def wr_rd wr_other rd64_keeps HPET_get_main_counter_def HPET_read_reg_def mmio_read64_def)

end

section \<open>Properties\<close>

text \<open>Enabling and disabling the main counter (hpet.c): on a device whose registers at \<open>A\<close> hold
  what is written to them, \<^verbatim>\<open>HPET_is_counter_enabled\<close> reports what \<^verbatim>\<open>HPET_enable_counter\<close> or
  \<^verbatim>\<open>HPET_disable_counter\<close> did last, the other bits of the configuration register stay, and so
  does every other register.\<close>

lemma HPET_counter_switch:
  assumes "mmio_registers bus A" "HPET_get_reg_ptr m desc HPET_CONFIG_REG \<in> A" "b \<in> A"
  shows "fst (HPET_is_counter_enabled bus m desc (HPET_enable_counter bus m desc d)) = 1
    \<and> fst (HPET_is_counter_enabled bus m desc (HPET_disable_counter bus m desc d)) = 0
    \<and> fst (rd64 bus (HPET_enable_counter bus m desc d) b)
      = (if b = HPET_get_reg_ptr m desc HPET_CONFIG_REG then fst (rd64 bus d b) OR 1
         else fst (rd64 bus d b))
    \<and> fst (rd64 bus (HPET_disable_counter bus m desc d) b)
      = (if b = HPET_get_reg_ptr m desc HPET_CONFIG_REG then fst (rd64 bus d b) AND NOT 1
         else fst (rd64 bus d b))"
proof -
  let ?p = "HPET_get_reg_ptr m desc HPET_CONFIG_REG"
  note cr = mmio_registers.counter_register [OF assms(1,2)]
  have en: "fst (HPET_is_counter_enabled bus m desc d')
      = ucast (field_at 0 (fst (rd64 bus d' ?p)) :: 1 word)" for d'
    by (simp add: HPET_is_counter_enabled_def HPET_read_reg_def mmio_read64_def
        read_HPET_ConfigReg_def split: prod.splits)
  have "(field_at 0 (w OR 1 :: u64) :: 1 word) = 1" "(field_at 0 (w AND NOT 1 :: u64) :: 1 word) = 0"
    for w
    by (rule bit_word_eqI; auto simp: bits_simps bit_simps bit_1_iff)+
  then show ?thesis using cr [OF assms(2)] cr [OF assms(3)] by (simp add: en)
qed

lemma HPET_counter_switch_witness:
  "fst (HPET_is_counter_enabled ram_bus (\<lambda>_. 0) 0 (HPET_enable_counter ram_bus (\<lambda>_. 0) 0 (\<lambda>_. 0))) = 1"
proof -
  have "HPET_get_reg_ptr (\<lambda>_. 0) 0 HPET_CONFIG_REG = 0x10" by code_simp
  then have a: "HPET_get_reg_ptr (\<lambda>_. 0) 0 HPET_CONFIG_REG \<in> {a. take_bit 3 a = 0}" by simp
  from HPET_counter_switch [OF ram_registers.mmio_registers_axioms a a, of "\<lambda>_. 0"]
  show ?thesis by blast
qed



text \<open>\<^verbatim>\<open>HPET_get_mmio_sz\<close> (hpet.c) returns 64 bytes plus 32 per timer, for between 1 and 32
  timers. That does not reach the registers of the last timer, whose block starts at offset
  \<open>0x100\<close> plus 32 per earlier timer; all of them are within the one page that the size is rounded
  up to.\<close>

lemma HPET_get_mmio_sz_short:
  "let N = unat (fst (HPET_get_no_timers bus m desc d))
   in 1 \<le> N \<and> N \<le> 32
    \<and> unat (fst (HPET_get_mmio_sz bus m desc d)) = 64 + 32 * N
    \<and> (let off = HTimer_get_timer_reg_ptr m desc (word_of_nat (N - 1)) TIMER_CONFIG_REG
             - hpet_address m desc
       in unat (fst (HPET_get_mmio_sz bus m desc d)) < unat off + 32 \<and> unat off + 32 \<le> 4096)"
proof -
  define N where "N = unat (fst (HPET_get_no_timers bus m desc d))"
  define c where "c = num_tim_cap (read_HPET_CapReg (fst (HPET_read_reg bus m desc HPET_CAP_REG d)))"
  have c: "unat c < 32" using unat_less_exp [of c] by simp
  have no: "fst (HPET_get_no_timers bus m desc d) = ucast c + 1"
    by (simp add: HPET_get_no_timers_def c_def split: prod.splits)
  have N: "N = unat c + 1"
    using c by (simp add: N_def no unat_word_ariths unat_ucast_up)
  have uc: "unat (ucast (fst (HPET_get_no_timers bus m desc d)) :: u32) = N"
    by (simp add: N_def unat_ucast_up)
  have "fst (HPET_get_mmio_sz bus m desc d)
      = ucast (64 + ucast (fst (HPET_get_no_timers bus m desc d)) * 32 :: u32)"
    by (simp add: HPET_get_mmio_sz_def split: prod.splits)
  then have sz: "unat (fst (HPET_get_mmio_sz bus m desc d)) = 64 + 32 * N"
    using c N uc by (simp add: unat_ucast_up unat_word_ariths)
  have n1: "unat (word_of_nat (N - 1) :: u8) = N - 1"
    using c N by (intro unat_of_nat_small) simp
  have "HTimer_get_timer_reg_ptr m desc (word_of_nat (N - 1)) TIMER_CONFIG_REG
      - hpet_address m desc = 0x100 + ucast (word_of_nat (N - 1) :: u8) * 32"
    by (simp add: HTimer_get_timer_reg_ptr_def Let_def)
  then have off: "unat (HTimer_get_timer_reg_ptr m desc (word_of_nat (N - 1)) TIMER_CONFIG_REG
      - hpet_address m desc) = 256 + 32 * (N - 1)"
    using c N n1 by (simp add: unat_word_ariths unat_ucast_up)
  show ?thesis using c N sz off unfolding N_def [symmetric] by (simp add: Let_def N_def [symmetric])
qed

end
