(* ===== verification/Paging_Init.thy ===== *)
theory Paging_Init
  imports Kutils Boot_Memory Hpet
begin

text \<open>
  Turning paging on, \<^verbatim>\<open>_identity_paging_memory\<close> and \<^verbatim>\<open>init_paging\<close> of \<^verbatim>\<open>src/src/memory/paging.c\<close>: the
  mappings the kernel starts with, the registers, and the test the kernel makes of its own tables.
\<close>

unbundle bit_operations_syntax

section \<open>Operations\<close>

abbreviation IA32_EFER :: u32 where "IA32_EFER \<equiv> 0xC0000080"
abbreviation EFER_LME :: nat where "EFER_LME \<equiv> 8"

definition identity_paging_memory :: "layout \<Rightarrow> 'd bus \<Rightarrow> 'd kstate \<Rightarrow> 'd kstate" where
  "identity_paging_memory env bus st =
     (let pw = shift_width env; PML4 = at_PML4 env; k = ks_kernel st;
          s1 = identity_paging_frames pw PML4 (ks_mem st);
          f = framebuffer_at (ram s1) (k_framebuffer k);
          s2 = identity_paging pw PML4 (base_address f) (buffer_size f) s1;
          s3 = identity_paging pw PML4 APIC_BASE_ADDR 4096 s2;
          (n, d) = HPET_get_mmio_sz bus (ram s3) (k_hpet_desc k) (ks_dev st);
          s4 = identity_paging pw PML4 (hpet_address (ram s3) (k_hpet_desc k)) n s3
      in st\<lparr>ks_mem := s4, ks_dev := d\<rparr>)"

text \<open>
  A byte accessed at a virtual address goes through the tables that \<^verbatim>\<open>cr3\<close> points to; \<open>None\<close> is a
  page fault. The kernel's other accesses, to memory it has mapped one to one, are modelled as
  accesses to physical memory.
\<close>

definition translated_addr :: "'d kstate \<Rightarrow> ptr \<Rightarrow> ptr option" where
  "translated_addr st va = translate (ks_ram st) (hw_frame (cr3 (ks_regs st))) va"

definition virtual_store8 :: "ptr \<Rightarrow> u8 \<Rightarrow> 'd kstate \<Rightarrow> 'd kstate option" where
  "virtual_store8 va b st =
     map_option (\<lambda>pa. st\<lparr>ks_mem := (ks_mem st)\<lparr>ram := store8 pa b (ks_ram st)\<rparr>\<rparr>) (translated_addr st va)"

definition virtual_load8 :: "ptr \<Rightarrow> 'd kstate \<Rightarrow> u8 option" where
  "virtual_load8 va st = map_option (load8 (ks_ram st)) (translated_addr st va)"

abbreviation test_addr :: ptr where "test_addr \<equiv> 0x99999999999"

definition paging_registers :: "registers \<Rightarrow> registers" where
  "paging_registers r =
     (let r1 = enable_cpu_4_level_paging r; msr = read_msr IA32_EFER r1
      in write_msr IA32_EFER (set_bit_k msr EFER_LME) r1)"

text \<open>The result is \<open>None\<close> where the test runs into a page fault, whose handler does not return.\<close>

definition init_paging :: "layout \<Rightarrow> 'd bus \<Rightarrow> 'd kstate \<Rightarrow> ('d kstate \<times> ptr) option" where
  "init_paging env bus st =
     (let st1 = st\<lparr>ks_regs := paging_registers (ks_regs st)\<rparr>;
          st2 = identity_paging_memory env bus st1;
          st3 = st2\<lparr>ks_regs := set_cr3_register (at_PML4 env) False False (ks_regs st2)\<rparr>;
          st4 = st3\<lparr>ks_mem := map_vaddr_to_paddr (shift_width env) (at_PML4 env) test_addr 0 (ks_mem st3)\<rparr>
      in do {
        st5 \<leftarrow> virtual_store8 test_addr 123 st4;
        b \<leftarrow> virtual_load8 test_addr st5;
        st6 \<leftarrow> (if b \<noteq> 123 then kpanic env (literal env ''Paging test failed!'') st5 else Some st5);
        Some (st6, at_PML4 env)
      })"

section \<open>The pages that are mapped\<close>

text \<open>The page frames, the framebuffer, the local APIC and the event timer.\<close>

definition boot_pages :: "'d bus \<Rightarrow> 'd kstate \<Rightarrow> ptr list" where
  "boot_pages bus st =
     (let m = ks_ram st; k = ks_kernel st; f = framebuffer_at m (k_framebuffer k);
          n = fst (HPET_get_mmio_sz bus m (k_hpet_desc k) (ks_dev st))
      in frame_list (ks_mem st) @ identity_pages (base_address f) (buffer_size f)
         @ identity_pages APIC_BASE_ADDR 4096
         @ identity_pages (hpet_address m (k_hpet_desc k)) n)"

text \<open>What the kernel reads while it builds the tables lies outside their memory.\<close>

lemma hpet_size_same:
  assumes "hpet_address m' desc = hpet_address m desc"
  shows "HPET_get_mmio_sz bus m' desc d = HPET_get_mmio_sz bus m desc d"
  by (simp add: HPET_get_mmio_sz_def HPET_get_no_timers_def HPET_read_reg_def HPET_get_reg_ptr_def assms)

lemma identity_memory_fold:
  assumes inv: "paging_inv K (at_PML4 env) (ks_mem st)" and K: "K \<le> shift_width env"
    and enough: "missing_tables (at_PML4 env) (boot_pages bus st) (ks_mem st) \<le> unat (free_frames (ks_pm st))"
    and fb: "region (k_framebuffer (ks_kernel st)) 24 \<inter> paging_space (at_PML4 env) (ks_mem st) = {}"
    and hpet: "region (k_hpet_desc (ks_kernel st)) 56 \<inter> paging_space (at_PML4 env) (ks_mem st) = {}"
  shows "ks_mem (identity_paging_memory env bus st)
    = fold (\<lambda>a. map_vaddr_to_paddr (shift_width env) (at_PML4 env) a a) (boot_pages bus st) (ks_mem st)"
proof -
  let ?pw = "shift_width env" and ?P = "at_PML4 env" and ?s = "ks_mem st" and ?k = "ks_kernel st"
  let ?map = "\<lambda>as s. fold (\<lambda>a. map_vaddr_to_paddr (shift_width env) (at_PML4 env) a a) as s"
  have sub: "missing_tables ?P as ?s \<le> unat (free_frames (pm ?s))" if "set as \<subseteq> set (boot_pages bus st)" for as
    using missing_tables_mono [OF that] enough by (rule order_trans)
  have ram: "ram (?map as ?s) x = ram ?s x"
    if "set as \<subseteq> set (boot_pages bus st)" "x \<notin> paging_space ?P ?s" for as x
    using identity_list(3) [OF inv sub [OF that(1)] K that(2)] .
  have f: "framebuffer_at (ram (?map as ?s)) (k_framebuffer ?k) = framebuffer_at (ram ?s) (k_framebuffer ?k)"
    if "set as \<subseteq> set (boot_pages bus st)" for as
    by (rule framebuffer_at_cong) (use that fb in \<open>auto intro!: ram\<close>)
  have h: "hpet_address (ram (?map as ?s)) (k_hpet_desc ?k)
      = hpet_address (ram ?s) (k_hpet_desc ?k)"
    if "set as \<subseteq> set (boot_pages bus st)" for as
  proof -
    have "region (k_hpet_desc ?k + 44) 8 \<subseteq> region (k_hpet_desc ?k) 56"
      by (rule region_sub) simp_all
    then have "load64 (ram (?map as ?s)) (k_hpet_desc ?k + 44) = load64 (ram ?s) (k_hpet_desc ?k + 44)"
      using hpet by (intro load64_cong ram [OF that]) blast
    then show ?thesis by (simp add: hpet_address_load)
  qed
  let ?f = "framebuffer_at (ram ?s) (k_framebuffer ?k)"
  let ?g = "hpet_address (ram ?s) (k_hpet_desc ?k)"
  let ?n = "fst (HPET_get_mmio_sz bus (ram ?s) (k_hpet_desc ?k) (ks_dev st))"
  let ?a = "frame_list ?s" and ?b = "identity_pages (base_address ?f) (buffer_size ?f)"
  let ?c = "identity_pages APIC_BASE_ADDR 4096" and ?d = "identity_pages ?g ?n"
  have pages: "boot_pages bus st = ?a @ ?b @ ?c @ ?d" by (simp add: boot_pages_def Let_def)
  have "identity_paging_frames ?pw ?P ?s = ?map ?a ?s"
    by (rule identity_frames [OF inv K sub]) (simp add: pages)
  moreover have "framebuffer_at (ram (?map ?a ?s)) (k_framebuffer ?k) = ?f"
    by (rule f) (simp add: pages)
  moreover have "hpet_address (ram (?map (?a @ ?b @ ?c) ?s)) (k_hpet_desc ?k) = ?g"
    by (rule h) (auto simp: pages)
  moreover from this have "HPET_get_mmio_sz bus (ram (?map (?a @ ?b @ ?c) ?s)) (k_hpet_desc ?k) (ks_dev st)
      = HPET_get_mmio_sz bus (ram ?s) (k_hpet_desc ?k) (ks_dev st)"
    by (rule hpet_size_same)
  ultimately show ?thesis
    unfolding pages by (simp add: identity_paging_memory_def Let_def identity_paging_fold case_prod_beta)
qed

lemma identity_memory_fields:
  "ks_regs (identity_paging_memory env bus st) = ks_regs st"
  "ks_cursor (identity_paging_memory env bus st) = ks_cursor st"
  "ks_console (identity_paging_memory env bus st) = ks_console st"
  "ks_kernel (identity_paging_memory env bus st) = ks_kernel st"
  "ks_idt (identity_paging_memory env bus st) = ks_idt st"
  by (simp_all add: identity_paging_memory_def Let_def case_prod_beta)

lemma paging_registers_fields:
  "gdtr (paging_registers r) = gdtr r" "idtr (paging_registers r) = idtr r"
  "code_segment (paging_registers r) = code_segment r" "data_segments (paging_registers r) = data_segments r"
  by (simp_all add: paging_registers_def Let_def write_msr_def enable_cpu_4_level_paging_def)

lemma paging_registers_lme: "bit (msrs (paging_registers r) IA32_EFER) EFER_LME"
  by (simp add: paging_registers_def Let_def write_msr_whole bits_simps)

section \<open>The machine of 64 frames\<close>

text \<open>A device whose registers read 0, and the kernel's state around \<open>boot64\<close>.\<close>

definition idle_bus :: "unit bus" where
  "idle_bus = \<lparr>rd8 = (\<lambda>_ _. (0, ())), rd16 = (\<lambda>_ _. (0, ())), rd32 = (\<lambda>_ _. (0, ())),
     rd64 = (\<lambda>_ _. (0, ())), wr8 = (\<lambda>_ _ _. ()), wr16 = (\<lambda>_ _ _. ()), wr32 = (\<lambda>_ _ _. ()),
     wr64 = (\<lambda>_ _ _. ())\<rparr>"

definition boot64_layout :: layout where
  "boot64_layout = \<lparr>at_console = 0, at_pmem = 0, at_gdt = 0, at_PML4 = 0x8000, at_idt = 0, at_cpu = 0,
     at_page_fault_handler = 0, at_divide_by_zero_handler = 0, printf_buf = 0x2000,
     printf_temp_buf = 0x4000, literal = (\<lambda>_. 0), shift_width = 64\<rparr>"

definition boot64_kernel :: "pstate \<Rightarrow> unit kstate" where
  "boot64_kernel s = \<lparr>ks_mem = s,
     ks_console = \<lparr>console_font = 0, console_framebuffer = 0x300, console_initialized = True\<rparr>,
     ks_cursor = initial_cursor, ks_idt = (\<lambda>_. read_IDT_entry 0),
     ks_regs = \<lparr>cr3 = 0, cr4 = 0, msrs = (\<lambda>_. 0), gdtr = (0, 0), idtr = (0, 0),
       code_segment = 0, data_segments = 0\<rparr>,
     ks_dev = (), ks_kernel = \<lparr>k_stack = 0x11f00, k_framebuffer = 0x300, k_memory = 0x100,
       k_acpi_rsdp = 0, k_console = 0, k_hpet_desc = 0x400, k_pmem = 0, k_gdt = 0, k_pml4 = 0x8000,
       k_idt = 0, k_cpu = 0\<rparr>\<rparr>"

text \<open>Pages of one region of 2 MiB need the same tables.\<close>

lemma table_paths_region:
  assumes "drop_bit 21 a = drop_bit 21 b"
  shows "table_paths a = table_paths b"
proof -
  have "drop_bit k a = drop_bit k b" if "21 \<le> k" for k
    using arg_cong [OF assms, of "drop_bit (k - 21)"] that by simp
  from this [of 30] this [of 39]
  have "drop_bit 30 a = drop_bit 30 b" "drop_bit 39 a = drop_bit 39 b" by simp_all
  then show ?thesis using assms by (simp add: table_paths_def vpath_def)
qed

lemma boot64_table_paths: "k < 64 \<Longrightarrow> table_paths (0x10000 + word_of_nat k * 0x1000) = table_paths 0x10000"
proof -
  assume k: "k < 64"
  have "unat (drop_bit 21 (0x10000 + word_of_nat k * 0x1000 :: ptr)) = 0"
    unfolding unat_drop_bit_eq boot64_frame [OF k] using k by (simp add: drop_bit_eq_div)
  then show ?thesis by (intro table_paths_region) (simp add: word_unat_eq_iff)
qed

lemma boot64_low:
  assumes "unat x < 0x8000"
  shows "x \<notin> region 0x10000 (16 * 64)" "x \<notin> frame_of 0x8000"
    and "k < 64 \<Longrightarrow> x \<notin> frame_of (0x10000 + word_of_nat k * 0x1000)"
proof -
  show "x \<notin> region 0x10000 (16 * 64)" "x \<notin> frame_of 0x8000"
    using assms by (simp_all add: frame_of_def region_interval)
  show "x \<notin> frame_of (0x10000 + word_of_nat k * 0x1000)" if "k < 64"
    using assms that boot64_frame [OF that] by (simp add: frame_of_def region_interval)
qed

text \<open>What booting leaves: the structures below \<open>0x8000\<close> as they were, and 62 free frames.\<close>

lemma boot64_booted:
  obtains s where "init_physical_memory 0x100 0x11f00 boot64 = Some s" "paging_inv 44 0x8000 s"
    "frame_list s = map (\<lambda>k. 0x10000 + word_of_nat k * 0x1000) [0..<64]"
    "unat (free_frames (pm s)) = 62" "\<And>x. unat x < 0x8000 \<Longrightarrow> ram s x = ram boot64 x"
    "\<And>x. unat x < 0x8000 \<Longrightarrow> x \<notin> paging_space 0x8000 s"
proof -
  let ?ds = "efi_map 0x100 (ram boot64)"
  have "count_list (boot_states 0x11f00 0x10000 ?ds) FREE_FRAME = 62"
    unfolding boot64_map by code_simp
  moreover have "0x8000 \<notin> boot_free 0x11f00 0x10000 ?ds"
    using boot_free_type boot64_facts(5) by blast
  ultimately obtain s where s: "init_physical_memory 0x100 0x11f00 boot64 = Some s" "paging_inv 44 0x8000 s"
    "frame_list s = map fst (map_frames ?ds)" "unat (free_frames (pm s)) = 62"
    "tables (ram s) 0x8000 = {0x8000}" "array_region s = region 0x10000 (16 * 64)"
    "\<And>x. x \<notin> array_region s \<Longrightarrow> ram s x = ram boot64 x"
    using boot_paging [OF boot64_ready boot64_facts(1) boot64_sound boot64_facts(2,3) _ boot64_facts(4) _ boot64_facts(6)]
    by (auto simp: boot64_total)
  have fl: "frame_list s = map (\<lambda>k. 0x10000 + word_of_nat k * 0x1000) [0..<64]"
    by (simp add: s(3) boot64_frames comp_def)
  have "free_addrs s \<subseteq> set (frame_list s)"
    by (auto simp: free_addrs_def frame_list_def)
  then have "x \<notin> paging_space 0x8000 s" if "unat x < 0x8000" for x
    using boot64_low [OF that] by (auto simp: paging_space_def s(5,6) fl)
  then show ?thesis
    using s fl boot64_low(1) by (intro that [of s]) simp_all
qed

section \<open>Turning paging on\<close>

text \<open>The tables after the mappings, and after that of the test page.\<close>

abbreviation boot_mapped :: "layout \<Rightarrow> 'd bus \<Rightarrow> 'd kstate \<Rightarrow> pstate" where
  "boot_mapped env bus st \<equiv>
     fold (\<lambda>a. map_vaddr_to_paddr (shift_width env) (at_PML4 env) a a) (boot_pages bus st) (ks_mem st)"

abbreviation test_mapped :: "layout \<Rightarrow> 'd bus \<Rightarrow> 'd kstate \<Rightarrow> pstate" where
  "test_mapped env bus st \<equiv>
     map_vaddr_to_paddr (shift_width env) (at_PML4 env) test_addr 0 (boot_mapped env bus st)"

abbreviation boot_translation :: "layout \<Rightarrow> 'd bus \<Rightarrow> 'd kstate \<Rightarrow> ptr \<Rightarrow> ptr option" where
  "boot_translation env bus st a \<equiv> (if same_page a test_addr then Some (take_bit 12 a)
     else if \<exists>p \<in> set (boot_pages bus st). same_page a p then Some (take_bit 44 a)
     else translate (ks_ram st) (at_PML4 env) a)"

lemma test_mapped_tables:
  assumes "paging_inv K (at_PML4 env) (ks_mem st)" "K \<le> shift_width env"
    and "missing_tables (at_PML4 env) (test_addr # boot_pages bus st) (ks_mem st) \<le> unat (free_frames (ks_pm st))"
  shows "translate (ram (test_mapped env bus st)) (at_PML4 env) a = boot_translation env bus st a"
    and "x \<notin> paging_space (at_PML4 env) (ks_mem st) \<Longrightarrow> ram (test_mapped env bus st) x = ks_ram st x"
    and "t \<in> tables (ram (test_mapped env bus st)) (at_PML4 env) \<Longrightarrow>
      frame_of t \<subseteq> paging_space (at_PML4 env) (ks_mem st)"
    and "missing_tables (at_PML4 env) (boot_pages bus st) (ks_mem st) \<le> unat (free_frames (ks_pm st))"
proof -
  let ?P = "at_PML4 env" and ?s = "ks_mem st" and ?s2 = "boot_mapped env bus st"
  show m: "missing_tables ?P (boot_pages bus st) ?s \<le> unat (free_frames (pm ?s))"
    using missing_tables_mono [OF set_subset_Cons] assms(3) by (rule order_trans)
  note id = identity_list [OF assms(1) m assms(2)]
  note bud = identity_list_budget [OF assms(1,3,2) set_subset_Cons]
  have one: "missing_tables ?P [test_addr] ?s2 \<le> unat (free_frames (pm ?s2))"
    by (rule order_trans [OF missing_tables_mono bud(1)]) simp
  note mp = map_page [where pa = 0, OF id(1) one assms(2)]
  show "translate (ram (test_mapped env bus st)) ?P a = boot_translation env bus st a"
    using mp(2) [of a] id(2) [of a] by (simp add: page_of_def)
  show "x \<notin> paging_space ?P ?s \<Longrightarrow> ram (test_mapped env bus st) x = ks_ram st x"
    using mp(3) [of x] id(3) [of x] bud(2) by simp
  show "t \<in> tables (ram (test_mapped env bus st)) ?P \<Longrightarrow> frame_of t \<subseteq> paging_space ?P ?s"
    using mp(5) bud(2) by (auto simp: paging_space_def)
qed

text \<open>What \<^verbatim>\<open>init_paging\<close> leaves; later writes outside the tables keep the translation.\<close>

lemma init_paging_run:
  assumes "paging_inv K (at_PML4 env) (ks_mem st)" "K \<le> shift_width env"
    and "hw_frame (at_PML4 env) = at_PML4 env"
    and "missing_tables (at_PML4 env) (test_addr # boot_pages bus st) (ks_mem st) \<le> unat (free_frames (ks_pm st))"
    and "(region (k_framebuffer (ks_kernel st)) 24 \<union> region (k_hpet_desc (ks_kernel st)) 56 \<union> {0x999})
      \<inter> paging_space (at_PML4 env) (ks_mem st) = {}"
  obtains st' where "init_paging env bus st = Some (st', at_PML4 env)"
    "\<And>a. translated_addr st' a = boot_translation env bus st a"
    "cr3 (ks_regs st') = at_PML4 env" "bit (msrs (ks_regs st') IA32_EFER) EFER_LME"
    "ks_ram st' 0x999 = 123" "ks_cursor st' = ks_cursor st" "ks_console st' = ks_console st"
    "ks_kernel st' = ks_kernel st" "ks_idt st' = ks_idt st" "gdtr (ks_regs st') = gdtr (ks_regs st)"
    "code_segment (ks_regs st') = code_segment (ks_regs st)"
    "data_segments (ks_regs st') = data_segments (ks_regs st)"
    "\<And>x. x \<notin> paging_space (at_PML4 env) (ks_mem st) \<Longrightarrow> x \<noteq> 0x999 \<Longrightarrow> ks_ram st' x = ks_ram st x"
    "\<And>t. t \<in> tables (ks_ram st') (at_PML4 env) \<Longrightarrow> frame_of t \<subseteq> paging_space (at_PML4 env) (ks_mem st)"
proof -
  let ?P = "at_PML4 env" and ?s4 = "test_mapped env bus st"
  let ?st1 = "st\<lparr>ks_regs := paging_registers (ks_regs st)\<rparr>"
  let ?st2 = "identity_paging_memory env bus ?st1"
  note tm = test_mapped_tables [OF assms(1,2,4)]
  have pages: "boot_pages bus ?st1 = boot_pages bus st" by (simp add: boot_pages_def)
  have s2: "ks_mem ?st2 = boot_mapped env bus st"
    using identity_memory_fold [of K env ?st1 bus] assms(1,2,5) tm(4) unfolding pages by auto
  let ?r = "set_cr3_register ?P False False (paging_registers (ks_regs st))"
  let ?st4 = "?st2\<lparr>ks_regs := ?r, ks_mem := ?s4\<rparr>"
  let ?st5 = "?st4\<lparr>ks_mem := ?s4\<lparr>ram := store8 0x999 123 (ram ?s4)\<rparr>\<rparr>"
  have r: "cr3 ?r = ?P" "msrs ?r = msrs (paging_registers (ks_regs st))"
    "gdtr ?r = gdtr (ks_regs st)" "code_segment ?r = code_segment (ks_regs st)" "data_segments ?r = data_segments (ks_regs st)"
    by (simp_all add: set_cr3_register_def paging_registers_fields)
  have out: "ram (ks_mem ?st5) x = ram ?s4 x" if "t \<in> tables (ram ?s4) ?P" "x \<in> frame_of t" for t x
    using tm(3) [OF that(1)] that(2) assms(5) by (auto simp: store8_apply)
  have v4: "translated_addr ?st4 test_addr = Some 0x999"
    using tm(1) [of test_addr] by (simp add: translated_addr_def r(1) assms(3) same_page_def)
  have v5: "translated_addr ?st5 a = boot_translation env bus st a" for a
    using tm(1) [of a] translate_same [of "ram ?s4" ?P "ram (ks_mem ?st5)" a, OF out]
    by (simp add: translated_addr_def r(1) assms(3))
  have "virtual_store8 test_addr 123 ?st4 = Some ?st5"
    by (simp add: virtual_store8_def v4)
  moreover have "virtual_load8 test_addr ?st5 = Some 123"
    using v5 [of test_addr] by (simp add: virtual_load8_def load8_def store8_apply same_page_def)
  ultimately have run: "init_paging env bus st = Some (?st5, ?P)"
    by (simp add: init_paging_def Let_def s2 identity_memory_fields)
  have tb: "tables (ram (ks_mem ?st5)) ?P = tables (ram ?s4) ?P"
    by (rule tables_same(1) [OF out])
  show ?thesis
  proof (rule that [OF run v5])
    show "t \<in> tables (ks_ram ?st5) ?P \<Longrightarrow> frame_of t \<subseteq> paging_space ?P (ks_mem st)" for t
      unfolding tb by (rule tm(3))
    show "bit (msrs (ks_regs ?st5) IA32_EFER) EFER_LME" using paging_registers_lme by (simp add: r(2))
  qed (use tm(2) in \<open>simp_all add: r identity_memory_fields store8_apply\<close>)
qed

text \<open>What is mapped on that machine.\<close>

lemma boot64_pages:
  assumes frames: "frame_list s = map (\<lambda>k. 0x10000 + word_of_nat k * 0x1000) [0..<64]"
    and low: "\<And>x. unat x < 0x8000 \<Longrightarrow> ram s x = ram boot64 x"
  shows "boot_pages idle_bus (boot64_kernel s) = map (\<lambda>k. 0x10000 + word_of_nat k * 0x1000) [0..<64]
      @ [0xfee10000, 0xfee00000, 0xfee20000]"
    and "table_paths ` set (test_addr # boot_pages idle_bus (boot64_kernel s))
      \<subseteq> table_paths ` set [test_addr, 0x10000, 0xfee00000]"
proof -
  have "framebuffer_at (ram s) 0x300 = framebuffer_at (ram boot64) 0x300"
    by (rule framebuffer_at_cong) (auto simp: low region_interval)
  also have "\<dots> = \<lparr>base_address = 0xfee10000, buffer_size = 0, width = 0, height = 0,
      pixels_per_scanline = 0, bytes_per_pixel = 0\<rparr>" by code_simp
  finally have f: "framebuffer_at (ram s) 0x300 = \<lparr>base_address = 0xfee10000, buffer_size = 0,
      width = 0, height = 0, pixels_per_scanline = 0, bytes_per_pixel = 0\<rparr>" .
  have "load64 (ram s) 0x42c = load64 (ram boot64) 0x42c"
    by (rule load64_cong) (auto simp: low region_interval)
  also have "\<dots> = 0xfee20000" by code_simp
  finally have g: "hpet_address (ram s) 0x400 = 0xfee20000"
    by (simp add: hpet_address_load)
  have z: "(field_at 8 (0 :: u64) :: 5 word) = 0" by code_simp
  have n: "fst (HPET_get_mmio_sz idle_bus (ram s) 0x400 ()) = 96"
    by (simp add: HPET_get_mmio_sz_def HPET_get_no_timers_def HPET_read_reg_def mmio_read64_def
        idle_bus_def read_HPET_CapReg_def Let_def z)
  have "identity_pages 0xfee10000 0 = [0xfee10000]" "identity_pages APIC_BASE_ADDR 4096 = [0xfee00000]"
    "identity_pages 0xfee20000 96 = [0xfee20000]" by code_simp+
  then show pages: "boot_pages idle_bus (boot64_kernel s) = map (\<lambda>k. 0x10000 + word_of_nat k * 0x1000) [0..<64]
      @ [0xfee10000, 0xfee00000, 0xfee20000]"
    using f g n by (simp add: boot_pages_def Let_def boot64_kernel_def frames)
  have "table_paths 0xfee10000 = table_paths 0xfee00000" "table_paths 0xfee20000 = table_paths 0xfee00000"
    by (rule table_paths_region, code_simp)+
  then show "table_paths ` set (test_addr # boot_pages idle_bus (boot64_kernel s))
      \<subseteq> table_paths ` set [test_addr, 0x10000, 0xfee00000]"
    using boot64_table_paths by (auto simp: pages)
qed

section \<open>Properties\<close>



end
