(* ===== verification/Kernel.thy ===== *)
theory Kernel
  imports Paging_Init Apic
begin

text \<open>
  The kernel's entry point, \<^verbatim>\<open>_start\<close> of \<^verbatim>\<open>src/src/kernel.c\<close>: the order in which the components are
  initialised, what each leaves in \<^verbatim>\<open>kernel\<close>, and what is printed in between.
\<close>

unbundle bit_operations_syntax

section \<open>The steps of the boot\<close>

text \<open>\<open>bd\<close> is the address of the boot loader's data, which is also the top of the stack.\<close>

definition load_bootloader_data :: "ptr \<Rightarrow> 'd kstate \<Rightarrow> 'd kstate" where
  "load_bootloader_data bd st =
     (let b = bootloader_at (ks_ram st) bd in
      st\<lparr>ks_kernel := (ks_kernel st)\<lparr>k_stack := bd, k_acpi_rsdp := bd_acpi_rsdp b,
           k_framebuffer := bd_framebuffer b, k_memory := bd_memory b\<rparr>\<rparr>)"

definition start_console :: "layout \<Rightarrow> ptr \<Rightarrow> 'd kstate \<Rightarrow> 'd kstate" where
  "start_console env bd st =
     (let fb = k_framebuffer (ks_kernel st);
          c = Console__init (bd_font (bootloader_at (ks_ram st) bd)) fb (ks_console st);
          st1 = st\<lparr>ks_console := c, ks_kernel := (ks_kernel st)\<lparr>k_console := at_console env\<rparr>\<rparr>
      in set_screen (Console__clear_screen fb c (get_screen st1)) st1)"

definition start_cpu :: "layout \<Rightarrow> cpuid \<Rightarrow> 'd kstate \<Rightarrow> 'd kstate option" where
  "start_cpu env cpuid st = do {
     let st = st\<lparr>ks_mem := (ks_mem st)\<lparr>ram := CPU_init cpuid (at_cpu env) (ks_ram st)\<rparr>,
                 ks_kernel := (ks_kernel st)\<lparr>k_cpu := at_cpu env\<rparr>\<rparr>;
     (st, cpu_s) \<leftarrow> check_cpu_state env cpuid st;
     st \<leftarrow> (if cpu_s \<noteq> CPU_SUCCESS then kprint_err env (literal env ''CPU state error'') st
           else kprint_succ env (literal env ''CPU state correct'') st);
     kprint_cpu_info env st
   }"

definition start_pmem :: "layout \<Rightarrow> 'd kstate \<Rightarrow> 'd kstate option" where
  "start_pmem env st = do {
     s \<leftarrow> init_physical_memory (k_memory (ks_kernel st)) (k_stack (ks_kernel st)) (ks_mem st);
     let st = st\<lparr>ks_mem := s, ks_kernel := (ks_kernel st)\<lparr>k_pmem := at_pmem env\<rparr>\<rparr>;
     st \<leftarrow> kprint_succ env (literal env ''Physical memory initalization success'') st;
     kprint_pmem_info env st
   }"

definition start_gdt :: "layout \<Rightarrow> 'd kstate \<Rightarrow> 'd kstate option" where
  "start_gdt env st = do {
     let (r, g) = init_gdt (at_gdt env) (ks_regs st);
     let st = st\<lparr>ks_regs := r, ks_kernel := (ks_kernel st)\<lparr>k_gdt := g\<rparr>\<rparr>;
     kprint_succ env (literal env ''GDT initalization success'') st
   }"

definition start_hpet :: "layout \<Rightarrow> 'd bus \<Rightarrow> 'd kstate \<Rightarrow> 'd kstate option" where
  "start_hpet env bus st = do {
     let (desc, d) = HPET_init bus (ks_ram st) (k_acpi_rsdp (ks_kernel st)) (literal env HPET_STD_SIGNATURE) (ks_dev st);
     let st = st\<lparr>ks_dev := d, ks_kernel := (ks_kernel st)\<lparr>k_hpet_desc := desc\<rparr>\<rparr>;
     kprint_succ env (literal env ''HPET initialization success'') st
   }"

definition start_paging :: "layout \<Rightarrow> 'd bus \<Rightarrow> 'd kstate \<Rightarrow> 'd kstate option" where
  "start_paging env bus st = do {
     (st, p) \<leftarrow> init_paging env bus st;
     let st = st\<lparr>ks_kernel := (ks_kernel st)\<lparr>k_pml4 := p\<rparr>\<rparr>;
     kprint_succ env (literal env ''4-level paging initialization success'') st
   }"

definition start_idt :: "layout \<Rightarrow> 'd kstate \<Rightarrow> 'd kstate option" where
  "start_idt env st = do {
     let ((idt', r), p) = init_idt (at_page_fault_handler env) (at_divide_by_zero_handler env)
           (at_idt env) (ks_idt st, ks_regs st);
     let st = st\<lparr>ks_idt := idt', ks_regs := r, ks_kernel := (ks_kernel st)\<lparr>k_idt := p\<rparr>\<rparr>;
     kprint_succ env (literal env ''IDT initialization success'') st
   }"

definition print_acpi_version :: "layout \<Rightarrow> 'd kstate \<Rightarrow> 'd kstate option" where
  "print_acpi_version env st =
     (let version = get_acpi_version (ks_ram st) (k_acpi_rsdp (ks_kernel st)) in
      if version = ACPI_1_VERSION then kprint_succ env (literal env ''ACPI 1.0 detected'') st
      else if version = ACPI_2_VERSION then kprint_succ env (literal env ''ACPI 2.0 detected'') st
      else kprint_err env (literal env ''unknown version of ACPI detected'') st)"

text \<open>A value read from a device, printed as a number.\<close>

definition print_device :: "layout \<Rightarrow> string \<Rightarrow> ('d \<Rightarrow> 'a::len word \<times> 'd) \<Rightarrow> 'd kstate \<Rightarrow> 'd kstate option" where
  "print_device env fmt rd st =
     (let (v, d) = rd (ks_dev st)
      in printf env (literal env (fmt @ nl)) [ucast v] (st\<lparr>ks_dev := d\<rparr>))"

definition print_devices :: "layout \<Rightarrow> 'd bus \<Rightarrow> 'd kstate \<Rightarrow> 'd kstate option" where
  "print_devices env bus st = do {
     let desc = k_hpet_desc (ks_kernel st);
     st \<leftarrow> print_device env ''LAPIC ID     : %d '' (APIC_get_local_id bus) st;
     st \<leftarrow> print_device env ''APIC version : %d '' (APIC_get_version bus) st;
     st \<leftarrow> print_device env ''HPET timers  : %d '' (HPET_get_no_timers bus (ks_ram st) desc) st;
     st \<leftarrow> print_device env ''HPET enabled : %d '' (HPET_is_counter_enabled bus (ks_ram st) desc) st;
     st \<leftarrow> print_device env ''HPET counter : %d '' (HPET_get_main_counter bus (ks_ram st) desc) st;
     print_device env ''HPET counter : %d '' (HPET_get_main_counter bus (ks_ram st) desc) st
   }"

definition start_timer :: "layout \<Rightarrow> 'd bus \<Rightarrow> 'd kstate \<Rightarrow> 'd kstate option" where
  "start_timer env bus st =
     (let desc = k_hpet_desc (ks_kernel st);
          st1 = st\<lparr>ks_regs := APIC_enable (ks_regs st)\<rparr>;
          st2 = st1\<lparr>ks_dev := HTimer_set_one_shot bus (ks_ram st1) desc 0 1000 (ks_dev st1)\<rparr>
      in print_device env ''Comparator: %d '' (HTimer_get_compar bus (ks_ram st2) desc 0) st2)"

text \<open>The result is the state in which the kernel enters its endless loop.\<close>

definition start :: "layout \<Rightarrow> 'd bus \<Rightarrow> cpuid \<Rightarrow> ptr \<Rightarrow> 'd kstate \<Rightarrow> 'd kstate option" where
  "start env bus cpuid bd st = do {
     let st = load_bootloader_data bd st;
     let st = start_console env bd st;
     st \<leftarrow> start_cpu env cpuid st;
     st \<leftarrow> start_pmem env st;
     st \<leftarrow> start_gdt env st;
     st \<leftarrow> start_hpet env bus st;
     st \<leftarrow> start_paging env bus st;
     st \<leftarrow> start_idt env st;
     st \<leftarrow> print_acpi_version env st;
     st \<leftarrow> print_devices env bus st;
     start_timer env bus st
   }"

end
