(* ===== verification/Messages.thy ===== *)
theory Messages
  imports Kutils
begin

text \<open>
  What the messages of \<^verbatim>\<open>src/src/kutils.c\<close> leave on the screen: each prints its prefix, the message
  and the end of the line, and \<^verbatim>\<open>kpanic\<close> shows its two lines in white on blue.
\<close>

unbundle bit_operations_syntax

section \<open>Strings and what printing needs\<close>

abbreviation chars :: "string \<Rightarrow> u8 list" where "chars \<equiv> map of_char"

abbreviation fb_of :: "'d kstate \<Rightarrow> ptr" where "fb_of st \<equiv> k_framebuffer (ks_kernel st)"

abbreviation "buffers env \<equiv> region (printf_buf env) 4096 \<union> region (printf_temp_buf env) 64"

definition writable :: "layout \<Rightarrow> 'd kstate \<Rightarrow> ptr set" where
  "writable env st = screen_area (ks_ram st) (fb_of st) \<union> buffers env"

definition string_ready :: "layout \<Rightarrow> 'd kstate \<Rightarrow> ptr \<Rightarrow> u8 list \<Rightarrow> bool" where
  "string_ready env st a s \<longleftrightarrow> cstr (ks_ram st) a s \<and> length s < 2 ^ 16
     \<and> region a (Suc (length s)) \<inter> writable env st = {}"

definition print_ready :: "layout \<Rightarrow> 'd kstate \<Rightarrow> bool" where
  "print_ready env st \<longleftrightarrow> console_ready (ks_ram st) (fb_of st) (ks_console st)
     \<and> buffers_apart (ks_ram st) (fb_of st) (ks_console st) (printf_buf env) (printf_temp_buf env)"

text \<open>Printing changes the cursor, the framebuffer and the two buffers.\<close>

definition kept :: "layout \<Rightarrow> 'd kstate \<Rightarrow> 'd kstate \<Rightarrow> bool" where
  "kept env st st' \<longleftrightarrow> st' = set_screen (get_screen st') st
     \<and> (\<forall>x. x \<notin> writable env st \<longrightarrow> ks_ram st' x = ks_ram st x)"

text \<open>The characters \<open>txt\<close> are printed one by one, after a change to the buffers.\<close>

definition prints :: "layout \<Rightarrow> u8 list \<Rightarrow> 'd kstate \<Rightarrow> 'd kstate \<Rightarrow> bool" where
  "prints env txt st st' \<longleftrightarrow>
     (\<exists>m. outside_buffers (printf_buf env) (printf_temp_buf env) (ks_ram st) m
       \<and> st' = set_screen (print_chars (fb_of st) (ks_console st) txt
                  \<lparr>s_ram = m, s_cursor = ks_cursor st\<rparr>) st)"

lemma screen_simps [simp]:
  "ks_ram (set_screen s st) = s_ram s" "ks_cursor (set_screen s st) = s_cursor s"
  "ks_console (set_screen s st) = ks_console st" "ks_kernel (set_screen s st) = ks_kernel st"
  "ks_regs (set_screen s st) = ks_regs st" "ks_dev (set_screen s st) = ks_dev st"
  "ks_idt (set_screen s st) = ks_idt st" "ks_pm (set_screen s st) = ks_pm st"
  "get_screen (set_screen s st) = s" "set_screen (get_screen st) st = st"
  "set_screen s (set_screen s' st) = set_screen s st"
  "s_ram (get_screen st) = ks_ram st" "s_cursor (get_screen st) = ks_cursor st"
  by (simp_all add: set_screen_def get_screen_def)

lemma keptD: "kept env st st' \<Longrightarrow> x \<notin> writable env st \<Longrightarrow> ks_ram st' x = ks_ram st x"
  by (simp add: kept_def)

lemma kept_fields:
  assumes "kept env st st'"
  shows "ks_console st' = ks_console st" "ks_kernel st' = ks_kernel st" "ks_regs st' = ks_regs st"
    and "ks_dev st' = ks_dev st" "ks_idt st' = ks_idt st" "ks_pm st' = ks_pm st"
proof -
  have "st' = set_screen (get_screen st') st" using assms unfolding kept_def by (rule conjunct1)
  then show "ks_console st' = ks_console st" "ks_kernel st' = ks_kernel st" "ks_regs st' = ks_regs st"
    "ks_dev st' = ks_dev st" "ks_idt st' = ks_idt st" "ks_pm st' = ks_pm st"
    by (metis screen_simps)+
qed

lemma print_ready_reads:
  assumes "print_ready env st"
  shows "console_reads (ks_ram st) (fb_of st) (ks_console st) \<inter> writable env st = {}"
proof -
  have "region (fb_of st) 24 \<inter> screen_area (ks_ram st) (fb_of st) = {}"
    using assms by (simp add: print_ready_def console_ready_def fb_ready_def screen_area_def Let_def)
  moreover have "console_reads (ks_ram st) (fb_of st) (ks_console st) \<inter> buffers env = {}"
    using assms by (simp add: print_ready_def buffers_apart_def console_reads_def Int_Un_distrib
        Int_Un_distrib2 Int_commute)
  ultimately show ?thesis
    using assms by (simp add: print_ready_def console_ready_def writable_def console_reads_def
        Int_Un_distrib Int_Un_distrib2)
qed

lemma kept_reads:
  assumes "print_ready env st" "kept env st st'"
    and "x \<in> console_reads (ks_ram st) (fb_of st) (ks_console st)"
  shows "ks_ram st' x = ks_ram st x"
proof (rule keptD [OF assms(2)])
  show "x \<notin> writable env st"
    using print_ready_reads [OF assms(1)] assms(3) by blast
qed

lemma kept_ready:
  assumes "print_ready env st" "kept env st st'"
  shows "print_ready env st'" "writable env st' = writable env st"
    and "string_ready env st a s \<Longrightarrow> string_ready env st' a s"
proof -
  note same = console_same [of "ks_ram st" "fb_of st" "ks_console st" "ks_ram st'", OF kept_reads [OF assms]]
  note f = kept_fields [OF assms(2)]
  show w: "writable env st' = writable env st" by (simp add: writable_def f same(2))
  show "print_ready env st'"
    using assms(1) by (simp add: print_ready_def buffers_apart_def f same(2,3,5))
  assume s: "string_ready env st a s"
  have "cstr (ks_ram st') a s"
  proof (rule cstr_cong)
    show "cstr (ks_ram st) a s" "length s < 2 ^ 63" using s by (simp_all add: string_ready_def)
    fix x assume "x \<in> region a (Suc (length s))"
    then have "x \<notin> writable env st" using s unfolding string_ready_def by blast
    then show "ks_ram st' x = ks_ram st x" by (rule keptD [OF assms(2)])
  qed
  with s show "string_ready env st' a s" by (simp add: string_ready_def w)
qed

lemma kept_transitive:
  assumes "print_ready env st" "kept env st st1" "kept env st1 st2"
  shows "kept env st st2"
proof -
  have "st2 = set_screen (get_screen st2) st1" "st1 = set_screen (get_screen st1) st"
    using assms(2,3) unfolding kept_def by blast+
  then have "st2 = set_screen (get_screen st2) st" by (metis screen_simps(11))
  moreover have "ks_ram st2 x = ks_ram st x" if "x \<notin> writable env st" for x
    using that keptD [OF assms(2)] keptD [OF assms(3)] kept_ready(2) [OF assms(1,2)] by simp
  ultimately show ?thesis unfolding kept_def by blast
qed

section \<open>One message\<close>

lemma printf_prints:
  assumes ready: "print_ready env st" and fmt: "string_ready env st fmt f"
    and args: "\<And>a. a \<in> fmt_strings False f args \<Longrightarrow> string_ready env st a (L a)"
    and out: "fmt_out L False f args = Some out" "length out < 4096"
    and fits: "text_fits (ks_ram st) (fb_of st) (ks_console st) out (ks_cursor st)"
  obtains st' where "printf env fmt args st = Some st'" "prints env out st st'" "kept env st st'"
    "ks_cursor st' = fold cursor_after out (ks_cursor st)"
proof -
  let ?b = "printf_buf env" and ?t = "printf_temp_buf env" and ?fb = "fb_of st" and ?c = "ks_console st"
  have str: "string_at ?b ?t (ks_ram st) a s" if "string_ready env st a s" for a s
    using that by (auto simp: string_at_def string_ready_def writable_def)
  have c: "console_ready (ks_ram st) ?fb ?c" and b: "buffers_apart (ks_ram st) ?fb ?c ?b ?t"
    using ready by (simp_all add: print_ready_def)
  have "\<exists>m'. Console__printf ?fb ?c (?b, ?t) fmt args (get_screen st)
        = Some (print_chars ?fb ?c out ((get_screen st)\<lparr>s_ram := m'\<rparr>))
      \<and> outside_buffers ?b ?t (s_ram (get_screen st)) m'"
    using fmt by (intro printf_run [where L = L and fmt = f])
      (use b c out fits str args in \<open>simp_all add: string_ready_def\<close>)
  then obtain m' where m': "Console__printf ?fb ?c (?b, ?t) fmt args (get_screen st)
        = Some (print_chars ?fb ?c out \<lparr>s_ram = m', s_cursor = ks_cursor st\<rparr>)"
    "outside_buffers ?b ?t (ks_ram st) m'"
    by (auto simp: get_screen_def)
  let ?s = "print_chars ?fb ?c out \<lparr>s_ram = m', s_cursor = ks_cursor st\<rparr>"
  note same = buffers_apart_same [OF c b m'(2)]
  have r: "s_cursor ?s = fold cursor_after out (ks_cursor st)" "off_screen ?fb m' (s_ram ?s)"
    using print_chars_result [of "\<lparr>s_ram = m', s_cursor = ks_cursor st\<rparr>" ?fb ?c out] same fits by simp_all
  have "kept env st (set_screen ?s st)"
    using r(2) m'(2) same(2) by (simp add: kept_def writable_def off_screen_def outside_buffers_def)
  moreover have "printf env fmt args st = Some (set_screen ?s st)"
    by (simp add: printf_def m'(1))
  ultimately show ?thesis
    using that [of "set_screen ?s st"] r(1) m'(2) by (auto simp: prints_def)
qed

text \<open>The character \<open>c\<close> stands in cell \<open>k\<close> of line \<open>ln\<close>, in the two colours.\<close>

definition cell_shows :: "'d kstate \<Rightarrow> mem \<Rightarrow> u32 \<Rightarrow> u32 \<Rightarrow> nat \<Rightarrow> nat \<Rightarrow> u8 \<Rightarrow> bool" where
  "cell_shows st m fg bg ln k c \<longleftrightarrow>
     (let font = font_at (ks_ram st) (console_font (ks_console st));
          g = char_glyph font ((ks_cursor st)\<lparr>fg_color := fg, bg_color := bg\<rparr>) (scast c)
      in \<forall>x y. x < unat (glyph_width font) \<longrightarrow> y < unat (glyph_height font)
        \<longrightarrow> pix (base_address (framebuffer_at (ks_ram st) (fb_of st))) m
              (cell_pixel (ks_ram st) (fb_of st) (ks_console st) ln k x y)
            = glyph_color (ks_ram st) g y x)"

text \<open>The glyphs of the text are apart from what printing changes.\<close>

definition glyphs_apart :: "layout \<Rightarrow> 'd kstate \<Rightarrow> u8 list \<Rightarrow> bool" where
  "glyphs_apart env st cs \<longleftrightarrow>
     (let font = font_at (ks_ram st) (console_font (ks_console st)) in
      \<forall>c \<in> set cs. region (g_bitmap (char_glyph font (ks_cursor st) (scast c)))
        (unat (glyph_height font)) \<inter> writable env st = {})"

text \<open>Messages keep what cells are made from.\<close>

lemma kept_cells:
  assumes "print_ready env st" "kept env st st'"
  shows "font_at (ks_ram st') (console_font (ks_console st')) = font_at (ks_ram st) (console_font (ks_console st))"
    and "framebuffer_at (ks_ram st') (fb_of st') = framebuffer_at (ks_ram st) (fb_of st)"
    and "cell_pixel (ks_ram st') (fb_of st') (ks_console st') = cell_pixel (ks_ram st) (fb_of st) (ks_console st)"
    and "line_fits (ks_ram st') (fb_of st') (ks_console st') cs cur
      = line_fits (ks_ram st) (fb_of st) (ks_console st) cs cur"
    and "text_fits (ks_ram st') (fb_of st') (ks_console st') cs cur
      = text_fits (ks_ram st) (fb_of st) (ks_console st) cs cur"
    and "glyphs_apart env st cs \<Longrightarrow> glyphs_apart env st' cs"
    and "glyphs_apart env st [c] \<Longrightarrow> cell_shows st' m fg bg ln k c = cell_shows st m fg bg ln k c"
proof -
  note same = console_same [of "ks_ram st" "fb_of st" "ks_console st" "ks_ram st'", OF kept_reads [OF assms]]
  note f = kept_fields [OF assms(2)]
  show ft: "font_at (ks_ram st') (console_font (ks_console st')) = font_at (ks_ram st) (console_font (ks_console st))"
    and fb: "framebuffer_at (ks_ram st') (fb_of st') = framebuffer_at (ks_ram st) (fb_of st)"
    by (simp_all add: f same(1,4))
  then show cp: "cell_pixel (ks_ram st') (fb_of st') (ks_console st') = cell_pixel (ks_ram st) (fb_of st) (ks_console st)"
    by (simp add: cell_pixel_def f fun_eq_iff)
  show "line_fits (ks_ram st') (fb_of st') (ks_console st') cs cur
      = line_fits (ks_ram st) (fb_of st) (ks_console st) cs cur"
    "text_fits (ks_ram st') (fb_of st') (ks_console st') cs cur
      = text_fits (ks_ram st) (fb_of st) (ks_console st) cs cur"
    by (simp_all only: f same(6,7))
  have bm: "g_bitmap (char_glyph fnt (ks_cursor st') ch) = g_bitmap (char_glyph fnt (ks_cursor st) ch)" for fnt ch
    by (simp add: char_glyph_def)
  show "glyphs_apart env st cs \<Longrightarrow> glyphs_apart env st' cs"
    by (simp only: glyphs_apart_def ft bm kept_ready(2) [OF assms])
  assume g: "glyphs_apart env st [c]"
  let ?font = "font_at (ks_ram st) (console_font (ks_console st))"
  have "glyph_color (ks_ram st') (char_glyph ?font ((ks_cursor st')\<lparr>fg_color := fg, bg_color := bg\<rparr>) (scast c)) y x
      = glyph_color (ks_ram st) (char_glyph ?font ((ks_cursor st)\<lparr>fg_color := fg, bg_color := bg\<rparr>) (scast c)) y x"
    if "y < unat (glyph_height ?font)" for x y
  proof (rule glyph_color_kept [OF keptD [OF assms(2)] that])
    fix q assume "q \<in> region (g_bitmap (char_glyph ?font ((ks_cursor st)\<lparr>fg_color := fg, bg_color := bg\<rparr>) (scast c)))
        (unat (glyph_height ?font))"
    with g show "q \<notin> writable env st" by (simp add: glyphs_apart_def Let_def char_glyph_def) blast
  qed (simp_all add: char_glyph_def)
  then show "cell_shows st' m fg bg ln k c = cell_shows st m fg bg ln k c"
    unfolding cell_shows_def Let_def ft fb cp by auto
qed

section \<open>Lines on the screen\<close>

lemma prints_start:
  assumes "print_ready env st" "prints env txt st st'"
  obtains m where "kept env st (set_screen \<lparr>s_ram = m, s_cursor = ks_cursor st\<rparr> st)"
    "ks_ram st' = s_ram (print_chars (fb_of st) (ks_console st) txt \<lparr>s_ram = m, s_cursor = ks_cursor st\<rparr>)"
    "\<And>q. q < fb_area (framebuffer_at (ks_ram st) (fb_of st)) \<Longrightarrow>
      pix (base_address (framebuffer_at (ks_ram st) (fb_of st))) m q
        = pix (base_address (framebuffer_at (ks_ram st) (fb_of st))) (ks_ram st) q"
proof -
  let ?f = "framebuffer_at (ks_ram st) (fb_of st)"
  obtain m where m: "outside_buffers (printf_buf env) (printf_temp_buf env) (ks_ram st) m"
    "st' = set_screen (print_chars (fb_of st) (ks_console st) txt \<lparr>s_ram = m, s_cursor = ks_cursor st\<rparr>) st"
    using assms(2) unfolding prints_def by blast
  have "kept env st (set_screen \<lparr>s_ram = m, s_cursor = ks_cursor st\<rparr> st)"
    using m(1) by (simp add: kept_def writable_def outside_buffers_def)
  moreover have "pix (base_address ?f) m q = pix (base_address ?f) (ks_ram st) q" if "q < fb_area ?f" for q
    unfolding pix_def
  proof (rule load32_cong)
    have n: "4 * fb_area ?f + 4 \<le> 2 ^ 64"
      using assms(1) by (simp add: print_ready_def console_ready_def fb_ready_def Let_def)
    fix x assume "x \<in> region (off_ptr (base_address ?f) (4 * q)) 4"
    moreover have "region (off_ptr (base_address ?f) (4 * q)) 4 \<subseteq> screen_area (ks_ram st) (fb_of st)"
    proof -
      have "unat (word_of_nat (4 * q) :: ptr) = 4 * q"
        using that n by (intro unat_of_nat_small) simp
      then have "unat (base_address ?f + word_of_nat (4 * q) - base_address ?f) + 4 \<le> 4 * fb_area ?f + 4"
        unfolding add_diff_cancel_left' using that by linarith
      then show ?thesis unfolding screen_area_def off_ptr_def using n by (rule region_sub)
    qed
    ultimately have "x \<notin> buffers env"
      using assms(1) unfolding print_ready_def buffers_apart_def by blast
    then show "m x = ks_ram st x" using m(1) by (simp add: outside_buffers_def)
  qed
  ultimately show ?thesis using m(2) by (intro that [of m]) simp_all
qed

lemma prints_line:
  assumes "print_ready env st" "prints env (cs @ ds) st st'" "ds = [] \<or> ds = [10]"
    and fits: "line_fits (ks_ram st) (fb_of st) (ks_console st) cs (ks_cursor st)"
    and "ConsoleCursor.column (ks_cursor st) = 0" "k < length cs" "glyphs_apart env st cs"
  shows "cell_shows st (ks_ram st') (fg_color (ks_cursor st)) (bg_color (ks_cursor st))
    (unat (line (ks_cursor st))) k (cs ! k)"
proof -
  let ?fb = "fb_of st" and ?c = "ks_console st"
  obtain m where k: "kept env st (set_screen \<lparr>s_ram = m, s_cursor = ks_cursor st\<rparr> st)"
    and r: "ks_ram st' = s_ram (print_chars ?fb ?c (cs @ ds) \<lparr>s_ram = m, s_cursor = ks_cursor st\<rparr>)"
    by (rule prints_start [OF assms(1,2)])
  let ?s = "\<lparr>s_ram = m, s_cursor = ks_cursor st\<rparr>" and ?st = "set_screen \<lparr>s_ram = m, s_cursor = ks_cursor st\<rparr> st"
  have "line_fits (s_ram ?s) ?fb ?c cs (s_cursor ?s)"
    using kept_cells(4) [OF assms(1) k] fits by simp
  from line_shown [OF this assms(6)]
  have "cell_shows ?st (s_ram (print_chars ?fb ?c cs ?s)) (fg_color (ks_cursor st)) (bg_color (ks_cursor st))
      (unat (line (ks_cursor st))) k (cs ! k)"
    using assms(5) by (simp add: cell_shows_def Let_def)
  moreover have "glyphs_apart env st [cs ! k]"
    using assms(6,7) by (simp add: glyphs_apart_def Let_def)
  moreover have "ks_ram st' = s_ram (print_chars ?fb ?c cs ?s)"
    using assms(3) unfolding r by (auto simp: Console__print_char_def on_cursor_def)
  ultimately show ?thesis using kept_cells(7) [OF assms(1) k] by simp
qed

lemma prints_keeps_above:
  assumes "print_ready env st" "prints env cs st st'"
    and fits: "line_fits (ks_ram st) (fb_of st) (ks_console st) cs (ks_cursor st)"
    and ln: "ln < unat (line (ks_cursor st))"
    and k: "Suc k * unat (glyph_width (font_at (ks_ram st) (console_font (ks_console st))))
      \<le> unat (pixels_per_scanline (framebuffer_at (ks_ram st) (fb_of st)))"
    and cell: "cell_shows st (ks_ram st) fg bg ln k c"
  shows "cell_shows st (ks_ram st') fg bg ln k c"
proof -
  let ?fb = "fb_of st" and ?c = "ks_console st"
  let ?f = "framebuffer_at (ks_ram st) ?fb" and ?font = "font_at (ks_ram st) (console_font ?c)"
  obtain m where kp: "kept env st (set_screen \<lparr>s_ram = m, s_cursor = ks_cursor st\<rparr> st)"
    and r: "ks_ram st' = s_ram (print_chars ?fb ?c cs \<lparr>s_ram = m, s_cursor = ks_cursor st\<rparr>)"
    and px: "\<And>q. q < fb_area ?f \<Longrightarrow> pix (base_address ?f) m q = pix (base_address ?f) (ks_ram st) q"
    by (rule prints_start [OF assms(1,2)]) blast
  let ?s = "\<lparr>s_ram = m, s_cursor = ks_cursor st\<rparr>" and ?w = "unat (glyph_width ?font)" and ?h = "unat (glyph_height ?font)"
  note kc = kept_cells [OF assms(1) kp, simplified]
  have lf: "line_fits (s_ram ?s) ?fb ?c cs (s_cursor ?s)" using kc(4) fits by simp
  have "pix (base_address ?f) (ks_ram st') (pixel_no ?f (x + k * ?w) (y + ln * ?h))
      = pix (base_address ?f) (ks_ram st) (pixel_no ?f (x + k * ?w) (y + ln * ?h))"
    if "x < ?w" "y < ?h" for x y
  proof -
    have X: "x + k * ?w < unat (pixels_per_scanline ?f)" using that(1) k by simp
    have "y + ln * ?h < Suc ln * ?h" using that(2) by simp
    also have "\<dots> \<le> unat (line (ks_cursor st)) * ?h" using ln by (intro mult_le_mono1) simp
    finally have Y: "y + ln * ?h < unat (line (ks_cursor st)) * ?h" .
    have "(unat (line (ks_cursor st)) + 1) * ?h \<le> unat (height ?f)" using fits by (simp add: line_fits_def)
    with Y have "y + ln * ?h < unat (height ?f)" by simp
    from px [OF pixel_no_less [OF X this]] line_keeps_above [OF lf, of "y + ln * ?h" "x + k * ?w"] X Y
    show ?thesis by (simp add: r kc(1,2))
  qed
  with cell show ?thesis by (simp add: cell_shows_def cell_pixel_def Let_def)
qed

text \<open>Two lines, one after the other, below each other.\<close>

lemma two_lines_shown:
  assumes ready: "print_ready env st" and kb: "kept env st b" and k1: "kept env st st1"
    and p: "prints env (cs @ [10]) b st1" "prints env ds st1 st2"
    and cur: "ks_cursor st1 = (ks_cursor b)\<lparr>line := ln\<rparr>" "unat (line (ks_cursor b)) < unat ln"
      "ConsoleCursor.column (ks_cursor b) = 0"
    and l: "line_fits (ks_ram st) (fb_of st) (ks_console st) cs (ks_cursor b)"
      "line_fits (ks_ram st) (fb_of st) (ks_console st) ds ((ks_cursor b)\<lparr>line := ln\<rparr>)"
    and g: "glyphs_apart env st (cs @ ds)"
  shows "k < length cs \<Longrightarrow> cell_shows st (ks_ram st2) (fg_color (ks_cursor b)) (bg_color (ks_cursor b))
      (unat (line (ks_cursor b))) k (cs ! k)"
    and "k < length ds \<Longrightarrow> cell_shows st (ks_ram st2) (fg_color (ks_cursor b)) (bg_color (ks_cursor b))
      (unat ln) k (ds ! k)"
proof -
  let ?fg = "fg_color (ks_cursor b)" and ?bg = "bg_color (ks_cursor b)"
  let ?w = "unat (glyph_width (font_at (ks_ram st) (console_font (ks_console st))))"
  note rb = kept_ready [OF ready kb] and cb = kept_cells [OF ready kb]
  note r1 = kept_ready [OF ready k1] and c1 = kept_cells [OF ready k1]
  have ga: "glyphs_apart env st cs" "glyphs_apart env st ds" using g by (auto simp: glyphs_apart_def Let_def)
  have l1: "line_fits (ks_ram st1) (fb_of st1) (ks_console st1) ds (ks_cursor st1)"
    using l(2) by (simp only: c1(4) cur(1))
  show "cell_shows st (ks_ram st2) ?fg ?bg (unat ln) k (ds ! k)" if "k < length ds"
  proof -
    have one: "glyphs_apart env st [ds ! k]" using ga(2) that by (simp add: glyphs_apart_def Let_def)
    have "prints env (ds @ []) st1 st2" using p(2) by simp
    then have "cell_shows st1 (ks_ram st2) (fg_color (ks_cursor st1)) (bg_color (ks_cursor st1))
        (unat (line (ks_cursor st1))) k (ds ! k)"
      using that by (intro prints_line [OF r1(1), where ds = "[]"] l1 c1(6) ga) (simp_all add: cur)
    then show ?thesis using c1(7) [OF one] by (simp add: cur(1))
  qed
  show "cell_shows st (ks_ram st2) ?fg ?bg (unat (line (ks_cursor b))) k (cs ! k)" if k: "k < length cs"
  proof -
    have one: "glyphs_apart env st [cs ! k]" using ga(1) k by (simp add: glyphs_apart_def Let_def)
    have "cell_shows b (ks_ram st1) ?fg ?bg (unat (line (ks_cursor b))) k (cs ! k)"
      using k l(1) by (intro prints_line [OF rb(1) p(1)] cb(6) ga) (simp_all add: cb(4) cur(3))
    then have "cell_shows st1 (ks_ram st1) ?fg ?bg (unat (line (ks_cursor b))) k (cs ! k)"
      using cb(7) [OF one] c1(7) [OF one] by simp
    moreover have "Suc k * ?w \<le> unat (pixels_per_scanline (framebuffer_at (ks_ram st) (fb_of st)))"
    proof -
      have "Suc k * ?w \<le> length cs * ?w" using k by (intro mult_le_mono1) simp
      moreover have "length cs * ?w < unat (pixels_per_scanline (framebuffer_at (ks_ram st) (fb_of st)))"
        using l(1) cur(3) by (simp add: line_fits_def)
      ultimately show ?thesis by linarith
    qed
    ultimately have "cell_shows st1 (ks_ram st2) ?fg ?bg (unat (line (ks_cursor b))) k (cs ! k)"
      using cur(2) by (intro prints_keeps_above [OF r1(1) p(2) l1]) (simp_all only: c1(1,2) cur(1), simp_all)
    then show ?thesis using c1(7) [OF one] by simp
  qed
qed

section \<open>Panic\<close>

lemma blue_screen_fields:
  "ks_ram (blue_screen st) = Framebuffer__set_all_pixels (fb_of st) BLUE (ks_ram st)"
  "ks_cursor (blue_screen st) = (ks_cursor st)\<lparr>ConsoleCursor.column := 0, line := 0,
     bg_color := ucast BLUE, fg_color := ucast WHITE\<rparr>"
  by (simp_all add: blue_screen_def Let_def ConsoleCursor__gotoxy_def
      ConsoleCursor__set_bg_color_def ConsoleCursor__set_fg_color_def)

lemma blue_screen_kept:
  assumes "print_ready env st"
  shows "kept env st (blue_screen st)"
proof -
  have "blue_screen st = set_screen (get_screen (blue_screen st)) st"
    by (simp add: blue_screen_def Let_def)
  moreover have "off_screen (fb_of st) (ks_ram st) (ks_ram (blue_screen st))"
    using assms unfolding blue_screen_fields
    by (intro set_all_off_screen) (simp add: print_ready_def console_ready_def)
  ultimately show ?thesis unfolding kept_def off_screen_def writable_def by blast
qed

text \<open>The formats of \<^verbatim>\<open>kpanic\<close>, and what they print.\<close>

abbreviation panic_line :: string where "panic_line \<equiv> ''Kernel panic!!! ''"
abbreviation error_format :: string where "error_format \<equiv> ''Error: %s''"
abbreviation error_line :: "u8 list \<Rightarrow> u8 list" where "error_line M \<equiv> chars ''Error: '' @ M"

lemma panic_formats:
  "fmt_out L False (chars (panic_line @ nl)) [] = Some (chars panic_line @ [10])"
  "fmt_strings False (chars (panic_line @ nl)) [] = {}"
  "fmt_out (\<lambda>_. M) False (chars error_format) [msg] = Some (error_line M)"
  "fmt_strings False (chars error_format) [msg] = {msg}"
  by simp_all

lemma kpanic_runs:
  assumes ready: "print_ready env st"
    and f1: "string_ready env st (literal env (panic_line @ nl)) (chars (panic_line @ nl))"
    and f2: "string_ready env st (literal env error_format) (chars error_format)"
    and msg: "string_ready env st msg M" "length M < 4000"
    and l0: "line_fits (ks_ram st) (fb_of st) (ks_console st) (chars panic_line)
      (ks_cursor (blue_screen st))"
    and l1: "line_fits (ks_ram st) (fb_of st) (ks_console st) (error_line M)
      ((ks_cursor (blue_screen st))\<lparr>line := 1\<rparr>)"
  obtains st1 st2 where "kpanic env msg st = Some st2" "kept env st st1" "kept env st st2"
    "prints env (chars panic_line @ [10]) (blue_screen st) st1"
    "prints env (error_line M) st1 st2"
    "ks_cursor st1 = (ks_cursor (blue_screen st))\<lparr>line := 1\<rparr>"
proof -
  let ?b = "blue_screen st" and ?fb = "fb_of st" and ?c = "ks_console st"
  have kb: "kept env st ?b" by (rule blue_screen_kept [OF ready])
  note rb = kept_ready [OF ready kb] and cb = kept_cells [OF ready kb]
  have cur0: "fold cursor_after (chars panic_line @ [10]) (ks_cursor ?b) = (ks_cursor ?b)\<lparr>line := 1\<rparr>"
    using line_cursor [OF l0]
    by (simp add: cursor_after_def ConsoleCursor__new_line_def blue_screen_fields(2))
  have fits0: "text_fits (ks_ram ?b) (fb_of ?b) (ks_console ?b) (chars panic_line @ [10]) (ks_cursor ?b)"
    unfolding cb(5) text_fits_append using line_fits_text [OF l0] by simp
  obtain st1 where s1: "printf env (literal env (panic_line @ nl)) [] ?b = Some st1"
      "prints env (chars panic_line @ [10]) ?b st1" "kept env ?b st1"
      "ks_cursor st1 = fold cursor_after (chars panic_line @ [10]) (ks_cursor ?b)"
    using fits0 by (rule printf_prints [OF rb(1) rb(3) [OF f1], where args = "[]"
        and out = "chars panic_line @ [10]" and L = "\<lambda>_. []", rotated 3])
      (simp_all only: panic_formats, simp_all)
  note k1 = kept_transitive [OF ready kb s1(3)]
  note r1 = kept_ready [OF ready k1] and c1 = kept_cells [OF ready k1]
  have fits1: "text_fits (ks_ram st1) (fb_of st1) (ks_console st1) (error_line M) (ks_cursor st1)"
    unfolding c1(5) s1(4) cur0 by (rule line_fits_text [OF l1])
  obtain st2 where s2: "printf env (literal env error_format) [msg] st1 = Some st2"
      "prints env (error_line M) st1 st2" "kept env st1 st2"
    using fits1 by (rule printf_prints [OF r1(1) r1(3) [OF f2], where args = "[msg]"
        and out = "error_line M" and L = "\<lambda>_. M", rotated 3])
      (use msg r1(3) in \<open>simp_all only: panic_formats, simp_all\<close>)
  show ?thesis
  proof (rule that [OF _ k1 kept_transitive [OF ready k1 s2(3)] s1(2) s2(2)])
    show "kpanic env msg st = Some st2" by (simp only: kpanic_def s1(1) s2(1) Option.bind.bind_lunit)
    show "ks_cursor st1 = (ks_cursor ?b)\<lparr>line := 1\<rparr>" unfolding s1(4) by (rule cur0)
  qed
qed

text \<open>The text \<open>cs\<close> stands in line \<open>ln\<close>, from the first column on.\<close>

definition text_shows :: "'d kstate \<Rightarrow> mem \<Rightarrow> u32 \<Rightarrow> u32 \<Rightarrow> nat \<Rightarrow> u8 list \<Rightarrow> bool" where
  "text_shows st m fg bg ln cs \<longleftrightarrow> (\<forall>k < length cs. cell_shows st m fg bg ln k (cs ! k))"

text \<open>Panic leaves its two lines on the screen.\<close>

lemma kpanic_two_lines:
  assumes "print_ready env st"
    and "string_ready env st (literal env (panic_line @ nl)) (chars (panic_line @ nl))"
    and "string_ready env st (literal env error_format) (chars error_format)"
    and "string_ready env st msg M" "length M < 4000"
    and "line_fits (ks_ram st) (fb_of st) (ks_console st) (chars panic_line)
      ((ks_cursor st)\<lparr>ConsoleCursor.column := 0, line := 0\<rparr>)"
    and "line_fits (ks_ram st) (fb_of st) (ks_console st) (error_line M)
      ((ks_cursor st)\<lparr>ConsoleCursor.column := 0, line := 1\<rparr>)"
    and "glyphs_apart env st (chars panic_line @ error_line M)"
  obtains st' where "kpanic env msg st = Some st'" "kept env st st'"
    "text_shows st (ks_ram st') (ucast WHITE) (ucast BLUE) 0 (chars panic_line)"
    "text_shows st (ks_ram st') (ucast WHITE) (ucast BLUE) 1 (error_line M)"
proof -
  let ?b = "blue_screen st"
  have l: "line_fits (ks_ram st) (fb_of st) (ks_console st) (chars panic_line) (ks_cursor ?b)"
    "line_fits (ks_ram st) (fb_of st) (ks_console st) (error_line M) ((ks_cursor ?b)\<lparr>line := 1\<rparr>)"
    using assms(6,7) by (simp_all add: blue_screen_fields(2) line_fits_def)
  obtain st1 st2 where s: "kpanic env msg st = Some st2" "kept env st st1" "kept env st st2"
    "prints env (chars panic_line @ [10]) ?b st1" "prints env (error_line M) st1 st2"
    "ks_cursor st1 = (ks_cursor ?b)\<lparr>line := 1\<rparr>"
    by (rule kpanic_runs [OF assms(1-5) l]) blast
  note two = two_lines_shown [OF assms(1) blue_screen_kept [OF assms(1)] s(2,4,5,6) _ _ l assms(8)]
  show ?thesis
    using two by (intro that [OF s(1,3)]) (simp_all add: text_shows_def blue_screen_fields(2))
qed

section \<open>A small kernel\<close>

text \<open>A screen of 64 by 4 pixels at \<open>0x100000\<close>, its structure at \<open>0x100\<close>; a font of one by two
  pixels, of which only the letter E has a bit; three formats and the message A.\<close>

definition message_layout :: layout where
  "message_layout = \<lparr>at_console = 0, at_pmem = 0, at_gdt = 0, at_PML4 = 0, at_idt = 0, at_cpu = 0,
     at_page_fault_handler = 0, at_divide_by_zero_handler = 0, printf_buf = 0x2000,
     printf_temp_buf = 0x4000,
     literal = (\<lambda>s. if s = panic_line @ nl then 0x700 else if s = error_format then 0x740
                   else if s = succ_format then 0x780 else 0), shift_width = 64\<rparr>"

definition message_data :: mem where
  "message_data = (\<lambda>_. 0)(0x102 := 0x10, 0x110 := 64, 0x112 := 4, 0x114 := 64, 0x116 := 4,
     0x201 := 3, 0x208 := 2, 0x209 := 1, 0x211 := 4, 0x303 := 2, 0x48a := 0x80, 0x7c0 := 65)"

definition message_ram :: mem where
  "message_ram = write_bytes 0x700 (chars (panic_line @ nl)) (write_bytes 0x740 (chars error_format)
     (write_bytes 0x780 (chars succ_format) message_data))"

definition message_kernel :: "unit kstate" where
  "message_kernel = \<lparr>ks_mem = \<lparr>ram = message_ram, pm = pm small_machine\<rparr>,
     ks_console = \<lparr>console_font = 0x200, console_framebuffer = 0x100, console_initialized = True\<rparr>,
     ks_cursor = initial_cursor, ks_idt = (\<lambda>_. read_IDT_entry 0),
     ks_regs = \<lparr>cr3 = 0, cr4 = 0, msrs = (\<lambda>_. 0), gdtr = (0, 0), idtr = (0, 0),
       code_segment = 0, data_segments = 0\<rparr>,
     ks_dev = (), ks_kernel = \<lparr>k_stack = 0, k_framebuffer = 0x100, k_memory = 0, k_acpi_rsdp = 0,
       k_console = 0, k_hpet_desc = 0, k_pmem = 0, k_gdt = 0, k_pml4 = 0, k_idt = 0, k_cpu = 0\<rparr>\<rparr>"

lemma message_kernel_simps [simp]:
  "ks_ram message_kernel = message_ram" "fb_of message_kernel = 0x100"
  "console_font (ks_console message_kernel) = 0x200" "ks_cursor message_kernel = initial_cursor"
  "printf_buf message_layout = 0x2000" "printf_temp_buf message_layout = 0x4000"
  by (simp_all add: message_kernel_def message_layout_def)

lemma message_ram_data: "unat x < 0x700 \<Longrightarrow> message_ram x = message_data x"
  by (auto simp: message_ram_def write_bytes_def region_def unat_sub_if')

lemma message_structures:
  "framebuffer_at message_ram 0x100 = \<lparr>base_address = 0x100000, buffer_size = 0, width = 64,
     height = 4, pixels_per_scanline = 64, bytes_per_pixel = 4\<rparr>"
  "font_at message_ram 0x200 = \<lparr>charsize = 2, glyph_height = 2, glyph_width = 1, glyph_buffer = 0x400\<rparr>"
  "load64 message_ram 0x200 = 0x300"
proof -
  let ?c = "\<lparr>console_font = 0x200, console_framebuffer = 0x100, console_initialized = True\<rparr>"
  have l: "load64 message_data 0x200 = 0x300" by code_simp
  have "message_ram x = message_data x" if "x \<in> console_reads message_data 0x100 ?c" for x
    using that by (intro message_ram_data) (auto simp: console_reads_def l region_interval)
  note same = console_same [of message_data "0x100" ?c message_ram, OF this]
  have "framebuffer_at message_data 0x100 = \<lparr>base_address = 0x100000, buffer_size = 0, width = 64,
     height = 4, pixels_per_scanline = 64, bytes_per_pixel = 4\<rparr>"
    "font_at message_data 0x200 = \<lparr>charsize = 2, glyph_height = 2, glyph_width = 1, glyph_buffer = 0x400\<rparr>"
    by code_simp+
  with same(1,3,4) l show
    "framebuffer_at message_ram 0x100 = \<lparr>base_address = 0x100000, buffer_size = 0, width = 64,
       height = 4, pixels_per_scanline = 64, bytes_per_pixel = 4\<rparr>"
    "font_at message_ram 0x200 = \<lparr>charsize = 2, glyph_height = 2, glyph_width = 1, glyph_buffer = 0x400\<rparr>"
    "load64 message_ram 0x200 = 0x300"
    by simp_all
qed

lemmas message_framebuffer = message_structures(1)
lemmas message_font = message_structures(2)

lemma message_area: "screen_area message_ram 0x100 = region 0x100000 1028"
  by (simp add: screen_area_def message_framebuffer fb_area_def)

lemma low_apart:
  assumes "unat a + n \<le> 0x1000"
  shows "region a n \<inter> region 0x100000 1028 = {}" "region a n \<inter> region 0x2000 4096 = {}"
    "region a n \<inter> region 0x4000 64 = {}"
  using assms by (intro regions_apart, simp_all)+

lemma low_writable:
  assumes "unat a + n \<le> 0x1000"
  shows "region a n \<inter> writable message_layout message_kernel = {}"
  using low_apart [OF assms] by (simp add: writable_def message_area Int_Un_distrib)

lemma message_ready: "print_ready message_layout message_kernel"
proof -
  have l: "load64 message_ram 0x200 + 3 = 0x303" by (simp add: message_structures)
  have "region 0x303 1 \<inter> region 0x100000 1028 = {}" by (rule low_apart) simp
  then show ?thesis
    using low_apart [of "0x100" 24] low_apart [of "0x200" 24] low_apart [of "0x303" 1]
      regions_apart [of "0x2000" 4096 "0x4000" 64] regions_apart [of "0x2000" 4096 "0x100000" 1028]
      regions_apart [of "0x4000" 64 "0x100000" 1028]
    by (simp add: print_ready_def console_ready_def buffers_apart_def fb_ready_def message_framebuffer
        message_area l fb_area_def region_iff Int_Un_distrib Int_Un_distrib2 Int_commute)
qed

lemma cstr_written:
  assumes "0 \<notin> set s" "length s < 2 ^ 63" "m (a + word_of_nat (length s)) = 0"
  shows "cstr (write_bytes a s m) a s"
  using assms by (simp add: cstr_def write_bytes_def region_def unat_of_nat_small)

lemma message_strings:
  "string_ready message_layout message_kernel (literal message_layout (panic_line @ nl)) (chars (panic_line @ nl))"
  "string_ready message_layout message_kernel (literal message_layout error_format) (chars error_format)"
  "string_ready message_layout message_kernel (literal message_layout succ_format) (chars succ_format)"
  "string_ready message_layout message_kernel 0x7c0 [65]"
proof -
  have s: "string_ready message_layout message_kernel a s"
    if "cstr message_ram a s" "unat a + Suc (length s) \<le> 0x1000" for a s
    using that low_writable [OF that(2)] by (simp add: string_ready_def)
  have far: "cstr (write_bytes b t m) a s = cstr m a s"
    if "region b (length t) \<inter> region a (Suc (length s)) = {}" "length s < 2 ^ 63" for a b s t m
  proof -
    have "write_bytes b t m x = m x" if "x \<in> region a (Suc (length s))" for x
      using that \<open>region b (length t) \<inter> region a (Suc (length s)) = {}\<close>
      by (auto simp: write_bytes_def)
    then show ?thesis using that(2) by (metis cstr_cong)
  qed
  have c: "cstr message_ram 0x700 (chars (panic_line @ nl))" "cstr message_ram 0x740 (chars error_format)"
    "cstr message_ram 0x780 (chars succ_format)" "cstr message_ram 0x7c0 [65]"
  proof -
    have apart: "region a n \<inter> region b k = {}" if "unat a + n \<le> unat b" "unat b + k \<le> 0x1000"
      for a b :: ptr and n k
      using that by (intro regions_apart) simp_all
    note out = write_bytes_def region_def message_data_def
    show "cstr message_ram 0x700 (chars (panic_line @ nl))"
      unfolding message_ram_def by (rule cstr_written) (simp_all add: out)
    show "cstr message_ram 0x740 (chars error_format)"
      unfolding message_ram_def
      by (subst far, rule apart, simp, simp, simp) (rule cstr_written, simp_all add: out)
    show "cstr message_ram 0x780 (chars succ_format)"
      unfolding message_ram_def
      by (subst far, rule apart, simp, simp, simp, subst far, rule apart, simp, simp, simp)
        (rule cstr_written, simp_all add: out)
    show "cstr message_ram 0x7c0 [65]"
      unfolding message_ram_def cstr_def by (simp add: out)
  qed
  have a: "literal message_layout (panic_line @ nl) = 0x700" "literal message_layout error_format = 0x740"
    "literal message_layout succ_format = 0x780"
    by (simp_all add: message_layout_def)
  show "string_ready message_layout message_kernel (literal message_layout (panic_line @ nl)) (chars (panic_line @ nl))"
    unfolding a by (rule s [OF c(1)]) simp
  show "string_ready message_layout message_kernel (literal message_layout error_format) (chars error_format)"
    unfolding a by (rule s [OF c(2)]) simp
  show "string_ready message_layout message_kernel (literal message_layout succ_format) (chars succ_format)"
    unfolding a by (rule s [OF c(3)]) simp
  show "string_ready message_layout message_kernel 0x7c0 [65]"
    by (rule s [OF c(4)]) simp
qed

lemma ascii_glyph:
  fixes b :: ptr and k :: u8
  assumes "(c :: u8) < 128" "unat b + 128 * unat k < 2 ^ 64"
  shows "unat (b + scast (ucast (scast c :: u16) * ucast k :: u32)) = unat b + unat c * unat k"
proof -
  have b: "unat c < 128" using assms(1) by (simp add: word_less_nat_alt)
  have "\<not> bit c 7"
  proof
    assume "bit c 7"
    then have "bit (unat c) 7" by (simp add: bit_unsigned_iff)
    then have "odd (unat c div 128)" by (simp add: bit_iff_odd)
    with b show False by simp
  qed
  have "(scast c :: u16) = ucast c"
  proof -
    have "bit (scast c :: u16) n = bit (ucast c :: u16) n" if "n < LENGTH(16)" for n
    proof -
      have "\<not> bit c n" if "7 \<le> n"
        using that \<open>\<not> bit c 7\<close> bit_imp_le_length [of c n] by (cases "n = 7") auto
      then show ?thesis using that \<open>\<not> bit c 7\<close> by (cases "n < 7") (auto simp: bit_simps min_def)
    qed
    then show ?thesis by (rule bit_word_eqI)
  qed
  moreover have kc: "unat c * unat k \<le> 128 * unat k" using b by (intro mult_le_mono1) simp
  moreover have p: "unat c * unat k < 2 ^ 15" using mult_le_mono [of "unat c" 127 "unat k" 255] b unat_less_exp [of k] by simp
  ultimately have u: "unat (ucast (scast c :: u16) * ucast k :: u32) = unat c * unat k"
    by (simp add: unat_word_ariths unat_ucast_up)
  have "(scast (ucast (scast c :: u16) * ucast k :: u32) :: ptr) = word_of_nat (unat c * unat k)"
    using scast_small [of "ucast (scast c :: u16) * ucast k"] p unfolding u by simp
  moreover have "unat (word_of_nat (unat c * unat k) :: ptr) = unat c * unat k"
    by (rule unat_of_nat_small) (use p in simp)
  moreover have "unat b + unat c * unat k < 2 ^ LENGTH(64)"
    using le_less_trans [OF add_left_mono [OF kc] assms(2)] by simp
  ultimately show ?thesis by (simp only: unat_word_ariths mod_less)
qed

lemma message_lines:
  assumes "cs \<in> {chars panic_line, error_line [65], chars ''[+] Kernel success: '' @ [65, 32]}"
    "unat (line cur) < 2" "ConsoleCursor.column cur = 0" "max_columns cur = 100"
  shows "line_fits message_ram 0x100 (ks_console message_kernel) cs cur"
    and "glyphs_apart message_layout message_kernel cs"
proof -
  let ?g = "\<lambda>c :: u8. 0x400 + scast (ucast (scast c :: u16) * ucast (2 :: u8) :: u32) :: ptr"
  have l: "length cs < 25" and c: "\<forall>c \<in> set cs. c \<noteq> 9 \<and> c \<noteq> 10 \<and> c < 128"
    using assms(1) by auto
  have g: "\<forall>c \<in> set cs. c \<noteq> 9 \<and> c \<noteq> 10 \<and> unat (?g c) + 2 \<le> 0x1000"
  proof
    fix x assume "x \<in> set cs"
    with c have x: "x \<noteq> 9" "x \<noteq> 10" "x < 128" by blast+
    moreover have "unat x < 128" using x(3) by (simp add: word_less_nat_alt)
    ultimately show "x \<noteq> 9 \<and> x \<noteq> 10 \<and> unat (?g x) + 2 \<le> 0x1000"
      using ascii_glyph [OF x(3), of "0x400" 2] by simp
  qed
  have "console_ready message_ram 0x100 (ks_console message_kernel)"
    using message_ready by (simp add: print_ready_def)
  then show "line_fits message_ram 0x100 (ks_console message_kernel) cs cur"
    using l g low_apart(1) assms(2-4)
    by (simp add: line_fits_def message_font message_framebuffer message_area)
  show "glyphs_apart message_layout message_kernel cs"
    using g low_writable by (simp add: glyphs_apart_def message_font char_glyph_def)
qed

section \<open>Properties\<close>

text \<open>C26. The messages of the kernel (kutils.c, cpu.c): \<^verbatim>\<open>kprint_err\<close>, \<^verbatim>\<open>kprint_succ\<close>,
  \<^verbatim>\<open>kprint_info\<close> and \<^verbatim>\<open>_print_cpu_err\<close> return, having printed exactly their prefix, the message,
  a blank and the end of the line; nothing but the cursor, the framebuffer and the two buffers of
  \<^verbatim>\<open>Console__printf\<close> has changed, and the console can print again.\<close>

theorem kernel_messages:
  assumes "(message, prefix) \<in> {(kprint_err env, ''[!] Kernel error: ''),
      (kprint_succ env, ''[+] Kernel success: ''), (kprint_info env, ''[*] Kernel info: ''),
      (print_cpu_err env, ''[!] CPU error: '')}"
    and "print_ready env st" "string_ready env st msg M" "length M < 4000"
    and "string_ready env st (literal env (prefix @ ''%s '' @ nl)) (chars (prefix @ ''%s '' @ nl))"
    and "text_fits (ks_ram st) (fb_of st) (ks_console st) (chars prefix @ M @ [32, 10]) (ks_cursor st)"
  shows "\<exists>st'. message msg st = Some st' \<and> prints env (chars prefix @ M @ [32, 10]) st st'
    \<and> kept env st st' \<and> print_ready env st'"
proof -
  let ?fmt = "prefix @ ''%s '' @ nl" and ?out = "chars prefix @ M @ [32, 10]"
  have m: "message msg = printf env (literal env ?fmt) [msg]"
    and o: "fmt_out (\<lambda>_. M) False (chars ?fmt) [msg] = Some ?out" "length ?out < 4096"
    and s: "fmt_strings False (chars ?fmt) [msg] = {msg}"
    using assms(1,4) by (auto simp: kprint_err_def kprint_succ_def kprint_info_def print_cpu_err_def)
  obtain st' where st': "printf env (literal env ?fmt) [msg] st = Some st'" "prints env ?out st st'"
      "kept env st st'"
    by (rule printf_prints [OF assms(2,5) _ o assms(6)]) (use assms(3) in \<open>simp_all only: s, simp_all\<close>)
  with kept_ready(1) [OF assms(2) st'(3)] m show ?thesis by auto
qed

theorem kernel_messages_witness:
  "\<exists>st'. kprint_succ message_layout 0x7c0 message_kernel = Some st'
    \<and> prints message_layout (chars ''[+] Kernel success: '' @ [65] @ [32, 10]) message_kernel st'"
proof -
  let ?t = "chars ''[+] Kernel success: '' @ [65, 32]"
  have "line_fits message_ram 0x100 (ks_console message_kernel) ?t initial_cursor"
    by (rule message_lines) (simp_all add: initial_cursor_def)
  from line_fits_text [OF this]
  have "text_fits message_ram 0x100 (ks_console message_kernel) (?t @ [10]) initial_cursor"
    unfolding text_fits_append by (rule conjI) simp
  moreover have "?t @ [10] = chars ''[+] Kernel success: '' @ [65] @ [32, 10]" by simp
  ultimately have fits: "text_fits (ks_ram message_kernel) (fb_of message_kernel) (ks_console message_kernel)
      (chars ''[+] Kernel success: '' @ [65] @ [32, 10]) (ks_cursor message_kernel)"
    by (simp only: message_kernel_simps)
  have fmt: "string_ready message_layout message_kernel
      (literal message_layout (''[+] Kernel success: '' @ ''%s '' @ nl)) (chars (''[+] Kernel success: '' @ ''%s '' @ nl))"
    using message_strings(3) by simp
  have "(kprint_succ message_layout, ''[+] Kernel success: '') \<in> {(kprint_err message_layout, ''[!] Kernel error: ''),
      (kprint_succ message_layout, ''[+] Kernel success: ''), (kprint_info message_layout, ''[*] Kernel info: ''),
      (print_cpu_err message_layout, ''[!] CPU error: '')}" by blast
  from kernel_messages [OF this message_ready message_strings(4) _ fmt fits] show ?thesis by auto
qed

text \<open>C17. \<^verbatim>\<open>kpanic\<close> (kutils.c) returns with its two lines on the screen, in white on blue: on the first
  \<^verbatim>\<open>Kernel panic!!!\<close>, on the second \<^verbatim>\<open>Error:\<close> and the message, every cell of them as the font has
  it, whatever the screen showed before; nothing but the cursor, the framebuffer and the two
  buffers of \<^verbatim>\<open>Console__printf\<close> has changed.\<close>

theorem kpanic_shows:
  assumes "print_ready env st"
    and "string_ready env st (literal env (panic_line @ nl)) (chars (panic_line @ nl))"
    and "string_ready env st (literal env error_format) (chars error_format)"
    and "string_ready env st msg M" "length M < 4000"
    and "line_fits (ks_ram st) (fb_of st) (ks_console st) (chars panic_line)
      ((ks_cursor st)\<lparr>ConsoleCursor.column := 0, line := 0\<rparr>)"
    and "line_fits (ks_ram st) (fb_of st) (ks_console st) (error_line M)
      ((ks_cursor st)\<lparr>ConsoleCursor.column := 0, line := 1\<rparr>)"
    and "glyphs_apart env st (chars panic_line @ error_line M)"
  shows "\<exists>st'. kpanic env msg st = Some st' \<and> kept env st st'
    \<and> (\<forall>k < length panic_line.
        cell_shows st (ks_ram st') (ucast WHITE) (ucast BLUE) 0 k (chars panic_line ! k))
    \<and> (\<forall>k < length (error_line M).
        cell_shows st (ks_ram st') (ucast WHITE) (ucast BLUE) 1 k (error_line M ! k))"
  by (rule kpanic_two_lines [OF assms], rule exI, intro conjI) (simp_all only: text_shows_def length_map simp_thms)

theorem kpanic_shows_witness:
  "\<exists>st'. kpanic message_layout 0x7c0 message_kernel = Some st'
    \<and> pix 0x100000 (ks_ram st') 128 = ucast WHITE \<and> pix 0x100000 (ks_ram st') 192 = ucast BLUE"
proof -
  let ?e = "error_line [65]"
  have g: "glyphs_apart message_layout message_kernel (chars panic_line @ ?e)"
    using message_lines(2) [of "chars panic_line" initial_cursor]
      message_lines(2) [of ?e initial_cursor]
    unfolding glyphs_apart_def Let_def by (simp add: initial_cursor_def)
  have "line_fits message_ram 0x100 (ks_console message_kernel) (chars panic_line)
      (initial_cursor\<lparr>ConsoleCursor.column := 0, line := 0\<rparr>)"
    "line_fits message_ram 0x100 (ks_console message_kernel) ?e
      (initial_cursor\<lparr>ConsoleCursor.column := 0, line := 1\<rparr>)"
    by (rule message_lines; simp add: initial_cursor_def)+
  then obtain st' where st': "kpanic message_layout 0x7c0 message_kernel = Some st'"
    and c: "\<forall>k < length ?e. cell_shows message_kernel (ks_ram st') (ucast WHITE) (ucast BLUE) 1 k (?e ! k)"
    using kpanic_shows [OF message_ready message_strings(1,2,4) _ _ _ g] by auto
  let ?g = "char_glyph (font_at message_ram 0x200)
    (initial_cursor\<lparr>fg_color := ucast WHITE, bg_color := ucast BLUE\<rparr>) (scast (69 :: u8))"
  have cell: "pix 0x100000 (ks_ram st') (cell_pixel message_ram 0x100 (ks_console message_kernel) 1 0 0 y)
      = glyph_color message_ram ?g y 0" if "y < 2" for y
    using c [rule_format, of 0] that
    by (simp add: cell_shows_def message_framebuffer message_font)
  have p: "cell_pixel message_ram 0x100 (ks_console message_kernel) 1 0 0 0 = 128"
    "cell_pixel message_ram 0x100 (ks_console message_kernel) 1 0 0 1 = 192"
    by (simp_all add: cell_pixel_def pixel_no_def message_framebuffer message_font)
  have b: "g_bitmap ?g = 0x48a" "message_ram 0x48a = 0x80" "message_ram 0x48b = 0"
    by (simp_all add: char_glyph_def message_font message_ram_data message_data_def)
  have "glyph_color message_ram ?g 0 0 = ucast WHITE" "glyph_color message_ram ?g 1 0 = ucast BLUE"
    using b by (simp_all add: glyph_color_def) (simp_all add: char_glyph_def)
  with st' cell [of 0] cell [of 1] p show ?thesis by auto
qed

end
