(* ===== verification/Boot_Text.thy ===== *)
theory Boot_Text
  imports Kernel Messages
begin

text \<open>
  What the kernel prints while it boots (\<^verbatim>\<open>src/src/kernel.c\<close>, \<^verbatim>\<open>src/src/kutils.c\<close>): every message is
  one line of the screen, so that a number of lines bounds what a part of the boot prints.
\<close>

unbundle bit_operations_syntax

section \<open>A line with tabs\<close>

definition plain_char :: "u8 \<Rightarrow> bool" where
  "plain_char c \<longleftrightarrow> c < 128 \<and> c \<noteq> 9 \<and> c \<noteq> 10"

text \<open>A tab is three blanks wide.\<close>

definition text_width :: "u8 list \<Rightarrow> nat" where
  "text_width cs = sum_list (map (\<lambda>c. if c = 9 then 3 else 1) cs)"

lemma text_width_simps [simp]:
  "text_width [] = 0" "text_width (c # cs) = (if c = 9 then 3 else 1) + text_width cs"
  "text_width (cs @ ds) = text_width cs + text_width ds"
  by (simp_all add: text_width_def)

lemma text_width_plain: "\<forall>c \<in> set cs. plain_char c \<Longrightarrow> text_width cs = length cs"
  by (induction cs) (simp_all add: plain_char_def)

lemma length_text_width: "length cs \<le> text_width cs"
  by (induction cs) auto

text \<open>The whole grid of 37 lines of 100 characters is on the screen, and the glyphs are apart from it.\<close>

definition grid_shown :: "mem \<Rightarrow> ptr \<Rightarrow> Console \<Rightarrow> bool" where
  "grid_shown m fb self \<longleftrightarrow>
     (let font = font_at m (console_font self); f = framebuffer_at m fb; w = unat (glyph_width font)
      in console_ready m fb self \<and> 0 < w \<and> 100 * w \<le> unat (pixels_per_scanline f)
        \<and> 37 * unat (glyph_height font) \<le> unat (height f)
        \<and> (\<forall>c :: u8. c < 128 \<longrightarrow> region (g_bitmap (char_glyph font initial_cursor (scast c)))
             (unat (glyph_height font)) \<inter> screen_area m fb = {}))"

definition on_grid :: "nat \<Rightarrow> ConsoleCursor \<Rightarrow> bool" where
  "on_grid k cur \<longleftrightarrow> ConsoleCursor.column cur = 0 \<and> unat (line cur) = k \<and> k \<le> 37
     \<and> max_lines cur = 37 \<and> max_columns cur = 100"

lemma grid_char:
  assumes "grid_shown m fb self" "plain_char c" "unat (line cur) < 37" "max_columns cur = 100"
    and "unat (ConsoleCursor.column cur) + 1 < 100"
  shows "line_fits m fb self [c] cur"
proof -
  define w where "w = unat (glyph_width (font_at m (console_font self)))"
  define h where "h = unat (glyph_height (font_at m (console_font self)))"
  have g: "0 < w" "100 * w \<le> unat (pixels_per_scanline (framebuffer_at m fb))"
    "37 * h \<le> unat (height (framebuffer_at m fb))"
    using assms(1) by (simp_all add: grid_shown_def Let_def w_def h_def)
  have "(unat (ConsoleCursor.column cur) + 1) * w < 100 * w"
    using assms(5) g(1) by (intro mult_less_mono1)
  with g(2) have x: "(unat (ConsoleCursor.column cur) + 1) * w
      < unat (pixels_per_scanline (framebuffer_at m fb))" by (rule order_less_le_trans [rotated])
  have "(unat (line cur) + 1) * h \<le> 37 * h" using assms(3) by (intro mult_le_mono1) simp
  with g(3) have y: "(unat (line cur) + 1) * h \<le> unat (height (framebuffer_at m fb))" by linarith
  show ?thesis
    using assms x y by (simp add: line_fits_def grid_shown_def Let_def plain_char_def char_glyph_def
        w_def [symmetric] h_def [symmetric])
qed

lemma next_inside:
  assumes "unat (ConsoleCursor.column cur) + 1 < unat (max_columns cur)"
  shows "ConsoleCursor__next cur = cur\<lparr>ConsoleCursor.column := ConsoleCursor.column cur + 1\<rparr>"
    and "unat (ConsoleCursor.column cur + 1) = unat (ConsoleCursor.column cur) + 1"
proof -
  have "unat (ConsoleCursor.column cur) + 1 \<noteq> unat (max_columns cur)" using assms by simp
  then show "ConsoleCursor__next cur = cur\<lparr>ConsoleCursor.column := ConsoleCursor.column cur + 1\<rparr>"
    unfolding column_wraps [symmetric] by (simp add: ConsoleCursor__next_def)
  show "unat (ConsoleCursor.column cur + 1) = unat (ConsoleCursor.column cur) + 1"
    using assms by (intro trans [OF unat_Suc_less [of _ "max_columns cur"]]) (simp_all add: word_less_nat_alt)
qed

lemma tab_inside:
  assumes "unat (ConsoleCursor.column cur) + 3 < unat (max_columns cur)"
  shows "cursor_after 9 cur = cur\<lparr>ConsoleCursor.column := ConsoleCursor.column cur + 3\<rparr>"
    and "unat (ConsoleCursor.column cur + 3) = unat (ConsoleCursor.column cur) + 3"
proof -
  let ?c1 = "cur\<lparr>ConsoleCursor.column := ConsoleCursor.column cur + 1\<rparr>"
  let ?c2 = "cur\<lparr>ConsoleCursor.column := ConsoleCursor.column cur + 1 + 1\<rparr>"
  have n1: "unat (ConsoleCursor.column cur + 1) = unat (ConsoleCursor.column cur) + 1"
    using next_inside(2) [of cur] assms by simp
  then have n2: "unat (ConsoleCursor.column cur + 1 + 1) = unat (ConsoleCursor.column cur) + 2"
    using next_inside(2) [of ?c1] assms by simp
  have a: "ConsoleCursor.column cur + 1 + 1 + 1 = ConsoleCursor.column cur + 3" by simp
  show "unat (ConsoleCursor.column cur + 3) = unat (ConsoleCursor.column cur) + 3"
    using next_inside(2) [of ?c2] assms n2 by (simp only: a [symmetric]) simp
  show "cursor_after 9 cur = cur\<lparr>ConsoleCursor.column := ConsoleCursor.column cur + 3\<rparr>"
    using next_inside(1) [of cur] next_inside(1) [of ?c1] next_inside(1) [of ?c2] assms n1 n2
    by (simp add: cursor_after_def)
qed

lemma grid_text:
  assumes "grid_shown m fb self" "\<forall>c \<in> set cs. c = 9 \<or> plain_char c"
    and "unat (line cur) < 37" "max_columns cur = 100"
    and "unat (ConsoleCursor.column cur) + text_width cs < 100"
  shows "text_fits m fb self cs cur
    \<and> (\<exists>k. fold cursor_after cs cur = cur\<lparr>ConsoleCursor.column := k\<rparr>)"
  using assms(2-)
proof (induction cs arbitrary: cur)
  case Nil
  show ?case by (auto intro!: exI [of _ "ConsoleCursor.column cur"])
next
  case (Cons c cs)
  show ?case
  proof (cases "c = 9")
    case True
    then have "unat (ConsoleCursor.column cur) + 3 < unat (max_columns cur)" using Cons.prems by simp
    note t = tab_inside [OF this]
    from Cons.IH [of "cur\<lparr>ConsoleCursor.column := ConsoleCursor.column cur + 3\<rparr>"] Cons.prems True t
    show ?thesis by simp
  next
    case False
    then have "line_fits m fb self [c] cur"
      using Cons.prems by (intro grid_char [OF assms(1)]) simp_all
    note f = line_fits_Cons [OF this]
    from Cons.IH [of "cur\<lparr>ConsoleCursor.column := ConsoleCursor.column cur + 1\<rparr>"] Cons.prems False f
    show ?thesis by simp
  qed
qed

lemma grid_line:
  assumes "grid_shown m fb self" "on_grid k cur" "k < 37"
    and "\<forall>c \<in> set cs. c = 9 \<or> plain_char c" "text_width cs < 100"
  shows "text_fits m fb self (cs @ [10]) cur" "on_grid (Suc k) (fold cursor_after (cs @ [10]) cur)"
proof -
  have cur: "unat (line cur) < 37" "max_columns cur = 100" "ConsoleCursor.column cur = 0"
    using assms(2,3) by (simp_all add: on_grid_def)
  have "unat (ConsoleCursor.column cur) + text_width cs < 100" using assms(5) cur(3) by simp
  note t = grid_text [OF assms(1,4) cur(1,2) this]
  then show "text_fits m fb self (cs @ [10]) cur" by (simp add: text_fits_append)
  have "unat (line cur + 1) = Suc (unat (line cur))"
    using cur(1) by (intro unat_Suc_less [of _ 37]) (simp add: word_less_nat_alt)
  then show "on_grid (Suc k) (fold cursor_after (cs @ [10]) cur)"
    using t assms(2,3) by (auto simp: on_grid_def cursor_after_def ConsoleCursor__new_line_def)
qed

section \<open>Parts of the boot that print lines\<close>

definition string_formats :: "string list" where
  "string_formats = [err_format, succ_format, info_format, cpu_err_format,
     tab @ '' - manufacturer:   %s '' @ nl, tab @ '' - brand:          %s '' @ nl]"

definition number_formats :: "string list" where
  "number_formats = [tab @ '' - stepping id:    %d '' @ nl, tab @ '' - family id:      %d '' @ nl,
     tab @ '' - model id:       %d '' @ nl, tab @ '' - type:           %d '' @ nl,
     tab @ '' - logical cores:  %d '' @ nl, tab @ '' - physical cores: %d '' @ nl,
     tab @ '' - hyperthreading: %d '' @ nl, tab @ '' size of array: %dMB '' @ nl,
     ''LAPIC ID     : %d '' @ nl, ''APIC version : %d '' @ nl, ''HPET timers  : %d '' @ nl,
     ''HPET enabled : %d '' @ nl, ''HPET counter : %d '' @ nl, ''Comparator: %d '' @ nl]"

definition frame_formats :: "string list" where
  "frame_formats = [tab @ '' free: frames = %d, memory = %dMB '' @ nl,
     tab @ '' locked: frames = %d, memory = %dMB '' @ nl,
     tab @ '' reserved: frames = %d, memory = %dMB '' @ nl]"

definition boot_messages :: "string list" where
  "boot_messages = [''no long mode detected'', ''no FPU detected'', ''no APIC detected'',
     ''no MSRs detected'', ''undefined status detected'', ''CPU state error'', ''CPU state correct'',
     ''CPU info:'', ''Physical memory initalization success'', ''physical memory info:'',
     ''GDT initalization success'', ''HPET initialization success'',
     ''4-level paging initialization success'', ''IDT initialization success'', ''ACPI 1.0 detected'',
     ''ACPI 2.0 detected'', ''unknown version of ACPI detected'']"

definition boot_strings :: "string list" where
  "boot_strings = string_formats @ number_formats @ frame_formats @ boot_messages"

text \<open>The console is ready for line \<open>k\<close>, and the texts of the boot are in memory.\<close>

definition printer :: "layout \<Rightarrow> nat \<Rightarrow> 'd kstate \<Rightarrow> bool" where
  "printer env k st \<longleftrightarrow> print_ready env st \<and> grid_shown (ks_ram st) (fb_of st) (ks_console st)
     \<and> on_grid k (ks_cursor st)
     \<and> (\<forall>s \<in> set boot_strings. string_ready env st (literal env s) (chars s))"

text \<open>The memory printing relies on.\<close>

definition printer_space :: "layout \<Rightarrow> 'd kstate \<Rightarrow> ptr set" where
  "printer_space env st = console_reads (ks_ram st) (fb_of st) (ks_console st)
     \<union> (\<Union>s \<in> set boot_strings. region (literal env s) (Suc (length s)))"

text \<open>Only the cursor, the devices, the framebuffer and the buffers of \<^verbatim>\<open>Console__printf\<close> may change.\<close>

definition quiet :: "layout \<Rightarrow> 'd kstate \<Rightarrow> 'd kstate \<Rightarrow> bool" where
  "quiet env st st' \<longleftrightarrow> ks_console st' = ks_console st \<and> ks_kernel st' = ks_kernel st
     \<and> ks_regs st' = ks_regs st \<and> ks_idt st' = ks_idt st \<and> ks_pm st' = ks_pm st
     \<and> writable env st' = writable env st
     \<and> (\<forall>x. x \<notin> writable env st \<longrightarrow> ks_ram st' x = ks_ram st x)"

text \<open>A part of the boot, begun in \<open>st\<close> with the result \<open>r\<close>, that prints \<open>n\<close> lines and changes no more.\<close>

definition prints_lines :: "layout \<Rightarrow> nat \<Rightarrow> 'd kstate \<Rightarrow> 'd kstate option \<Rightarrow> bool" where
  "prints_lines env n st r \<longleftrightarrow> (\<forall>k. printer env k st \<longrightarrow> k + n \<le> 37 \<longrightarrow>
     (\<exists>st'. r = Some st' \<and> quiet env st st' \<and> printer env (k + n) st'))"

lemma quiet_refl: "quiet env st st"
  by (simp add: quiet_def)

lemma quiet_trans: "quiet env st st1 \<Longrightarrow> quiet env st1 st2 \<Longrightarrow> quiet env st st2"
  by (simp add: quiet_def)

lemma kept_quiet:
  assumes "print_ready env st" "kept env st st'"
  shows "quiet env st st'"
  using kept_fields [OF assms(2)] kept_ready(2) [OF assms] keptD [OF assms(2)]
  by (simp add: quiet_def)

lemma prints_linesD:
  assumes "prints_lines env n st r" "printer env k st" "k + n \<le> 37"
  obtains st' where "r = Some st'" "quiet env st st'" "printer env (k + n) st'"
  using assms unfolding prints_lines_def by blast

lemma prints_lines_number: "prints_lines env n st r \<Longrightarrow> n = m \<Longrightarrow> prints_lines env m st r"
  by simp

lemma prints_lines_bind:
  assumes "prints_lines env n st r" "\<And>st'. quiet env st st' \<Longrightarrow> prints_lines env m st' (g st')"
  shows "prints_lines env (n + m) st (r \<bind> g)"
  unfolding prints_lines_def
proof (intro allI impI)
  fix k assume "printer env k st" "k + (n + m) \<le> 37"
  then have k: "printer env k st" "k + n \<le> 37" "k + n + m \<le> 37" by simp_all
  obtain st1 where 1: "r = Some st1" "quiet env st st1" "printer env (k + n) st1"
    by (rule prints_linesD [OF assms(1) k(1,2)])
  obtain st2 where "g st1 = Some st2" "quiet env st1 st2" "printer env (k + n + m) st2"
    by (rule prints_linesD [OF assms(2) [OF 1(2)] 1(3) k(3)])
  with 1 quiet_trans show "\<exists>st'. (r \<bind> g) = Some st' \<and> quiet env st st' \<and> printer env (k + (n + m)) st'"
    by (auto simp: add.assoc)
qed

text \<open>Changes elsewhere leave the printer as it is.\<close>

lemma printer_same:
  assumes "printer env k st" "ks_console st' = ks_console st" "fb_of st' = fb_of st"
    and "ks_cursor st' = ks_cursor st"
    and ram: "\<And>x. x \<in> printer_space env st \<Longrightarrow> ks_ram st' x = ks_ram st x"
  shows "printer env k st'" "writable env st' = writable env st" "printer_space env st' = printer_space env st"
proof -
  note same = console_same [of "ks_ram st" "fb_of st" "ks_console st" "ks_ram st'"]
  have r: "ks_ram st' x = ks_ram st x" if "x \<in> console_reads (ks_ram st) (fb_of st) (ks_console st)" for x
    using that by (intro ram) (simp add: printer_space_def)
  note s = same [OF r]
  show w: "writable env st' = writable env st" by (simp add: writable_def assms(3) s(2))
  show "printer_space env st' = printer_space env st"
    using s(3) by (simp add: printer_space_def console_reads_def assms(2,3))
  have "string_ready env st' (literal env t) (chars t)" if t: "t \<in> set boot_strings" for t
  proof -
    have t0: "string_ready env st (literal env t) (chars t)" using assms(1) t by (simp add: printer_def)
    have "cstr (ks_ram st') (literal env t) (chars t)"
    proof (rule cstr_cong)
      show "cstr (ks_ram st) (literal env t) (chars t)" "length (chars t) < 2 ^ 63"
        using t0 by (simp_all add: string_ready_def)
      fix x assume "x \<in> region (literal env t) (Suc (length (chars t)))"
      with t show "ks_ram st' x = ks_ram st x" by (intro ram) (auto simp: printer_space_def)
    qed
    with t0 show ?thesis by (simp add: string_ready_def w)
  qed
  moreover have "print_ready env st'"
    using assms(1) by (simp add: printer_def print_ready_def buffers_apart_def assms(2,3) s(2,3,5))
  moreover have "grid_shown (ks_ram st') (fb_of st') (ks_console st')"
    using assms(1) by (simp add: printer_def grid_shown_def assms(2,3) s(1,2,4,5))
  ultimately show "printer env k st'" using assms(1,4) by (simp add: printer_def)
qed

lemma printer_after:
  assumes "printer env k st" "kept env st st'" "on_grid j (ks_cursor st')"
  shows "printer env j st'"
proof -
  have r: "print_ready env st" using assms(1) by (simp add: printer_def)
  note kr = kept_ready [OF r assms(2)] and kc = kept_cells [OF r assms(2)]
  have "console_ready (ks_ram st') (fb_of st') (ks_console st')" using kr(1) by (simp add: print_ready_def)
  moreover have "screen_area (ks_ram st') (fb_of st') = screen_area (ks_ram st) (fb_of st)"
    using kc(2) by (simp add: screen_area_def)
  ultimately have "grid_shown (ks_ram st') (fb_of st') (ks_console st')"
    using assms(1) kc(1,2) by (simp add: printer_def grid_shown_def Let_def)
  with assms kr show ?thesis by (simp add: printer_def)
qed

section \<open>One line\<close>

lemma line_printed:
  assumes fmt: "fmt \<in> set boot_strings" and args: "\<And>a k. printer env k st \<Longrightarrow>
      a \<in> fmt_strings False (chars fmt) args \<Longrightarrow> string_ready env st a (L a)"
    and out: "fmt_out L False (chars fmt) args = Some (cs @ [10])"
    and cs: "\<forall>c \<in> set cs. c = 9 \<or> plain_char c" "text_width cs < 100"
  shows "prints_lines env 1 st (printf env (literal env fmt) args st)"
  unfolding prints_lines_def
proof (intro allI impI)
  fix k assume p: "printer env k st" "k + 1 \<le> 37"
  then have r: "print_ready env st" and f: "string_ready env st (literal env fmt) (chars fmt)"
    and g: "grid_shown (ks_ram st) (fb_of st) (ks_console st)" "on_grid k (ks_cursor st)"
    using fmt by (auto simp: printer_def)
  note gl = grid_line [OF g _ cs]
  have "length (cs @ [10]) < 4096" using length_text_width [of cs] cs(2) by simp
  moreover have "text_fits (ks_ram st) (fb_of st) (ks_console st) (cs @ [10]) (ks_cursor st)"
    using gl(1) p(2) by simp
  ultimately obtain st' where st': "printf env (literal env fmt) args st = Some st'" "kept env st st'"
      "ks_cursor st' = fold cursor_after (cs @ [10]) (ks_cursor st)"
    using printf_prints [OF r f args [OF p(1)] out] by blast
  have "printer env (k + 1) st'"
    using gl(2) p(2) st'(3) by (intro printer_after [OF p(1) st'(2)]) simp
  with st'(1) kept_quiet [OF r st'(2)]
  show "\<exists>st'. printf env (literal env fmt) args st = Some st' \<and> quiet env st st' \<and> printer env (k + 1) st'"
    by blast
qed

section \<open>The formats\<close>

lemma numeral_plain:
  "\<forall>c \<in> set (numeral_chars a 10). plain_char c" "text_width (numeral_chars a 10) \<le> 20"
proof -
  have "plain_char c" if "is_digit 10 c" for c
    using that by (auto simp: is_digit_def plain_char_def word_le_nat_alt word_less_nat_alt)
  then show p: "\<forall>c \<in> set (numeral_chars a 10). plain_char c"
    using numeral_chars_digits [of 10 a] by simp
  show "text_width (numeral_chars a 10) \<le> 20"
    unfolding text_width_plain [OF p] by (rule numeral_chars_short) simp
qed

lemma boot_messages_plain:
  assumes "s \<in> set boot_messages"
  shows "\<forall>c \<in> set (chars s). plain_char c" "length s \<le> 40"
proof -
  have "list_all (\<lambda>s. list_all plain_char (chars s) \<and> length s \<le> 40) boot_messages"
    by code_simp
  with assms show "\<forall>c \<in> set (chars s). plain_char c" "length s \<le> 40"
    by (simp_all add: list_all_iff)
qed

text \<open>A format of one line with the conversions \<open>ks\<close>.\<close>

fun line_format :: "u8 list \<Rightarrow> u8 list \<Rightarrow> bool" where
  "line_format ks [] = False"
| "line_format ks (c # cs) =
     (if c = 10 then cs = [] \<and> ks = []
      else if c = 37 then
        (case ks of [] \<Rightarrow> False | k # ks' \<Rightarrow>
          (case cs of [] \<Rightarrow> False | d # ds \<Rightarrow> d = k \<and> line_format ks' ds))
      else (c = 9 \<or> plain_char c) \<and> line_format ks cs)"

abbreviation arg_text :: "(u64 \<Rightarrow> u8 list) \<Rightarrow> u8 \<Rightarrow> u64 \<Rightarrow> u8 list" where
  "arg_text L k a \<equiv> (if k = 115 then L a else numeral_chars a 10)"

lemma line_format_out:
  assumes "line_format ks cs" "length args = length ks" "set ks \<subseteq> {100, 115}"
    and "\<forall>(k, a) \<in> set (zip ks args). (\<forall>c \<in> set (arg_text L k a). plain_char c)
      \<and> text_width (arg_text L k a) \<le> B"
  shows "(\<exists>out. fmt_out L False cs args = Some (out @ [10]) \<and> (\<forall>c \<in> set out. c = 9 \<or> plain_char c)
      \<and> text_width out \<le> text_width cs + B * length ks)
    \<and> fmt_strings False cs args = {a. (115, a) \<in> set (zip ks args)}"
  using assms
proof (induction ks cs arbitrary: args rule: line_format.induct)
  case (1 ks)
  then show ?case by simp
next
  case (2 ks c cs)
  consider "c = 10" | "c = 37" | "c \<noteq> 10" "c \<noteq> 37" by blast
  then show ?case
  proof cases
    case 1
    with "2.prems" show ?thesis by auto
  next
    case 2
    then obtain k ks' ds a args' where k: "ks = k # ks'" "cs = k # ds" "line_format ks' ds"
      "args = a # args'" "length args' = length ks'"
      using "2.prems"(1,2) by (auto split: list.splits simp: length_Suc_conv)
    have "(\<exists>out. fmt_out L False ds args' = Some (out @ [10]) \<and> (\<forall>c \<in> set out. c = 9 \<or> plain_char c)
        \<and> text_width out \<le> text_width ds + B * length ks')
      \<and> fmt_strings False ds args' = {a. (115, a) \<in> set (zip ks' args')}"
      using 2 "2.prems" k by (intro "2.IH"(1)) simp_all
    then obtain out where o: "fmt_out L False ds args' = Some (out @ [10])" "\<forall>c \<in> set out. c = 9 \<or> plain_char c"
      "text_width out \<le> text_width ds + B * length ks'" "fmt_strings False ds args' = {a. (115, a) \<in> set (zip ks' args')}"
      by blast
    have kk: "k = 100 \<or> k = 115" using "2.prems"(3) k(1) by auto
    have t: "\<forall>c \<in> set (arg_text L k a). plain_char c" "text_width (arg_text L k a) \<le> B"
      using "2.prems"(4) k by auto
    show ?thesis
    proof (intro conjI exI)
      show "fmt_out L False (c # cs) args = Some ((arg_text L k a @ out) @ [10])"
        using kk 2 k o(1) by auto
      show "\<forall>c \<in> set (arg_text L k a @ out). c = 9 \<or> plain_char c" using t(1) o(2) by auto
      show "text_width (arg_text L k a @ out) \<le> text_width (c # cs) + B * length ks"
        using t(2) o(3) k 2 by simp
      show "fmt_strings False (c # cs) args = {a. (115, a) \<in> set (zip ks args)}"
        using kk 2 k o(4) by auto
    qed
  next
    case 3
    then have c: "c = 9 \<or> plain_char c" "line_format ks cs" using "2.prems"(1) by simp_all
    from "2.IH"(2) [OF 3 c(2) "2.prems"(2-4)] obtain out where
      "fmt_out L False cs args = Some (out @ [10])" "\<forall>c \<in> set out. c = 9 \<or> plain_char c"
      "text_width out \<le> text_width cs + B * length ks" "fmt_strings False cs args = {a. (115, a) \<in> set (zip ks args)}"
      by blast
    with 3 c(1) show ?thesis by (intro conjI exI [of _ "c # out"]) auto
  qed
qed

lemma format_line:
  assumes fmt: "fmt \<in> set boot_strings" "line_format ks (chars fmt)" "length args = length ks" "set ks \<subseteq> {100, 115}"
    and L: "\<And>a j. (115, a) \<in> set (zip ks args) \<Longrightarrow> printer env j st \<Longrightarrow> string_ready env st a (L a)"
    and plain: "\<forall>(k, a) \<in> set (zip ks args). (\<forall>c \<in> set (arg_text L k a). plain_char c)
      \<and> text_width (arg_text L k a) \<le> B" "text_width (chars fmt) + B * length ks < 100"
  shows "prints_lines env 1 st (printf env (literal env fmt) args st)"
proof -
  note lo = line_format_out [OF fmt(2-4) plain(1)]
  then obtain out where out: "fmt_out L False (chars fmt) args = Some (out @ [10])"
    "\<forall>c \<in> set out. c = 9 \<or> plain_char c" "text_width out < 100"
    using plain(2) by (auto dest: order_le_less_trans)
  show ?thesis
    using lo L by (intro line_printed [OF fmt(1) _ out]) auto
qed

section \<open>The lines of the boot\<close>

lemma format_shapes:
  "list_all (\<lambda>s. line_format [100] (chars s) \<and> text_width (chars s) \<le> 50) number_formats"
  "list_all (\<lambda>s. line_format [100, 100] (chars s) \<and> text_width (chars s) \<le> 50) frame_formats"
  "list_all (\<lambda>s. line_format [115] (chars s) \<and> text_width (chars s) \<le> 50) string_formats"
  by code_simp+

lemma number_line:
  assumes "fmt \<in> set number_formats"
  shows "prints_lines env 1 st (printf env (literal env fmt) [n] st)"
  using assms format_shapes(1) numeral_plain [of n]
  by (intro format_line [where ks = "[100]" and B = 20]) (auto simp: list_all_iff boot_strings_def)

lemma frames_line:
  assumes "fmt \<in> set frame_formats"
  shows "prints_lines env 1 st (printf env (literal env fmt) [n, n'] st)"
  using assms format_shapes(2) numeral_plain [of n] numeral_plain [of n']
  by (intro format_line [where ks = "[100, 100]" and B = 20]) (auto simp: list_all_iff boot_strings_def)

lemma string_line:
  assumes "fmt \<in> set string_formats" "\<And>k. printer env k st \<Longrightarrow> string_ready env st a arg"
    and "\<forall>c \<in> set arg. plain_char c" "length arg \<le> 48"
  shows "prints_lines env 1 st (printf env (literal env fmt) [a] st)"
  using assms format_shapes(3) text_width_plain [OF assms(3)]
  by (intro format_line [where ks = "[115]" and B = 48 and L = "\<lambda>_. arg"]) (auto simp: list_all_iff boot_strings_def)

lemma message_line:
  assumes "s \<in> set boot_messages"
  shows "prints_lines env 1 st (kprint_err env (literal env s) st)" "prints_lines env 1 st (kprint_succ env (literal env s) st)"
    "prints_lines env 1 st (kprint_info env (literal env s) st)" "prints_lines env 1 st (print_cpu_err env (literal env s) st)"
proof -
  note s = boot_messages_plain [OF assms]
  have "string_ready env st (literal env s) (chars s)" if "printer env k st" for k
    using that assms by (simp add: printer_def boot_strings_def)
  from string_line [OF _ this] s
  have "prints_lines env 1 st (printf env (literal env fmt) [literal env s] st)" if "fmt \<in> set string_formats" for fmt
    using that by simp
  then show "prints_lines env 1 st (kprint_err env (literal env s) st)" "prints_lines env 1 st (kprint_succ env (literal env s) st)"
    "prints_lines env 1 st (kprint_info env (literal env s) st)" "prints_lines env 1 st (print_cpu_err env (literal env s) st)"
    unfolding kprint_err_def kprint_succ_def kprint_info_def print_cpu_err_def string_formats_def list.set by blast+
qed

section \<open>The parts of the boot\<close>

text \<open>Printing about the state itself.\<close>

lemma pmem_info_lines: "prints_lines env 5 st (kprint_pmem_info env st)"
proof (rule prints_lines_number)
  show "prints_lines env (1 + (1 + (1 + (1 + 1)))) st (kprint_pmem_info env st)"
    unfolding kprint_pmem_info_def
    by (intro prints_lines_bind message_line frames_line number_line)
      (simp_all add: boot_messages_def frame_formats_def number_formats_def)
qed simp

lemma device_line:
  assumes "fmt @ nl \<in> set number_formats"
  shows "prints_lines env 1 st (print_device env fmt rd st)"
proof -
  define v where "v = fst (rd (ks_dev st))"
  define st1 where "st1 = st\<lparr>ks_dev := snd (rd (ks_dev st))\<rparr>"
  have f: "ks_console st1 = ks_console st" "fb_of st1 = fb_of st" "ks_cursor st1 = ks_cursor st"
    "ks_ram st1 = ks_ram st"
    by (simp_all add: st1_def)
  have run: "print_device env fmt rd st = printf env (literal env (fmt @ nl)) [ucast v] st1"
    by (simp add: print_device_def case_prod_beta v_def st1_def)
  have q: "quiet env st st1" by (simp add: quiet_def st1_def writable_def)
  show ?thesis
    unfolding prints_lines_def run
  proof (intro allI impI)
    fix k assume k: "printer env k st" "k + 1 \<le> 37"
    have "printer env k st1" by (rule printer_same(1) [OF k(1) f(1-3)]) (simp add: f(4))
    from prints_linesD [OF number_line [OF assms] this k(2)] quiet_trans [OF q]
    show "\<exists>st'. printf env (literal env (fmt @ nl)) [ucast v] st1 = Some st'
        \<and> quiet env st st' \<and> printer env (k + 1) st'" by metis
  qed
qed

lemma devices_lines: "prints_lines env 6 st (print_devices env bus st)"
proof (rule prints_lines_number)
  show "prints_lines env (1 + (1 + (1 + (1 + (1 + 1))))) st (print_devices env bus st)"
    unfolding print_devices_def Let_def
    by (intro prints_lines_bind device_line) (simp_all add: number_formats_def)
qed simp

lemma acpi_line: "prints_lines env 1 st (print_acpi_version env st)"
  by (simp add: print_acpi_version_def Let_def message_line boot_messages_def del: One_nat_def)

lemma cpu_state_lines:
  obtains r where "check_cpu_state env cpuid st = map_option (\<lambda>st. (st, check_cpu_features cpuid)) r"
    "prints_lines env (if check_cpu_features cpuid = CPU_SUCCESS then 0 else 1) st r"
proof (cases "check_cpu_features cpuid = CPU_SUCCESS")
  case True
  have "prints_lines env 0 st (Some st)" by (auto simp: prints_lines_def quiet_refl)
  with True show ?thesis by (intro that [of "Some st"]) (simp_all add: check_cpu_state_def)
next
  case False
  let ?s = "check_cpu_features cpuid"
  define msg where "msg = (if ?s = CPU_NO_LONG_MODE then ''no long mode detected''
    else if ?s = CPU_NO_FPU then ''no FPU detected'' else if ?s = CPU_NO_APIC then ''no APIC detected''
    else if ?s = CPU_NO_MSR then ''no MSRs detected'' else ''undefined status detected'')"
  have m: "msg \<in> set boot_messages" by (simp add: msg_def boot_messages_def)
  show ?thesis
  proof (rule that)
    show "check_cpu_state env cpuid st = map_option (\<lambda>st. (st, ?s)) (print_cpu_err env (literal env msg) st)"
      using False by (simp add: check_cpu_state_def msg_def)
    show "prints_lines env (if ?s = CPU_SUCCESS then 0 else 1) st (print_cpu_err env (literal env msg) st)"
      using False message_line(4) [OF m] by simp
  qed
qed

section \<open>The processor's names\<close>

text \<open>\<^verbatim>\<open>cpuid\<close> reports names of plain characters, padded with zeros.\<close>

definition printable_names :: "cpuid \<Rightarrow> bool" where
  "printable_names cpuid \<longleftrightarrow> (\<forall>v \<in> {fst (snd (cpuid 0)), snd (snd (snd (cpuid 0))), fst (snd (snd (cpuid 0)))}.
       \<forall>c \<in> set (word_bytes v). plain_char c)
     \<and> (\<forall>leaf \<in> {0x80000002, 0x80000003, 0x80000004}. \<forall>c \<in> set (regs_bytes (cpuid leaf)). plain_char c)"

definition name_ready :: "layout \<Rightarrow> 'd kstate \<Rightarrow> ptr \<Rightarrow> bool" where
  "name_ready env st a \<longleftrightarrow> (\<exists>s. string_ready env st a s \<and> (\<forall>c \<in> set s. plain_char c) \<and> length s \<le> 48)"

lemma cstr_within:
  assumes "m (a + word_of_nat n) = 0" "n < 2 ^ 64"
  obtains s where "cstr m a s" "length s \<le> n" "set s \<subseteq> set (bytes_at m a n)"
proof -
  obtain k where k: "k \<le> n" "m (a + word_of_nat k) = 0" "\<forall>i < k. m (a + word_of_nat i) \<noteq> 0"
    using exists_least_iff [of "\<lambda>i. m (a + word_of_nat i) = 0"] assms(1) by (metis not_less)
  have "cstr m a (bytes_at m a k)"
    using k assms(2) by (auto simp: cstr_def bytes_at_def)
  moreover have "set (bytes_at m a k) \<subseteq> set (bytes_at m a n)"
    using k(1) by (auto simp: bytes_at_def)
  ultimately show ?thesis using k(1) by (intro that) simp_all
qed

lemma cpu_names_ready:
  assumes "printable_names cpuid" "ks_ram st = CPU_init cpuid p m" "region p 70 \<inter> writable env st = {}"
  shows "name_ready env st p" "name_ready env st (p + 18)"
proof -
  note n = CPU_init_strings [of cpuid p m, folded assms(2)]
  have ready: "name_ready env st a"
    if bytes: "bytes_at (ks_ram st) a (Suc n) = cs @ [0]" "length cs = n" "\<forall>c \<in> set cs. plain_char c" "n \<le> 48"
      and sub: "region a (Suc n) \<subseteq> region p 70" for a n cs
  proof -
    have at: "bytes_at (ks_ram st) a n = cs"
      using bytes(1,2) by (simp add: bytes_at_def)
    have "ks_ram st (a + word_of_nat n) = (cs @ [0]) ! n"
      unfolding bytes(1) [symmetric] by simp
    then have "ks_ram st (a + word_of_nat n) = 0" using bytes(2) by (simp add: nth_append)
    then obtain s where s: "cstr (ks_ram st) a s" "length s \<le> n" "set s \<subseteq> set cs"
      unfolding at [symmetric] by (rule cstr_within) (use bytes(4) in simp_all)
    have "region a (Suc (length s)) \<inter> writable env st = {}"
      using assms(3) sub region_mono [of "Suc (length s)" "Suc n" a] s(2) by blast
    with s bytes(3,4) show ?thesis by (auto simp: name_ready_def string_ready_def intro!: exI [of _ s])
  qed
  have n13: "Suc 12 = 13" and n49: "Suc 48 = 49" by simp_all
  show "name_ready env st p"
    by (rule ready [where n = 12, unfolded n13, OF n(1) [folded append_assoc]])
      (use assms(1) region_mono [of 13 70 p] in \<open>auto simp: printable_names_def\<close>)
  have "region (p + 18) 49 \<subseteq> region p 70" by (rule region_sub) simp_all
  then show "name_ready env st (p + 18)"
    by (intro ready [where n = 48, unfolded n49, OF n(2) [folded append_assoc]])
      (use assms(1) in \<open>auto simp: printable_names_def\<close>)
qed

lemma quiet_string:
  assumes "quiet env st st'" "string_ready env st a s"
  shows "string_ready env st' a s"
proof -
  have "cstr (ks_ram st') a s"
  proof (rule cstr_cong)
    show "cstr (ks_ram st) a s" "length s < 2 ^ 63" using assms(2) by (simp_all add: string_ready_def)
    fix x assume "x \<in> region a (Suc (length s))"
    with assms show "ks_ram st' x = ks_ram st x" by (auto simp: quiet_def string_ready_def)
  qed
  with assms show ?thesis by (simp add: quiet_def string_ready_def)
qed

lemma quiet_name: "quiet env st st' \<Longrightarrow> name_ready env st a \<Longrightarrow> name_ready env st' a"
  using quiet_string unfolding name_ready_def by blast

lemma name_line:
  assumes "fmt \<in> set string_formats" "name_ready env st a"
  shows "prints_lines env 1 st (printf env (literal env fmt) [a] st)"
proof -
  obtain s where "string_ready env st a s" "\<forall>c \<in> set s. plain_char c" "length s \<le> 48"
    using assms(2) unfolding name_ready_def by blast
  with assms(1) show ?thesis by (intro string_line)
qed

lemma cpu_info_lines:
  assumes "name_ready env st (k_cpu (ks_kernel st))" "name_ready env st (k_cpu (ks_kernel st) + 18)"
  shows "prints_lines env 10 st (kprint_cpu_info env st)"
proof (rule prints_lines_number)
  show "prints_lines env (1 + (1 + (1 + (1 + (1 + (1 + (1 + (1 + (1 + 1))))))))) st (kprint_cpu_info env st)"
    unfolding kprint_cpu_info_def Let_def
    by (intro prints_lines_bind; ((rule message_line(3), simp add: boot_messages_def)
      | (rule name_line, simp add: string_formats_def, blast intro: quiet_name assms)
      | (rule number_line, simp add: number_formats_def)))
qed simp

section \<open>The console and the processor\<close>

text \<open>Every cell of the grid is on the screen.\<close>

lemma grid_glyph:
  assumes "grid_shown m fb self" "c < 128" "unat (ConsoleCursor.column cur) < 100" "unat (line cur) < 37"
  shows "glyph_fits m fb (char_glyph (font_at m (console_font self)) cur (scast (c :: u8)))"
proof -
  let ?font = "font_at m (console_font self)" and ?f = "framebuffer_at m fb"
  define w where "w = unat (glyph_width ?font)"
  define h where "h = unat (glyph_height ?font)"
  have g: "100 * w \<le> unat (pixels_per_scanline ?f)" "37 * h \<le> unat (height ?f)"
    "fb_ready m fb" "region (g_bitmap (char_glyph ?font initial_cursor (scast c))) h \<inter> screen_area m fb = {}"
    using assms(1,2) by (simp_all add: grid_shown_def console_ready_def Let_def w_def h_def)
  have "(unat (ConsoleCursor.column cur) + 1) * w \<le> 100 * w" using assms(3) by (intro mult_le_mono1) simp
  then have x: "unat (ConsoleCursor.column cur) * w + w \<le> unat (pixels_per_scanline ?f)"
    using g(1) by (simp only: add_mult_distrib mult_1)
  have "(unat (line cur) + 1) * h \<le> 37 * h" using assms(4) by (intro mult_le_mono1) simp
  then have y: "unat (line cur) * h + h \<le> unat (height ?f)"
    using g(2) by (simp only: add_mult_distrib mult_1)
  have X: "unat (ConsoleCursor.column cur * ucast (glyph_width ?font)) = unat (ConsoleCursor.column cur) * w"
    using x small_product [of "ConsoleCursor.column cur" "ucast (glyph_width ?font)" "pixels_per_scanline ?f"]
    by (simp add: w_def unat_ucast_up)
  have Y: "unat (line cur * ucast (glyph_height ?font)) = unat (line cur) * h"
    using y small_product [of "line cur" "ucast (glyph_height ?font)" "height ?f"]
    by (simp add: h_def unat_ucast_up)
  show ?thesis
    using g(3,4) x y X Y
    by (simp add: glyph_fits_def Let_def char_glyph_def screen_area_def w_def [symmetric] h_def [symmetric])
qed

lemma grid_off_screen:
  assumes "grid_shown m fb self" "off_screen fb m m'"
  shows "grid_shown m' fb self"
proof -
  have c: "console_ready m fb self" using assms(1) by (simp add: grid_shown_def Let_def)
  then have r: "fb_ready m fb" by (simp add: console_ready_def)
  show ?thesis
    using assms(1) off_screen_console [OF c assms(2)]
    by (simp add: grid_shown_def off_screen_font [OF c assms(2)] off_screen_framebuffer [OF r assms(2)]
        off_screen_area [OF r assms(2)] Let_def)
qed

lemma clear_screen_result:
  assumes "grid_shown (s_ram s) fb self" "max_lines (s_cursor s) = 37" "max_columns (s_cursor s) = 100"
  shows "s_cursor (Console__clear_screen fb self s) = (s_cursor s)\<lparr>ConsoleCursor.column := 0, line := 0\<rparr>"
    and "off_screen fb (s_ram s) (s_ram (Console__clear_screen fb self s))"
proof -
  let ?s0 = "on_cursor ConsoleCursor__reset s" and ?c = "s_cursor s"
  let ?t = "for_range 0 (3700 :: u32) (\<lambda>_. Console__print_char fb self 0x20) ?s0"
  have run: "Console__clear_screen fb self s = on_cursor ConsoleCursor__reset ?t"
    by (simp add: clear_screen_loop assms(2,3))
  let ?P = "\<lambda>k t. s_cursor t = cell_cursor ?c k \<and> off_screen fb (s_ram s) (s_ram t)"
  have "?P (unat (3700 :: u32)) ?t"
  proof (rule for_bound_invariant [where P = ?P])
    show "?P 0 ?s0" by (simp add: on_cursor_def ConsoleCursor__reset_def cell_cursor_def off_screen_def)
    fix k and t :: screen assume k: "k < unat (3700 :: u32)" and P: "?P k t"
    then have g: "grid_shown (s_ram t) fb self" using grid_off_screen [OF assms(1)] by blast
    have cell: "unat (ConsoleCursor.column (cell_cursor ?c k)) = k mod 100" "unat (line (cell_cursor ?c k)) = k div 100"
      using k assms(3) by (simp_all add: cell_cursor_def unsigned_of_nat take_bit_nat_eq_self
          less_mult_imp_div_less order_less_trans [OF mod_less_divisor])
    have "k div 100 < 37" using k by (simp add: less_mult_imp_div_less)
    then have "glyph_fits (s_ram t) fb (char_glyph (font_at (s_ram t) (console_font self)) (cell_cursor ?c k) (scast (0x20 :: u8)))"
      using cell by (intro grid_glyph [OF g]) simp_all
    then have "text_fits (s_ram t) fb self [0x20] (s_cursor t)" using P by simp
    moreover have ct: "console_ready (s_ram t) fb self" using g by (simp add: grid_shown_def Let_def)
    ultimately have "off_screen fb (s_ram t) (s_ram (Console__print_char fb self (scast (0x20 :: u8)) t))"
      by (intro print_char_step(2))
    moreover have "fb_ready (s_ram s) fb" using assms(1) by (simp add: grid_shown_def console_ready_def Let_def)
    ultimately have "off_screen fb (s_ram s) (s_ram (Console__print_char fb self 0x20 t))"
      using P off_screen_trans by simp blast
    then show "?P (Suc k) (Console__print_char fb self 0x20 t)"
      using P next_cell [of ?c k] assms(3) by (simp add: print_blank_cursor)
  qed simp
  then show "s_cursor (Console__clear_screen fb self s) = ?c\<lparr>ConsoleCursor.column := 0, line := 0\<rparr>"
    "off_screen fb (s_ram s) (s_ram (Console__clear_screen fb self s))"
    unfolding run by (simp_all add: on_cursor_def ConsoleCursor__reset_def cell_cursor_def)
qed

text \<open>The state once the console is initialised, and its screen clear.\<close>

definition with_console :: "layout \<Rightarrow> ptr \<Rightarrow> 'd kstate \<Rightarrow> 'd kstate" where
  "with_console env bd st =
     (let st1 = load_bootloader_data bd st
      in st1\<lparr>ks_console := Console__init (bd_font (bootloader_at (ks_ram st) bd)) (fb_of st1) (ks_console st),
             ks_kernel := (ks_kernel st1)\<lparr>k_console := at_console env\<rparr>\<rparr>)"

lemma start_console_clears:
  assumes "printer env k (with_console env bd st)"
  defines "st' \<equiv> start_console env bd (load_bootloader_data bd st)"
  shows "printer env 0 st'" "quiet env (with_console env bd st) st'"
proof -
  let ?s = "with_console env bd st"
  have r: "ks_ram ?s = ks_ram st"
    by (simp add: with_console_def load_bootloader_data_def Let_def)
  have run: "st' = set_screen (Console__clear_screen (fb_of ?s) (ks_console ?s) (get_screen ?s)) ?s"
    by (simp add: st'_def start_console_def with_console_def load_bootloader_data_def Let_def)
  have p: "print_ready env ?s" "grid_shown (ks_ram ?s) (fb_of ?s) (ks_console ?s)" "on_grid k (ks_cursor ?s)"
    using assms(1) by (simp_all add: printer_def)
  note c = clear_screen_result [of "get_screen ?s", simplified, OF p(2)]
  have c': "max_lines (ks_cursor ?s) = 37" "max_columns (ks_cursor ?s) = 100"
    using p(3) by (simp_all add: on_grid_def)
  have "\<forall>x. x \<notin> writable env ?s \<longrightarrow> ks_ram st' x = ks_ram ?s x"
    using c(2) [OF c'] by (simp add: run off_screen_def writable_def)
  then have kept: "kept env ?s st'" by (simp add: kept_def run)
  then show "quiet env ?s st'" by (rule kept_quiet [OF p(1)])
  have "on_grid 0 (ks_cursor st')" using c(1) [OF c'] c' by (simp add: run on_grid_def)
  with assms(1) kept show "printer env 0 st'" by (rule printer_after)
qed

lemma printer_space_quiet:
  assumes "printer env k st" "quiet env st st'"
  shows "printer_space env st' = printer_space env st" "printer_space env st \<inter> writable env st = {}"
proof -
  have "print_ready env st" and s: "string_ready env st (literal env s) (chars s)" if "s \<in> set boot_strings" for s
    using assms(1) that by (simp_all add: printer_def)
  moreover have "print_ready env st" using assms(1) by (simp add: printer_def)
  ultimately show d: "printer_space env st \<inter> writable env st = {}"
    using print_ready_reads [of env st] by (fastforce simp: printer_space_def string_ready_def)
  have "load64 (ks_ram st') (console_font (ks_console st)) = load64 (ks_ram st) (console_font (ks_console st))"
  proof (rule console_same(3) [of "ks_ram st" "fb_of st"])
    fix x assume "x \<in> console_reads (ks_ram st) (fb_of st) (ks_console st)"
    then have "x \<notin> writable env st" using d by (auto simp: printer_space_def)
    with assms(2) show "ks_ram st' x = ks_ram st x" by (simp add: quiet_def)
  qed
  with assms(2) show "printer_space env st' = printer_space env st"
    by (simp add: printer_space_def console_reads_def quiet_def)
qed

section \<open>The processor\<close>

abbreviation cpu_lines :: "cpuid \<Rightarrow> nat" where
  "cpu_lines cpuid \<equiv> (if check_cpu_features cpuid = CPU_SUCCESS then 11 else 12)"

definition with_cpu :: "layout \<Rightarrow> cpuid \<Rightarrow> 'd kstate \<Rightarrow> 'd kstate" where
  "with_cpu env cpuid st = st\<lparr>ks_mem := (ks_mem st)\<lparr>ram := CPU_init cpuid (at_cpu env) (ks_ram st)\<rparr>,
     ks_kernel := (ks_kernel st)\<lparr>k_cpu := at_cpu env\<rparr>\<rparr>"

lemma start_cpu_runs:
  assumes p: "printer env k st" "k + 12 \<le> 37" and names: "printable_names cpuid"
    and apart: "region (at_cpu env) 70 \<inter> (writable env st \<union> printer_space env st) = {}"
  obtains st' where "start_cpu env cpuid st = Some st'" "printer env (k + cpu_lines cpuid) st'"
    "quiet env (with_cpu env cpuid st) st'" "printer env k (with_cpu env cpuid st)"
    "writable env (with_cpu env cpuid st) = writable env st"
    "printer_space env (with_cpu env cpuid st) = printer_space env st"
proof -
  let ?st = "with_cpu env cpuid st" and ?f = "check_cpu_features cpuid"
  have "ks_ram ?st x = ks_ram st x" if "x \<in> printer_space env st" for x
    using apart that CPU_init_outside [of x "at_cpu env"] by (auto simp: with_cpu_def)
  note p1 = printer_same [of env k st ?st, OF p(1) _ _ _ this]
  have p2: "printer env k ?st" "writable env ?st = writable env st" "printer_space env ?st = printer_space env st"
    by (rule p1; simp add: with_cpu_def)+
  have "region (at_cpu env) 70 \<inter> writable env ?st = {}" using apart p2(2) by blast
  then have n: "name_ready env ?st (at_cpu env)" "name_ready env ?st (at_cpu env + 18)"
    by (intro cpu_names_ready [OF names]; simp add: with_cpu_def)+
  obtain r where r: "check_cpu_state env cpuid ?st = map_option (\<lambda>st. (st, ?f)) r"
    "prints_lines env (if ?f = CPU_SUCCESS then 0 else 1) ?st r"
    by (rule cpu_state_lines)
  let ?say = "\<lambda>st. if ?f \<noteq> CPU_SUCCESS then kprint_err env (literal env ''CPU state error'') st
      else kprint_succ env (literal env ''CPU state correct'') st"
  have "start_cpu env cpuid st = r \<bind> (\<lambda>st. ?say st \<bind> kprint_cpu_info env)"
    using r(1) by (cases r) (simp_all add: start_cpu_def with_cpu_def [symmetric] Let_def)
  moreover have "prints_lines env ((if ?f = CPU_SUCCESS then 0 else 1) + (1 + 10)) ?st
      (r \<bind> (\<lambda>st. ?say st \<bind> kprint_cpu_info env))"
  proof (rule prints_lines_bind [OF r(2)], rule prints_lines_bind)
    fix st1 assume q1: "quiet env ?st st1"
    show "prints_lines env 1 st1 (?say st1)"
      by (simp add: message_line boot_messages_def del: One_nat_def)
    fix st2 assume q2: "quiet env st1 st2"
    have "k_cpu (ks_kernel st2) = at_cpu env" using q1 q2 by (simp add: quiet_def with_cpu_def)
    with quiet_name [OF quiet_trans [OF q1 q2]] n show "prints_lines env 10 st2 (kprint_cpu_info env st2)"
      by (intro cpu_info_lines) simp_all
  qed
  ultimately have "prints_lines env (cpu_lines cpuid) ?st (start_cpu env cpuid st)"
    by (simp split: if_splits)
  then obtain st' where "start_cpu env cpuid st = Some st'" "quiet env ?st st'" "printer env (k + cpu_lines cpuid) st'"
    by (rule prints_linesD [OF _ p2(1)]) (use p(2) in simp)
  with p2 show ?thesis by (intro that)
qed

end
