(* ===== verification/Boot_Stages.thy ===== *)
theory Boot_Stages
  imports Boot_Text
begin

text \<open>
  The stages of the boot (\<^verbatim>\<open>src/src/kernel.c\<close>): what each of the steps of \<^verbatim>\<open>_start\<close> leaves to the next,
  and the conditions on the machine under which all of them can be taken.
\<close>

unbundle bit_operations_syntax

section \<open>One stage\<close>

text \<open>
  A stage changes named fields and memory in \<open>W\<close>, and then prints. What it keeps for the next one:
  the console, and the memory outside \<open>W\<close>.
\<close>

definition stage :: "layout \<Rightarrow> ptr set \<Rightarrow> nat \<Rightarrow> 'd kstate \<Rightarrow> 'd kstate \<Rightarrow> bool" where
  "stage env W k st st' \<longleftrightarrow> printer env k st' \<and> ks_console st' = ks_console st
     \<and> fb_of st' = fb_of st \<and> writable env st' = writable env st
     \<and> printer_space env st' = printer_space env st
     \<and> (\<forall>x. x \<notin> W \<longrightarrow> x \<notin> writable env st \<longrightarrow> ks_ram st' x = ks_ram st x)"

lemma stage_trans: "stage env W j st st1 \<Longrightarrow> stage env W k st1 st2 \<Longrightarrow> stage env W k st st2"
  by (simp add: stage_def)

lemma stage_mono: "stage env V k st st' \<Longrightarrow> V \<subseteq> W \<Longrightarrow> stage env W k st st'"
  by (auto simp: stage_def)

lemma stageI:
  assumes p: "printer env k st" and m: "ks_console stm = ks_console st" "fb_of stm = fb_of st"
    "ks_cursor stm = ks_cursor st" "\<And>x. x \<notin> W \<Longrightarrow> ks_ram stm x = ks_ram st x"
    and W: "W \<inter> printer_space env st = {}"
    and lines: "prints_lines env n stm r" "k + n \<le> 37"
  obtains st' where "r = Some st'" "stage env W (k + n) st st'" "quiet env stm st'" "printer env k stm"
proof -
  have "ks_ram stm x = ks_ram st x" if "x \<in> printer_space env st" for x
    using that W by (intro m(4)) blast
  note s = printer_same [OF p m(1-3) this]
  obtain st' where st': "r = Some st'" "quiet env stm st'" "printer env (k + n) st'"
    by (rule prints_linesD [OF lines(1) s(1) lines(2)])
  have "stage env W (k + n) st st'"
    using st'(2,3) m s(2,3) printer_space_quiet(1) [OF s(1) st'(2)]
    by (simp add: stage_def quiet_def)
  with st' s(1) show ?thesis by (intro that)
qed

text \<open>A stage that only prints.\<close>

lemma stage_prints:
  assumes "printer env k st" "prints_lines env n st r" "k + n \<le> 37"
  obtains st' where "r = Some st'" "stage env {} (k + n) st st'" "quiet env st st'"
  by (rule stageI [OF assms(1) _ _ _ _ _ assms(2,3), where W = "{}"]) (simp_all add: that)

section \<open>The memory of the boot\<close>

abbreviation boot_map :: "ptr \<Rightarrow> mem \<Rightarrow> EfiMemoryDescriptor list" where
  "boot_map bd m \<equiv> efi_map (bd_memory (bootloader_at m bd)) m"

text \<open>What printing and the description of the processor write to, what the page frame array, the
  page tables and the frames for more of them take, and the pages that are mapped one to one.\<close>

definition boot_used :: "layout \<Rightarrow> ptr \<Rightarrow> 'd kstate \<Rightarrow> ptr set" where
  "boot_used env bd st = writable env (with_console env bd st) \<union> region (at_cpu env) 70"

definition boot_space :: "layout \<Rightarrow> ptr \<Rightarrow> ptr \<Rightarrow> mem \<Rightarrow> ptr set" where
  "boot_space env bd buf m =
     (let ds = boot_map bd m
      in region buf (16 * total_pages ds) \<union> frame_of (at_PML4 env) \<union> \<Union> (frame_of ` boot_free bd buf ds))"

definition kernel_pages :: "ptr \<Rightarrow> ptr \<Rightarrow> mem \<Rightarrow> ptr list" where
  "kernel_pages bd desc m =
     (let f = framebuffer_at m (bd_framebuffer (bootloader_at m bd))
      in map fst (map_frames (boot_map bd m)) @ identity_pages (base_address f) (buffer_size f)
         @ [APIC_BASE_ADDR, hpet_address m desc])"

text \<open>The memory map and the first page table are fit for paging, with frames enough.\<close>

definition memory_fit :: "layout \<Rightarrow> ptr \<Rightarrow> ptr \<Rightarrow> ptr \<Rightarrow> pstate \<Rightarrow> bool" where
  "memory_fit env bd buf desc s \<longleftrightarrow>
     (let md = bd_memory (bootloader_at (ram s) bd); ds = efi_map md (ram s); PML4 = at_PML4 env
      in boot_ready md bd buf s \<and> buf = snd (get_largest_free_mem_seg md (ram s) 0)
        \<and> map_sound ds \<and> array_room buf ds \<and> 32 \<le> total_pages ds
        \<and> take_bit 12 PML4 = 0 \<and> hw_frame PML4 = PML4 \<and> (\<forall>x \<in> frame_of PML4. ram s x = 0)
        \<and> PML4 \<notin> boot_free bd buf ds \<and> frame_of PML4 \<inter> region buf (16 * total_pages ds) = {}
        \<and> card (\<Union> (table_paths ` set (test_addr # kernel_pages bd desc (ram s))))
            \<le> count_list (boot_states bd buf ds) FREE_FRAME)"

text \<open>The parts of memory are apart.\<close>

definition memory_apart :: "layout \<Rightarrow> ptr \<Rightarrow> ptr \<Rightarrow> ptr \<Rightarrow> 'd kstate \<Rightarrow> bool" where
  "memory_apart env bd buf desc st \<longleftrightarrow>
     (let s = with_console env bd st; m = ks_ram st; space = boot_space env bd buf m
      in boot_used env bd st \<inter> space = {}
        \<and> (printer_space env s \<union> region desc 56 \<union> {0x999}) \<inter> space = {}
        \<and> region (at_cpu env) 70 \<inter> (writable env s \<union> printer_space env s) = {}
        \<and> 0x999 \<notin> printer_space env s \<and> region desc 56 \<inter> boot_used env bd st = {}
        \<and> map_separate (bd_memory (bootloader_at m bd)) m (boot_used env bd st))"

text \<open>The firmware's tables are apart from it too: the search for that of the timer finds it whatever
  the boot has written.\<close>

definition timer_table :: "layout \<Rightarrow> ptr \<Rightarrow> ptr \<Rightarrow> ptr \<Rightarrow> 'd kstate \<Rightarrow> bool" where
  "timer_table env bd buf desc st \<longleftrightarrow>
     (\<forall>m. (\<forall>x. x \<notin> boot_used env bd st \<union> boot_space env bd buf (ks_ram st) \<longrightarrow> m x = ks_ram st x)
        \<longrightarrow> HPET_get_desc_table m (bd_acpi_rsdp (bootloader_at (ks_ram st) bd)) (literal env HPET_STD_SIGNATURE) = desc)"

lemma with_console_fields:
  "ks_mem (with_console env bd st) = ks_mem st" "ks_cursor (with_console env bd st) = ks_cursor st"
  "ks_regs (with_console env bd st) = ks_regs st" "ks_idt (with_console env bd st) = ks_idt st"
  "ks_dev (with_console env bd st) = ks_dev st"
  "ks_kernel (with_console env bd st) = (ks_kernel st)\<lparr>k_stack := bd,
     k_acpi_rsdp := bd_acpi_rsdp (bootloader_at (ks_ram st) bd),
     k_framebuffer := bd_framebuffer (bootloader_at (ks_ram st) bd),
     k_memory := bd_memory (bootloader_at (ks_ram st) bd), k_console := at_console env\<rparr>"
  by (simp_all add: with_console_def load_bootloader_data_def Let_def)

section \<open>Console and processor\<close>

lemma boot_to_cpu:
  assumes "printer env k (with_console env bd st)" "printable_names cpuid" "memory_apart env bd buf desc st"
  defines "s \<equiv> with_console env bd st"
  obtains st' where "start_cpu env cpuid (start_console env bd (load_bootloader_data bd st)) = Some st'"
    "stage env (region (at_cpu env) 70) (cpu_lines cpuid) s st'"
    "ks_kernel st' = (ks_kernel s)\<lparr>k_cpu := at_cpu env\<rparr>" "ks_pm st' = ks_pm st"
    "ks_regs st' = ks_regs st" "ks_idt st' = ks_idt st"
proof -
  let ?s1 = "start_console env bd (load_bootloader_data bd st)"
  note c = start_console_clears [OF assms(1), folded s_def]
  note ps = printer_space_quiet [OF assms(1) [folded s_def] c(2)]
  have w: "writable env ?s1 = writable env s" using c(2) by (simp add: quiet_def)
  have apart: "region (at_cpu env) 70 \<inter> (writable env ?s1 \<union> printer_space env ?s1) = {}"
    using assms(3) unfolding w ps(1) by (simp add: memory_apart_def Let_def s_def)
  obtain st' where st': "start_cpu env cpuid ?s1 = Some st'" "printer env (0 + cpu_lines cpuid) st'"
    "quiet env (with_cpu env cpuid ?s1) st'" "printer env 0 (with_cpu env cpuid ?s1)"
    "writable env (with_cpu env cpuid ?s1) = writable env ?s1"
    "printer_space env (with_cpu env cpuid ?s1) = printer_space env ?s1"
    by (rule start_cpu_runs [OF c(1) _ assms(2) apart]) simp
  have "ks_ram st' x = ks_ram s x" if "x \<notin> region (at_cpu env) 70" "x \<notin> writable env s" for x
    using that c(2) st'(3,5) w CPU_init_outside [OF that(1), of cpuid "ks_ram ?s1"]
    by (simp add: quiet_def with_cpu_def)
  moreover have "printer_space env st' = printer_space env s"
    using printer_space_quiet(1) [OF st'(4,3)] st'(6) ps(1) by simp
  ultimately have "stage env (region (at_cpu env) 70) (cpu_lines cpuid) s st'"
    using st'(2,3,5) w c(2) by (simp add: stage_def quiet_def with_cpu_def)
  moreover have "ks_kernel st' = (ks_kernel s)\<lparr>k_cpu := at_cpu env\<rparr>" "ks_pm st' = ks_pm s"
    "ks_regs st' = ks_regs s" "ks_idt st' = ks_idt s"
    using st'(3) c(2) by (simp_all add: quiet_def with_cpu_def)
  ultimately show ?thesis by (intro that [OF st'(1)]) (simp_all add: s_def with_console_fields)
qed

section \<open>The page frames\<close>

text \<open>The page frames as the memory map has them, with no address translated yet.\<close>

definition pages_ready :: "layout \<Rightarrow> ptr \<Rightarrow> ptr \<Rightarrow> mem \<Rightarrow> 'd kstate \<Rightarrow> bool" where
  "pages_ready env bd buf m st \<longleftrightarrow> paging_inv 44 (at_PML4 env) (ks_mem st)
     \<and> paging_space (at_PML4 env) (ks_mem st) = boot_space env bd buf m
     \<and> frame_list (ks_mem st) = map fst (map_frames (boot_map bd m))
     \<and> (\<forall>a. translate (ks_ram st) (at_PML4 env) a = None)
     \<and> unat (free_frames (ks_pm st)) = count_list (boot_states bd buf (boot_map bd m)) FREE_FRAME"

lemma pages_ready_same:
  assumes "pages_ready env bd buf m st" "ks_pm st' = ks_pm st"
    and "\<And>x. x \<in> boot_space env bd buf m \<Longrightarrow> ks_ram st' x = ks_ram st x"
  shows "pages_ready env bd buf m st'"
  using assms paging_same [of 44 "at_PML4 env" "ks_mem st" "ks_mem st'"] by (simp add: pages_ready_def)

text \<open>The initialisation finds the memory map and the first table as they were handed over.\<close>

lemma boot_pmem_memory:
  assumes fit: "memory_fit env bd buf desc (ks_mem st)" and apart: "memory_apart env bd buf desc st"
    and ram1: "\<And>x. x \<notin> boot_used env bd st \<Longrightarrow> ks_ram st1 x = ks_ram st x" and pm: "ks_pm st1 = ks_pm st"
  defines "m \<equiv> ks_ram st"
  obtains s where "init_physical_memory (bd_memory (bootloader_at m bd)) bd (ks_mem st1) = Some s"
    "\<And>K. pages_ready env bd buf m (st1\<lparr>ks_mem := s, ks_kernel := K\<rparr>)"
    "\<And>x. x \<notin> boot_space env bd buf m \<Longrightarrow> ram s x = ks_ram st1 x"
proof -
  let ?md = "bd_memory (bootloader_at m bd)" and ?ds = "boot_map bd m" and ?P = "at_PML4 env"
  let ?space = "boot_space env bd buf m" and ?used = "boot_used env bd st"
  have sep: "map_separate ?md m ?used" and ap: "?used \<inter> ?space = {}"
    using apart by (auto simp: memory_apart_def Let_def m_def)
  note ms = map_same [OF sep ram1 [folded m_def]]
  have ds: "efi_map ?md (ks_ram st1) = ?ds"
    and seg: "snd (get_largest_free_mem_seg ?md (ks_ram st1) 0) = snd (get_largest_free_mem_seg ?md m 0)"
    by (simp_all add: ms(2,4))
  have ready: "boot_ready ?md bd buf (ks_mem st1) = boot_ready ?md bd buf (ks_mem st)"
    by (rule boot_ready_same [where R = ?used]) (use sep in \<open>simp_all add: ram1 pm m_def\<close>)
  note f = fit [unfolded memory_fit_def Let_def, folded m_def]
  have P: "frame_of ?P \<subseteq> ?space" by (auto simp: boot_space_def Let_def)
  have "ks_ram st1 x = 0" if "x \<in> frame_of ?P" for x
    using that P ap f ram1 [of x, folded m_def] by fastforce
  then have "\<exists>s. init_physical_memory ?md bd (ks_mem st1) = Some s \<and> paging_inv 44 ?P s
    \<and> frame_list s = map fst (map_frames ?ds) \<and> free_addrs s = boot_free bd buf ?ds
    \<and> (\<forall>a. translate (ram s) ?P a = None) \<and> tables (ram s) ?P = {?P}
    \<and> unat (free_frames (pm s)) = count_list (boot_states bd buf ?ds) FREE_FRAME
    \<and> array_region s = region buf (16 * total_pages ?ds)
    \<and> (\<forall>x. x \<notin> array_region s \<longrightarrow> ram s x = ks_ram st1 x)"
    using f by (intro boot_paging [of ?md bd buf "ks_mem st1" ?P, unfolded ds seg ready]) (blast+)
  then obtain s where s: "init_physical_memory ?md bd (ks_mem st1) = Some s" "paging_inv 44 ?P s"
    "frame_list s = map fst (map_frames ?ds)" "free_addrs s = boot_free bd buf ?ds"
    "\<forall>a. translate (ram s) ?P a = None" "tables (ram s) ?P = {?P}"
    "unat (free_frames (pm s)) = count_list (boot_states bd buf ?ds) FREE_FRAME"
    "array_region s = region buf (16 * total_pages ?ds)"
    "\<forall>x. x \<notin> array_region s \<longrightarrow> ram s x = ks_ram st1 x"
    by blast
  have "paging_space ?P s = ?space" by (auto simp: paging_space_def boot_space_def Let_def s(4,6,8))
  then show ?thesis
    using s(2,3,5,7,9) by (intro that [OF s(1)]) (auto simp: pages_ready_def boot_space_def Let_def s(8))
qed

lemma boot_pmem:
  assumes p: "printer env k st1" "k + 6 \<le> 37" and fit: "memory_fit env bd buf desc (ks_mem st)"
    and apart: "memory_apart env bd buf desc st"
    and same: "\<And>x. x \<notin> boot_used env bd st \<Longrightarrow> ks_ram st1 x = ks_ram st x" "ks_pm st1 = ks_pm st"
      "writable env st1 = writable env (with_console env bd st)"
      "printer_space env st1 = printer_space env (with_console env bd st)"
    and args: "k_memory (ks_kernel st1) = bd_memory (bootloader_at (ks_ram st) bd)" "k_stack (ks_kernel st1) = bd"
  defines "m \<equiv> ks_ram st"
  obtains st' where "start_pmem env st1 = Some st'"
    "stage env (boot_space env bd buf m) (k + 6) st1 st'" "pages_ready env bd buf m st'"
    "ks_kernel st' = (ks_kernel st1)\<lparr>k_pmem := at_pmem env\<rparr>" "ks_regs st' = ks_regs st1" "ks_idt st' = ks_idt st1"
proof -
  let ?space = "boot_space env bd buf m"
  have ap: "boot_used env bd st \<inter> ?space = {}" "?space \<inter> printer_space env st1 = {}"
    using apart by (auto simp: memory_apart_def Let_def m_def same(4))
  obtain s where s: "init_physical_memory (bd_memory (bootloader_at m bd)) bd (ks_mem st1) = Some s"
    "\<And>K. pages_ready env bd buf m (st1\<lparr>ks_mem := s, ks_kernel := K\<rparr>)"
    "\<And>x. x \<notin> ?space \<Longrightarrow> ram s x = ks_ram st1 x"
    by (rule boot_pmem_memory [OF fit apart same(1,2), folded m_def]) blast+
  let ?m = "st1\<lparr>ks_mem := s, ks_kernel := (ks_kernel st1)\<lparr>k_pmem := at_pmem env\<rparr>\<rparr>"
  have run: "start_pmem env st1 = kprint_succ env (literal env ''Physical memory initalization success'') ?m
      \<bind> kprint_pmem_info env"
    by (simp add: start_pmem_def args s(1) m_def [symmetric])
  have lines: "prints_lines env (1 + 5) ?m (start_pmem env st1)"
    unfolding run by (intro prints_lines_bind message_line pmem_info_lines) (simp add: boot_messages_def)
  obtain st' where st': "start_pmem env st1 = Some st'" "stage env ?space (k + (1 + 5)) st1 st'" "quiet env ?m st'"
    by (rule stageI [OF p(1) _ _ _ _ ap(2) lines]) (use p(2) s(3) in simp_all)
  have "writable env ?m = writable env st1" using st'(2,3) by (simp add: stage_def quiet_def)
  moreover have "writable env st1 \<inter> ?space = {}" using ap(1) by (auto simp: same(3) boot_used_def)
  ultimately have keep: "ks_ram st' x = ks_ram ?m x" if "x \<in> ?space" for x
    using that st'(3) by (auto simp: quiet_def)
  have "pages_ready env bd buf m st'"
    by (rule pages_ready_same [OF s(2) _ keep]) (use st'(3) in \<open>simp_all add: quiet_def\<close>)
  with st' show ?thesis by (intro that [OF st'(1)]) (simp_all add: quiet_def)
qed

section \<open>Segments and the event timer\<close>

lemma boot_gdt:
  assumes p: "printer env k st1" "k + 1 \<le> 37"
  obtains st2 where "start_gdt env st1 = Some st2" "stage env {} (k + 1) st1 st2"
    "quiet env (st1\<lparr>ks_regs := fst (init_gdt (at_gdt env) (ks_regs st1)),
       ks_kernel := (ks_kernel st1)\<lparr>k_gdt := at_gdt env\<rparr>\<rparr>) st2"
proof -
  let ?r = "init_gdt (at_gdt env) (ks_regs st1)"
  let ?m = "st1\<lparr>ks_regs := fst ?r, ks_kernel := (ks_kernel st1)\<lparr>k_gdt := at_gdt env\<rparr>\<rparr>"
  have g: "snd ?r = at_gdt env" by (simp add: init_gdt_def)
  have "prints_lines env 1 ?m (start_gdt env st1)"
    by (simp add: start_gdt_def case_prod_beta g message_line boot_messages_def del: One_nat_def)
  then show thesis
    by (rule stageI [OF p(1), where W = "{}" and stm = ?m, rotated 5]) (use p(2) that in simp_all)
qed

lemma boot_gdt_hpet:
  assumes p: "printer env k st1" "k + 2 \<le> 37"
    and desc: "\<And>m. (\<And>x. x \<notin> writable env st1 \<Longrightarrow> m x = ks_ram st1 x)
      \<Longrightarrow> HPET_get_desc_table m (k_acpi_rsdp (ks_kernel st1)) (literal env HPET_STD_SIGNATURE) = desc"
  obtains st' where "start_gdt env st1 \<bind> start_hpet env bus = Some st'" "stage env {} (k + 2) st1 st'"
    "ks_pm st' = ks_pm st1" "ks_idt st' = ks_idt st1" "ks_regs st' = fst (init_gdt (at_gdt env) (ks_regs st1))"
    "ks_kernel st' = (ks_kernel st1)\<lparr>k_gdt := at_gdt env, k_hpet_desc := desc\<rparr>"
proof -
  let ?m = "st1\<lparr>ks_regs := fst (init_gdt (at_gdt env) (ks_regs st1)), ks_kernel := (ks_kernel st1)\<lparr>k_gdt := at_gdt env\<rparr>\<rparr>"
  have k: "k + 1 \<le> 37" using p(2) by simp
  obtain st2 where st2: "start_gdt env st1 = Some st2" "stage env {} (k + 1) st1 st2" "quiet env ?m st2"
    by (rule boot_gdt [OF p(1) k])
  have w: "writable env ?m = writable env st1" using st2(2,3) by (simp add: stage_def quiet_def)
  have d: "HPET_get_desc_table (ks_ram st2) (k_acpi_rsdp (ks_kernel st2)) (literal env HPET_STD_SIGNATURE) = desc"
    using desc [of "ks_ram st2"] st2(3) w by (simp add: quiet_def)
  let ?h = "HPET_init bus (ks_ram st2) (k_acpi_rsdp (ks_kernel st2)) (literal env HPET_STD_SIGNATURE) (ks_dev st2)"
  let ?n = "st2\<lparr>ks_dev := snd ?h, ks_kernel := (ks_kernel st2)\<lparr>k_hpet_desc := desc\<rparr>\<rparr>"
  have h: "fst ?h = desc" using d by (simp add: HPET_init_def Let_def)
  have q2: "printer env (k + 1) st2" using st2(2) by (simp add: stage_def)
  have "prints_lines env 1 ?n (start_hpet env bus st2)"
    by (simp add: start_hpet_def case_prod_beta h message_line boot_messages_def del: One_nat_def)
  then obtain st3 where st3: "start_hpet env bus st2 = Some st3" "stage env {} (k + 1 + 1) st2 st3" "quiet env ?n st3"
    by (rule stageI [OF q2, where W = "{}" and stm = ?n, rotated 5]) (use p(2) in simp_all)
  show ?thesis
  proof (rule that)
    show "start_gdt env st1 \<bind> start_hpet env bus = Some st3" by (simp add: st2(1) st3(1))
    show "stage env {} (k + 2) st1 st3" using stage_trans [OF st2(2) st3(2)] by simp
  qed (use st2(3) st3(3) in \<open>simp_all add: quiet_def\<close>)
qed

section \<open>Paging\<close>

text \<open>The address translation the kernel runs under.\<close>

definition kernel_translation :: "ptr \<Rightarrow> ptr \<Rightarrow> mem \<Rightarrow> ptr \<Rightarrow> ptr option" where
  "kernel_translation bd desc m a =
     (if same_page a test_addr then Some (take_bit 12 a)
      else if \<exists>p \<in> set (kernel_pages bd desc m). same_page a p then Some (take_bit 44 a) else None)"


text \<open>The registers of the timer fit a page, however many timers it reports.\<close>

lemma timer_page:
  "identity_pages a (fst (HPET_get_mmio_sz bus m desc d)) = [a]"
proof -
  define c where "c = num_tim_cap (read_HPET_CapReg (fst (HPET_read_reg bus m desc HPET_CAP_REG d)))"
  have n: "fst (HPET_get_mmio_sz bus m desc d) = ucast (64 + ucast (ucast c + 1 :: u8) * 32 :: u32)"
    by (simp add: HPET_get_mmio_sz_def HPET_get_no_timers_def c_def case_prod_beta)
  have "unat c < 32" using unat_less_exp [of c] by simp
  then have "unat (fst (HPET_get_mmio_sz bus m desc d)) = 64 + (unat c + 1) * 32"
    unfolding n by (simp add: unat_ucast_up unat_word_ariths)
  with \<open>unat c < 32\<close> have "unat (fst (HPET_get_mmio_sz bus m desc d)) div 4097 = 0" by simp
  then show ?thesis by (simp add: identity_pages_def)
qed

lemma boot_pages_kernel:
  assumes "ks_kernel st1 = K" "k_framebuffer K = bd_framebuffer (bootloader_at m bd)" "k_hpet_desc K = desc"
    and "frame_list (ks_mem st1) = map fst (map_frames (boot_map bd m))"
    and "\<And>x. x \<in> region (k_framebuffer K) 24 \<Longrightarrow> ks_ram st1 x = m x"
    and "\<And>x. x \<in> region desc 56 \<Longrightarrow> ks_ram st1 x = m x"
  shows "boot_pages bus st1 = kernel_pages bd desc m"
proof -
  have "framebuffer_at (ks_ram st1) (k_framebuffer K) = framebuffer_at m (k_framebuffer K)"
    by (rule framebuffer_at_cong) (rule assms(5))
  moreover have "load64 (ks_ram st1) (desc + 44) = load64 m (desc + 44)"
  proof (rule load64_cong)
    fix x assume "x \<in> region (desc + 44) 8"
    moreover have "region (desc + 44) 8 \<subseteq> region desc 56" by (rule region_sub) simp_all
    ultimately show "ks_ram st1 x = m x" using assms(6) by blast
  qed
  moreover have "identity_pages APIC_BASE_ADDR 4096 = [APIC_BASE_ADDR]" by code_simp
  ultimately show ?thesis
    using assms(1-4) by (simp add: boot_pages_def kernel_pages_def Let_def timer_page hpet_address_load)
qed

lemma boot_paging_on:
  assumes p: "printer env k st1" "k + 1 \<le> 37" and fit: "memory_fit env bd buf desc (ks_mem st)"
    and apart: "memory_apart env bd buf desc st" and width: "44 \<le> shift_width env"
    and ready: "pages_ready env bd buf (ks_ram st) st1" and pages: "boot_pages bus st1 = kernel_pages bd desc (ks_ram st)"
    and k: "k_framebuffer (ks_kernel st1) = bd_framebuffer (bootloader_at (ks_ram st) bd)" "k_hpet_desc (ks_kernel st1) = desc"
    and same: "writable env st1 = writable env (with_console env bd st)"
      "printer_space env st1 = printer_space env (with_console env bd st)"
  obtains st' where "start_paging env bus st1 = Some st'"
    "stage env (boot_space env bd buf (ks_ram st) \<union> {0x999}) (k + 1) st1 st'"
    "\<And>a. translated_addr st' a = kernel_translation bd desc (ks_ram st) a"
    "cr3 (ks_regs st') = at_PML4 env" "bit (msrs (ks_regs st') IA32_EFER) EFER_LME"
    "ks_kernel st' = (ks_kernel st1)\<lparr>k_pml4 := at_PML4 env\<rparr>" "ks_idt st' = ks_idt st1"
    "gdtr (ks_regs st') = gdtr (ks_regs st1)" "code_segment (ks_regs st') = code_segment (ks_regs st1)"
    "data_segments (ks_regs st') = data_segments (ks_regs st1)"
    "\<And>t. t \<in> tables (ks_ram st') (at_PML4 env) \<Longrightarrow> frame_of t \<subseteq> boot_space env bd buf (ks_ram st)"
proof -
  let ?P = "at_PML4 env" and ?m = "ks_ram st"
  let ?space = "boot_space env bd buf ?m" and ?pages = "test_addr # boot_pages bus st1"
  have inv: "paging_inv 44 ?P (ks_mem st1)" "paging_space ?P (ks_mem st1) = ?space"
    "\<And>a. translate (ks_ram st1) ?P a = None"
    and free: "unat (free_frames (ks_pm st1)) = count_list (boot_states bd buf (boot_map bd ?m)) FREE_FRAME"
    using ready by (simp_all add: pages_ready_def)
  have kt: "boot_translation env bus st1 a = kernel_translation bd desc ?m a" for a
    by (simp add: kernel_translation_def pages inv(3))
  note f = fit [unfolded memory_fit_def Let_def]
  have ap: "writable env st1 \<inter> ?space = {}" "(printer_space env st1 \<union> region desc 56 \<union> {0x999}) \<inter> ?space = {}"
    "0x999 \<notin> printer_space env st1"
    using apart by (auto simp: memory_apart_def Let_def same boot_used_def)
  have "finite (table_paths va)" for va by (simp add: table_paths_def)
  then have "missing_tables ?P ?pages (ks_mem st1) \<le> card (\<Union> (table_paths ` set ?pages))"
    unfolding missing_tables_def by (intro card_mono) auto
  also have "\<dots> \<le> unat (free_frames (ks_pm st1))" using f unfolding pages free by blast
  finally have enough: "missing_tables ?P ?pages (ks_mem st1) \<le> unat (free_frames (ks_pm st1))" .
  have "region (k_framebuffer (ks_kernel st1)) 24 \<subseteq> printer_space env st1"
    by (auto simp: printer_space_def console_reads_def)
  then have out: "(region (k_framebuffer (ks_kernel st1)) 24 \<union> region (k_hpet_desc (ks_kernel st1)) 56 \<union> {0x999})
      \<inter> paging_space ?P (ks_mem st1) = {}"
    using ap(2) unfolding inv(2) k(2) by blast
  have P: "hw_frame ?P = ?P" using f by blast
  show ?thesis
  proof (rule init_paging_run [OF inv(1) width P enough out])
    fix s assume run: "init_paging env bus st1 = Some (s, ?P)"
      and tr: "\<And>a. translated_addr s a = boot_translation env bus st1 a"
      and fields: "cr3 (ks_regs s) = ?P" "bit (msrs (ks_regs s) IA32_EFER) EFER_LME"
        "ks_cursor s = ks_cursor st1" "ks_console s = ks_console st1" "ks_kernel s = ks_kernel st1"
        "ks_idt s = ks_idt st1" "gdtr (ks_regs s) = gdtr (ks_regs st1)"
        "code_segment (ks_regs s) = code_segment (ks_regs st1)" "data_segments (ks_regs s) = data_segments (ks_regs st1)"
      and kept: "\<And>x. x \<notin> paging_space ?P (ks_mem st1) \<Longrightarrow> x \<noteq> 0x999 \<Longrightarrow> ks_ram s x = ks_ram st1 x"
      and tabs: "\<And>t. t \<in> tables (ks_ram s) ?P \<Longrightarrow> frame_of t \<subseteq> paging_space ?P (ks_mem st1)"
    let ?s = "s\<lparr>ks_kernel := (ks_kernel s)\<lparr>k_pml4 := ?P\<rparr>\<rparr>"
    have lines: "prints_lines env 1 ?s (start_paging env bus st1)"
      by (simp add: start_paging_def run message_line boot_messages_def del: One_nat_def)
    have sp: "(?space \<union> {0x999}) \<inter> printer_space env st1 = {}" using ap(2,3) by blast
    have ram: "ks_ram ?s x = ks_ram st1 x" if "x \<notin> ?space \<union> {0x999}" for x
      using kept [of x] that inv(2) by simp
    obtain st' where st': "start_paging env bus st1 = Some st'" "stage env (?space \<union> {0x999}) (k + 1) st1 st'" "quiet env ?s st'"
      by (rule stageI [OF p(1) _ _ _ ram sp lines p(2)]) (simp_all add: fields)
    have w: "writable env ?s = writable env st1" using st'(2,3) by (simp add: stage_def quiet_def)
    have eq: "ks_ram st' x = ks_ram s x" if "t \<in> tables (ks_ram s) ?P" "x \<in> frame_of t" for t x
    proof -
      have "x \<notin> writable env ?s" using tabs [OF that(1)] that(2) ap(1) unfolding inv(2) w by blast
      then show ?thesis using st'(3) by (simp add: quiet_def)
    qed
    have tb: "tables (ks_ram st') ?P = tables (ks_ram s) ?P" by (rule tables_same(1) [OF eq])
    have regs: "ks_regs st' = ks_regs s" using st'(3) by (simp add: quiet_def)
    show thesis
    proof (rule that [OF st'(1,2)])
      show "translated_addr st' a = kernel_translation bd desc ?m a" for a
        unfolding kt [symmetric] tr [symmetric] translated_addr_def regs fields(1) P by (rule translate_same [OF eq])
      show "frame_of t \<subseteq> ?space" if "t \<in> tables (ks_ram st') ?P" for t
        using that tabs [of t] by (simp add: tb inv(2))
    qed (use st'(3) in \<open>simp_all add: quiet_def fields\<close>)
  qed
qed

section \<open>Interrupts, devices and the timer\<close>

lemma APIC_enable_fields:
  "cr3 (APIC_enable r) = cr3 r" "gdtr (APIC_enable r) = gdtr r" "idtr (APIC_enable r) = idtr r"
  "code_segment (APIC_enable r) = code_segment r" "data_segments (APIC_enable r) = data_segments r"
  "msrs (APIC_enable r) IA32_EFER = msrs r IA32_EFER"
  by (simp_all add: APIC_enable_def APIC_write_msr_def write_msr_def Let_def)

lemma boot_print_devices:
  assumes p: "printer env k st1" "k + 8 \<le> 37"
  obtains st2 where "start_idt env st1 \<bind> (\<lambda>st. print_acpi_version env st \<bind> print_devices env bus) = Some st2"
    "stage env {} (k + 8) st1 st2"
    "quiet env (st1\<lparr>ks_idt := fst (fst (init_idt (at_page_fault_handler env) (at_divide_by_zero_handler env)
         (at_idt env) (ks_idt st1, ks_regs st1))),
       ks_regs := (ks_regs st1)\<lparr>idtr := (4096, at_idt env)\<rparr>, ks_kernel := (ks_kernel st1)\<lparr>k_idt := at_idt env\<rparr>\<rparr>) st2"
proof -
  let ?i = "init_idt (at_page_fault_handler env) (at_divide_by_zero_handler env) (at_idt env) (ks_idt st1, ks_regs st1)"
  let ?m = "st1\<lparr>ks_idt := fst (fst ?i), ks_regs := (ks_regs st1)\<lparr>idtr := (4096, at_idt env)\<rparr>,
    ks_kernel := (ks_kernel st1)\<lparr>k_idt := at_idt env\<rparr>\<rparr>"
  have i: "snd ?i = at_idt env" "snd (fst ?i) = (ks_regs st1)\<lparr>idtr := (4096, at_idt env)\<rparr>"
    by (simp_all add: init_idt_def Let_def)
  have run: "start_idt env st1 = kprint_succ env (literal env ''IDT initialization success'') ?m"
    by (simp add: start_idt_def case_prod_beta i)
  have "prints_lines env (1 + (1 + 6)) ?m (start_idt env st1 \<bind> (\<lambda>st. print_acpi_version env st \<bind> print_devices env bus))"
    unfolding run by (intro prints_lines_bind message_line acpi_line devices_lines) (simp add: boot_messages_def)
  then show thesis
    by (rule stageI [OF p(1), where W = "{}" and stm = ?m, rotated 5]) (use p(2) that in \<open>simp_all add: add.commute\<close>)
qed

lemma boot_devices:
  assumes p: "printer env k st1" "k + 9 \<le> 37"
  obtains st' where "start_idt env st1 \<bind> print_acpi_version env \<bind> print_devices env bus \<bind> start_timer env bus = Some st'"
    "stage env {} (k + 9) st1 st'" "ks_kernel st' = (ks_kernel st1)\<lparr>k_idt := at_idt env\<rparr>"
    "ks_idt st' = fst (fst (init_idt (at_page_fault_handler env) (at_divide_by_zero_handler env) (at_idt env)
        (ks_idt st1, ks_regs st1)))"
    "ks_regs st' = APIC_enable ((ks_regs st1)\<lparr>idtr := (4096, at_idt env)\<rparr>)"
proof -
  let ?i = "init_idt (at_page_fault_handler env) (at_divide_by_zero_handler env) (at_idt env) (ks_idt st1, ks_regs st1)"
  let ?m = "st1\<lparr>ks_idt := fst (fst ?i), ks_regs := (ks_regs st1)\<lparr>idtr := (4096, at_idt env)\<rparr>,
    ks_kernel := (ks_kernel st1)\<lparr>k_idt := at_idt env\<rparr>\<rparr>"
  have k: "k + 8 \<le> 37" using p(2) by simp
  obtain st2 where st2: "start_idt env st1 \<bind> (\<lambda>st. print_acpi_version env st \<bind> print_devices env bus) = Some st2"
    "stage env {} (k + 8) st1 st2" "quiet env ?m st2"
    by (rule boot_print_devices [OF p(1) k])
  let ?r = "st2\<lparr>ks_regs := APIC_enable (ks_regs st2)\<rparr>"
  let ?t = "?r\<lparr>ks_dev := HTimer_set_one_shot bus (ks_ram st2) (k_hpet_desc (ks_kernel st2)) 0 1000 (ks_dev st2)\<rparr>"
  have "start_timer env bus st2
      = print_device env ''Comparator: %d '' (HTimer_get_compar bus (ks_ram ?t) (k_hpet_desc (ks_kernel ?t)) 0) ?t"
    by (simp add: start_timer_def Let_def)
  then have "prints_lines env 1 ?t (start_timer env bus st2)"
    using device_line [of "''Comparator: %d ''" env ?t] by (simp add: number_formats_def)
  moreover have q2: "printer env (k + 8) st2" using st2(2) by (simp add: stage_def)
  ultimately obtain st3 where st3: "start_timer env bus st2 = Some st3" "stage env {} (k + 8 + 1) st2 st3" "quiet env ?t st3"
    by (elim stageI [where W = "{}" and stm = ?t, rotated 6]) (use p(2) in simp_all)
  show ?thesis
  proof (rule that)
    show "start_idt env st1 \<bind> print_acpi_version env \<bind> print_devices env bus \<bind> start_timer env bus = Some st3"
      using st2(1) st3(1) by simp
    show "stage env {} (k + 9) st1 st3" using stage_trans [OF st2(2) st3(2)] by (simp add: add.commute)
  qed (use st2(3) st3(3) in \<open>simp_all add: quiet_def\<close>)
qed

section \<open>The whole boot\<close>

lemma start_stages:
  "start env bus cpuid bd st = start_cpu env cpuid (start_console env bd (load_bootloader_data bd st))
     \<bind> start_pmem env \<bind> (\<lambda>s. start_gdt env s \<bind> start_hpet env bus) \<bind> start_paging env bus
     \<bind> (\<lambda>s. start_idt env s \<bind> print_acpi_version env \<bind> print_devices env bus \<bind> start_timer env bus)"
  by (simp add: start_def Let_def)

lemma boot_to_pmem:
  assumes "printer env k (with_console env bd st)" "printable_names cpuid"
    and fit: "memory_fit env bd buf desc (ks_mem st)" and apart: "memory_apart env bd buf desc st"
  defines "m \<equiv> ks_ram st" and "s0 \<equiv> with_console env bd st"
  obtains st' where "start_cpu env cpuid (start_console env bd (load_bootloader_data bd st)) \<bind> start_pmem env = Some st'"
    "stage env (boot_used env bd st \<union> boot_space env bd buf m) (cpu_lines cpuid + 6) s0 st'"
    "pages_ready env bd buf m st'"
    "ks_kernel st' = (ks_kernel s0)\<lparr>k_cpu := at_cpu env, k_pmem := at_pmem env\<rparr>"
    "ks_idt st' = ks_idt st"
proof -
  let ?L = "cpu_lines cpuid" and ?used = "boot_used env bd st"
  obtain st1 where st1: "start_cpu env cpuid (start_console env bd (load_bootloader_data bd st)) = Some st1"
    "stage env (region (at_cpu env) 70) ?L s0 st1" "ks_kernel st1 = (ks_kernel s0)\<lparr>k_cpu := at_cpu env\<rparr>"
    "ks_pm st1 = ks_pm st" "ks_regs st1 = ks_regs st" "ks_idt st1 = ks_idt st"
    using boot_to_cpu [OF assms(1,2) apart] unfolding s0_def by blast
  have used: "?used = writable env s0 \<union> region (at_cpu env) 70" by (simp add: boot_used_def s0_def)
  have p1: "printer env ?L st1" "writable env st1 = writable env s0" "printer_space env st1 = printer_space env s0"
    using st1(2) by (simp_all add: stage_def)
  have ram1: "ks_ram st1 x = ks_ram st x" if "x \<notin> ?used" for x
    using st1(2) that by (simp add: stage_def used s0_def with_console_fields)
  have k1: "k_memory (ks_kernel st1) = bd_memory (bootloader_at (ks_ram st) bd)" "k_stack (ks_kernel st1) = bd"
    by (simp_all add: st1(3) s0_def with_console_fields)
  obtain st2 where st2: "start_pmem env st1 = Some st2" "stage env (boot_space env bd buf m) (?L + 6) st1 st2"
    "pages_ready env bd buf m st2" "ks_kernel st2 = (ks_kernel st1)\<lparr>k_pmem := at_pmem env\<rparr>"
    "ks_idt st2 = ks_idt st1"
    by (rule boot_pmem [OF p1(1) _ fit apart ram1 st1(4) p1(2,3) [unfolded s0_def] k1, folded m_def]) simp_all
  show ?thesis
  proof (rule that)
    show "stage env (?used \<union> boot_space env bd buf m) (?L + 6) s0 st2"
      by (rule stage_trans [OF stage_mono [OF st1(2)] stage_mono [OF st2(2)]]) (auto simp: used)
  qed (simp_all add: st1 st2)
qed

text \<open>Writing the buffers and the screen does not change what the segments and the timer rely on.\<close>

lemma boot_to_hpet:
  assumes "printer env k (with_console env bd st)" "printable_names cpuid"
    and fit: "memory_fit env bd buf desc (ks_mem st)" and apart: "memory_apart env bd buf desc st"
    and timer: "timer_table env bd buf desc st"
  defines "m \<equiv> ks_ram st" and "s0 \<equiv> with_console env bd st"
  obtains st' where "start_cpu env cpuid (start_console env bd (load_bootloader_data bd st))
     \<bind> start_pmem env \<bind> (\<lambda>s. start_gdt env s \<bind> start_hpet env bus) = Some st'"
    "stage env (boot_used env bd st \<union> boot_space env bd buf m) (cpu_lines cpuid + 8) s0 st'"
    "pages_ready env bd buf m st'"
    "ks_kernel st' = (ks_kernel s0)\<lparr>k_cpu := at_cpu env, k_pmem := at_pmem env, k_gdt := at_gdt env, k_hpet_desc := desc\<rparr>"
    "ks_idt st' = ks_idt st" "gdtr (ks_regs st') = (GDT_sz - 1, at_gdt env)"
    "code_segment (ks_regs st') = 8" "data_segments (ks_regs st') = 16"
proof -
  let ?L = "cpu_lines cpuid" and ?used = "boot_used env bd st" and ?space = "boot_space env bd buf m"
  obtain st2 where st2: "start_cpu env cpuid (start_console env bd (load_bootloader_data bd st)) \<bind> start_pmem env = Some st2"
    "stage env (?used \<union> ?space) (?L + 6) s0 st2" "pages_ready env bd buf m st2"
    "ks_kernel st2 = (ks_kernel s0)\<lparr>k_cpu := at_cpu env, k_pmem := at_pmem env\<rparr>" "ks_idt st2 = ks_idt st"
    by (rule boot_to_pmem [OF assms(1-4), folded m_def s0_def]) (rule that; assumption)
  have used: "writable env s0 \<subseteq> ?used" by (auto simp: boot_used_def s0_def)
  have w2: "writable env st2 = writable env s0" and p2: "printer env (?L + 6) st2"
    using st2(2) by (simp_all add: stage_def)
  have ram2: "ks_ram st2 x = m x" if "x \<notin> ?used \<union> ?space" for x
    using st2(2) that used by (auto simp: stage_def m_def s0_def with_console_fields)
  have desc: "HPET_get_desc_table m' (k_acpi_rsdp (ks_kernel st2)) (literal env HPET_STD_SIGNATURE) = desc"
    if eq: "\<And>x. x \<notin> writable env st2 \<Longrightarrow> m' x = ks_ram st2 x" for m'
  proof -
    have "m' x = m x" if x: "x \<notin> ?used \<union> ?space" for x
    proof -
      have "x \<notin> writable env st2" using x used w2 by blast
      then show ?thesis using eq ram2 [OF x] by simp
    qed
    then show ?thesis
      using timer by (simp add: timer_table_def m_def st2(4) s0_def with_console_fields)
  qed
  obtain st3 where st3: "start_gdt env st2 \<bind> start_hpet env bus = Some st3" "stage env {} (?L + 6 + 2) st2 st3"
    "ks_pm st3 = ks_pm st2" "ks_idt st3 = ks_idt st2" "ks_regs st3 = fst (init_gdt (at_gdt env) (ks_regs st2))"
    "ks_kernel st3 = (ks_kernel st2)\<lparr>k_gdt := at_gdt env, k_hpet_desc := desc\<rparr>"
    by (rule boot_gdt_hpet [OF p2 _ desc]) simp_all
  have "?used \<inter> ?space = {}" using apart by (simp add: memory_apart_def Let_def m_def)
  then have "ks_ram st3 x = ks_ram st2 x" if "x \<in> ?space" for x
    using that used st3(2) w2 by (auto simp: stage_def)
  then have ready: "pages_ready env bd buf m st3" by (rule pages_ready_same [OF st2(3) st3(3)])
  show ?thesis
  proof (rule that [OF _ _ ready])
    show "stage env (?used \<union> ?space) (?L + 8) s0 st3"
      using stage_trans [OF st2(2) stage_mono [OF st3(2)]] unfolding add.assoc by simp
  qed (simp_all add: st2 st3 init_gdt_def load_gdt_def gdtr_init_def)
qed

text \<open>The structures that say what is to be mapped are as they were handed over.\<close>

lemma boot_to_paging:
  assumes p: "printer env k (with_console env bd st)" and names: "printable_names cpuid"
    and fit: "memory_fit env bd buf desc (ks_mem st)" and apart: "memory_apart env bd buf desc st"
    and timer: "timer_table env bd buf desc st" and width: "44 \<le> shift_width env"
  defines "m \<equiv> ks_ram st" and "s0 \<equiv> with_console env bd st"
  obtains st' where "start_cpu env cpuid (start_console env bd (load_bootloader_data bd st))
     \<bind> start_pmem env \<bind> (\<lambda>s. start_gdt env s \<bind> start_hpet env bus) \<bind> start_paging env bus = Some st'"
    "stage env (boot_used env bd st \<union> boot_space env bd buf m \<union> {0x999}) (cpu_lines cpuid + 9) s0 st'"
    "\<And>a. translated_addr st' a = kernel_translation bd desc m a"
    "cr3 (ks_regs st') = at_PML4 env" "bit (msrs (ks_regs st') IA32_EFER) EFER_LME"
    "ks_kernel st' = (ks_kernel s0)\<lparr>k_cpu := at_cpu env, k_pmem := at_pmem env, k_gdt := at_gdt env,
       k_hpet_desc := desc, k_pml4 := at_PML4 env\<rparr>"
    "ks_idt st' = ks_idt st" "gdtr (ks_regs st') = (GDT_sz - 1, at_gdt env)"
    "code_segment (ks_regs st') = 8" "data_segments (ks_regs st') = 16"
    "\<And>t. t \<in> tables (ks_ram st') (at_PML4 env) \<Longrightarrow> frame_of t \<subseteq> boot_space env bd buf m"
proof -
  let ?L = "cpu_lines cpuid" and ?used = "boot_used env bd st" and ?space = "boot_space env bd buf m"
  obtain st3 where st3: "start_cpu env cpuid (start_console env bd (load_bootloader_data bd st))
     \<bind> start_pmem env \<bind> (\<lambda>s. start_gdt env s \<bind> start_hpet env bus) = Some st3"
    "stage env (?used \<union> ?space) (?L + 8) s0 st3" "pages_ready env bd buf m st3"
    "ks_kernel st3 = (ks_kernel s0)\<lparr>k_cpu := at_cpu env, k_pmem := at_pmem env, k_gdt := at_gdt env, k_hpet_desc := desc\<rparr>"
    "ks_idt st3 = ks_idt st" "gdtr (ks_regs st3) = (GDT_sz - 1, at_gdt env)"
    "code_segment (ks_regs st3) = 8" "data_segments (ks_regs st3) = 16"
    by (rule boot_to_hpet [OF assms(1-5), folded m_def s0_def]) (rule that; assumption)
  have p3: "printer env (?L + 8) st3" "writable env st3 = writable env s0" "printer_space env st3 = printer_space env s0"
    and L: "?L + 8 + 1 \<le> 37"
    using st3(2) by (simp_all add: stage_def)
  have k3: "k_framebuffer (ks_kernel st3) = bd_framebuffer (bootloader_at m bd)" "k_hpet_desc (ks_kernel st3) = desc"
    by (simp_all add: st3(4) s0_def m_def with_console_fields)
  have ap: "region desc 56 \<inter> (?used \<union> ?space) = {}"
    "printer_space env s0 \<inter> (region (at_cpu env) 70 \<union> ?space) = {}"
    using apart by (auto simp: memory_apart_def Let_def m_def s0_def)
  have ram3: "ks_ram st3 x = m x" if "x \<notin> ?used \<union> ?space" for x
    using st3(2) that by (auto simp: stage_def boot_used_def m_def s0_def with_console_fields)
  have pages: "boot_pages bus st3 = kernel_pages bd desc m"
  proof (rule boot_pages_kernel [OF refl k3])
    show "frame_list (ks_mem st3) = map fst (map_frames (boot_map bd m))" using st3(3) by (simp add: pages_ready_def)
    show "ks_ram st3 x = m x" if "x \<in> region desc 56" for x using ap(1) that by (intro ram3) blast
    fix x assume "x \<in> region (k_framebuffer (ks_kernel st3)) 24"
    then have "x \<in> printer_space env st3" by (simp add: printer_space_def console_reads_def)
    with printer_space_quiet(2) [OF p3(1) quiet_refl] ap(2) have "x \<notin> ?used \<union> ?space"
      unfolding p3(2,3) by (auto simp: boot_used_def s0_def)
    then show "ks_ram st3 x = m x" by (rule ram3)
  qed
  obtain st4 where st4: "start_paging env bus st3 = Some st4"
    "stage env (?space \<union> {0x999}) (?L + 8 + 1) st3 st4"
    "\<And>a. translated_addr st4 a = kernel_translation bd desc m a"
    "cr3 (ks_regs st4) = at_PML4 env" "bit (msrs (ks_regs st4) IA32_EFER) EFER_LME"
    "ks_kernel st4 = (ks_kernel st3)\<lparr>k_pml4 := at_PML4 env\<rparr>" "ks_idt st4 = ks_idt st3"
    "gdtr (ks_regs st4) = gdtr (ks_regs st3)" "code_segment (ks_regs st4) = code_segment (ks_regs st3)"
    "data_segments (ks_regs st4) = data_segments (ks_regs st3)"
    "\<And>t. t \<in> tables (ks_ram st4) (at_PML4 env) \<Longrightarrow> frame_of t \<subseteq> ?space"
    by (rule boot_paging_on [OF p3(1) L fit apart width st3(3) [unfolded m_def] pages [unfolded m_def] k3 [unfolded m_def]
          p3(2,3) [unfolded s0_def], folded m_def]) (rule that; assumption)
  have stage: "stage env (?used \<union> ?space \<union> {0x999}) (?L + 9) s0 st4"
  proof (rule stage_trans)
    show "stage env (?used \<union> ?space \<union> {0x999}) (?L + 8) s0 st3" by (rule stage_mono [OF st3(2)]) blast
    have "stage env (?used \<union> ?space \<union> {0x999}) (?L + 8 + 1) st3 st4" by (rule stage_mono [OF st4(2)]) blast
    then show "stage env (?used \<union> ?space \<union> {0x999}) (?L + 9) st3 st4" unfolding add.assoc by simp
  qed
  have run: "start_cpu env cpuid (start_console env bd (load_bootloader_data bd st))
     \<bind> start_pmem env \<bind> (\<lambda>s. start_gdt env s \<bind> start_hpet env bus) \<bind> start_paging env bus = Some st4"
    by (simp only: st3(1) st4(1) Option.bind.bind_lunit)
  show ?thesis by (rule that [OF run stage st4(3-5) _ _ _ _ _ st4(11)]) (simp_all add: st3(4-8) st4(6-10))
qed

end
