(* ===== verification/Handlers.thy ===== *)
theory Handlers
  imports Boot_Stages
begin

text \<open>
  What the interrupt handlers of \<^verbatim>\<open>src/src/idt/interrupts.c\<close> leave on the screen, and what they need of
  the memory the boot leaves behind.
\<close>

unbundle bit_operations_syntax

section \<open>The handlers' texts\<close>

abbreviation page_fault_line :: string where "page_fault_line \<equiv> ''Page Fault Interrupt here! ''"
abbreviation division_message :: string where "division_message \<equiv> ''division by zero''"

definition handler_texts :: "string list" where
  "handler_texts = [page_fault_line @ nl, panic_line @ nl, error_format, division_message]"

text \<open>A line of plain characters fits.\<close>

lemma grid_line_fits:
  assumes "grid_shown m fb self" "\<forall>c \<in> set cs. plain_char c" "length cs < 100"
    and "unat (line cur) < 37" "max_columns cur = 100" "ConsoleCursor.column cur = 0"
  shows "line_fits m fb self cs cur"
proof -
  define w where "w = unat (glyph_width (font_at m (console_font self)))"
  define h where "h = unat (glyph_height (font_at m (console_font self)))"
  have g: "0 < w" "100 * w \<le> unat (pixels_per_scanline (framebuffer_at m fb))"
    "37 * h \<le> unat (height (framebuffer_at m fb))"
    using assms(1) by (simp_all add: grid_shown_def Let_def w_def h_def)
  have "length cs * w < 100 * w" using assms(3) g(1) by (intro mult_less_mono1)
  with g(2) have x: "length cs * w < unat (pixels_per_scanline (framebuffer_at m fb))" by linarith
  have "(unat (line cur) + 1) * h \<le> 37 * h" using assms(4) by (intro mult_le_mono1) simp
  with g(3) have y: "(unat (line cur) + 1) * h \<le> unat (height (framebuffer_at m fb))" by linarith
  show ?thesis
    using assms x y by (simp add: line_fits_def grid_shown_def Let_def plain_char_def char_glyph_def
        w_def [symmetric] h_def [symmetric])
qed

section \<open>The handlers\<close>

text \<open>A page fault prints one line where the cursor stands.\<close>

lemma page_fault_shows:
  assumes p: "printer env k st" "k < 37"
    and fmt: "string_ready env st (literal env (page_fault_line @ nl)) (chars (page_fault_line @ nl))"
    and glyphs: "glyphs_apart env st (chars page_fault_line)"
  obtains st' where "page_fault_handler env st = Some st'" "kept env st st'" "printer env (Suc k) st'"
    "text_shows st (ks_ram st') (fg_color (ks_cursor st)) (bg_color (ks_cursor st)) k (chars page_fault_line)"
proof -
  let ?cs = "chars page_fault_line"
  have r: "print_ready env st" and g: "grid_shown (ks_ram st) (fb_of st) (ks_console st)" "on_grid k (ks_cursor st)"
    using p(1) by (simp_all add: printer_def)
  have plain: "\<forall>c \<in> set ?cs. plain_char c" by (simp add: plain_char_def)
  have "line_fits (ks_ram st) (fb_of st) (ks_console st) ?cs (ks_cursor st)"
    using g(2) p(2) by (intro grid_line_fits [OF g(1) plain]) (simp_all add: on_grid_def)
  note shown = prints_line [OF r _ _ this _ _ glyphs, where ds = "[10]"]
  have gl: "text_fits (ks_ram st) (fb_of st) (ks_console st) (?cs @ [10]) (ks_cursor st)"
    "on_grid (Suc k) (fold cursor_after (?cs @ [10]) (ks_cursor st))"
    using plain by (intro grid_line [OF g p(2)]; simp)+
  obtain st' where st': "printf env (literal env (page_fault_line @ nl)) [] st = Some st'"
    "prints env (?cs @ [10]) st st'" "kept env st st'" "ks_cursor st' = fold cursor_after (?cs @ [10]) (ks_cursor st)"
    by (rule printf_prints [OF r fmt _ _ _ gl(1), where args = "[]" and L = "\<lambda>_. []"]) simp_all
  show ?thesis
  proof (rule that [OF _ st'(3)])
    show "page_fault_handler env st = Some st'" using st'(1) by (simp add: page_fault_handler_def)
    show "printer env (Suc k) st'" using gl(2) st'(4) by (intro printer_after [OF p(1) st'(3)]) simp
    have "unat (line (ks_cursor st)) = k" "ConsoleCursor.column (ks_cursor st) = 0" using g(2) by (simp_all add: on_grid_def)
    then show "text_shows st (ks_ram st') (fg_color (ks_cursor st)) (bg_color (ks_cursor st)) k ?cs"
      using shown [OF st'(2)] by (simp add: text_shows_def)
  qed
qed

text \<open>A division by zero panics, wherever the cursor stands.\<close>

lemma division_shows:
  assumes p: "printer env k st"
    and texts: "\<And>t. t \<in> set handler_texts \<Longrightarrow> string_ready env st (literal env t) (chars t)"
    and glyphs: "glyphs_apart env st (chars panic_line @ error_line (chars division_message))"
  obtains st' where "divide_by_zero_handler env st = Some st'" "kept env st st'"
    "text_shows st (ks_ram st') (ucast WHITE) (ucast BLUE) 0 (chars panic_line)"
    "text_shows st (ks_ram st') (ucast WHITE) (ucast BLUE) 1 (error_line (chars division_message))"
proof -
  have r: "print_ready env st" and g: "grid_shown (ks_ram st) (fb_of st) (ks_console st)"
    and m: "max_columns (ks_cursor st) = 100"
    using p by (simp_all add: printer_def on_grid_def)
  have s: "string_ready env st (literal env (panic_line @ nl)) (chars (panic_line @ nl))"
    "string_ready env st (literal env error_format) (chars error_format)"
    "string_ready env st (literal env division_message) (chars division_message)"
    by (rule texts; simp add: handler_texts_def)+
  have plain: "\<forall>c \<in> set (chars panic_line). plain_char c"
    "\<forall>c \<in> set (error_line (chars division_message)). plain_char c"
    by (simp_all add: plain_char_def)
  have l: "line_fits (ks_ram st) (fb_of st) (ks_console st) (chars panic_line)
      ((ks_cursor st)\<lparr>ConsoleCursor.column := 0, line := 0\<rparr>)"
    "line_fits (ks_ram st) (fb_of st) (ks_console st) (error_line (chars division_message))
      ((ks_cursor st)\<lparr>ConsoleCursor.column := 0, line := 1\<rparr>)"
    by (rule grid_line_fits [OF g]; use plain m in simp)+
  have short: "length (chars division_message) < 4000" by simp
  show ?thesis
    by (rule kpanic_two_lines [OF r s short l glyphs], rule that)
      (simp_all only: divide_by_zero_handler_def)
qed

section \<open>After a stage of the boot\<close>

lemma stage_printer: "stage env W k st st' \<Longrightarrow> printer env k st'"
  by (simp add: stage_def)

text \<open>A text the stage does not touch can be printed after it.\<close>

lemma stage_string:
  assumes "stage env W k st st'" "cstr (ks_ram st) a s" "length s < 2 ^ 16"
    and "region a (Suc (length s)) \<inter> (W \<union> writable env st) = {}"
  shows "string_ready env st' a s"
proof -
  have "cstr (ks_ram st') a s"
  proof (rule cstr_cong [OF assms(2)])
    fix x assume "x \<in> region a (Suc (length s))"
    with assms(1,4) show "ks_ram st' x = ks_ram st x" by (auto simp: stage_def)
  qed (use assms(3) in simp)
  with assms show ?thesis by (auto simp: string_ready_def stage_def)
qed

text \<open>The glyphs are those of the font handed over.\<close>

lemma stage_cells:
  assumes st: "stage env W k st st'" "console_reads (ks_ram st) (fb_of st) (ks_console st) \<inter> (W \<union> writable env st) = {}"
  defines "font \<equiv> font_at (ks_ram st) (console_font (ks_console st))"
  defines "glyph c \<equiv> region (g_bitmap (char_glyph font initial_cursor (scast (c :: u8)))) (unat (glyph_height font))"
  shows "(\<And>c. c \<in> set cs \<Longrightarrow> glyph c \<inter> writable env st = {}) \<Longrightarrow> glyphs_apart env st' cs"
    and "glyph c \<inter> (W \<union> writable env st) = {} \<Longrightarrow> cell_shows st' m fg bg ln j c = cell_shows st m fg bg ln j c"
proof -
  have f: "ks_console st' = ks_console st" "fb_of st' = fb_of st" "writable env st' = writable env st"
    and ram: "\<And>x. x \<notin> W \<union> writable env st \<Longrightarrow> ks_ram st' x = ks_ram st x"
    using st(1) by (simp_all add: stage_def)
  have "ks_ram st' x = ks_ram st x" if "x \<in> console_reads (ks_ram st) (fb_of st) (ks_console st)" for x
    using that st(2) by (intro ram) blast
  note same = console_same [of "ks_ram st" "fb_of st" "ks_console st" "ks_ram st'", OF this]
  have fnt: "font_at (ks_ram st') (console_font (ks_console st)) = font"
    and fb: "framebuffer_at (ks_ram st') (fb_of st) = framebuffer_at (ks_ram st) (fb_of st)"
    by (simp_all add: font_def same(1,4))
  have bm: "g_bitmap (char_glyph fnt cur ch) = g_bitmap (char_glyph fnt initial_cursor ch)" for fnt cur ch
    by (simp add: char_glyph_def)
  show "glyphs_apart env st' cs" if "\<And>c. c \<in> set cs \<Longrightarrow> glyph c \<inter> writable env st = {}"
    using that by (simp add: glyphs_apart_def Let_def f fnt bm [of _ "ks_cursor st'"] glyph_def)
  assume g: "glyph c \<inter> (W \<union> writable env st) = {}"
  have "glyph_color (ks_ram st') (char_glyph font ((ks_cursor st')\<lparr>fg_color := fg, bg_color := bg\<rparr>) (scast c)) y x
      = glyph_color (ks_ram st) (char_glyph font ((ks_cursor st)\<lparr>fg_color := fg, bg_color := bg\<rparr>) (scast c)) y x"
    if "y < unat (glyph_height font)" for x y
  proof (rule glyph_color_kept [OF ram that])
    fix q assume "q \<in> region (g_bitmap (char_glyph font ((ks_cursor st)\<lparr>fg_color := fg, bg_color := bg\<rparr>) (scast c)))
        (unat (glyph_height font))"
    with g show "q \<notin> W \<union> writable env st" unfolding glyph_def bm [of font "_\<lparr>fg_color := fg, bg_color := bg\<rparr>"] by blast
  qed (simp_all add: char_glyph_def)
  then show "cell_shows st' m fg bg ln j c = cell_shows st m fg bg ln j c"
    unfolding cell_shows_def Let_def f fb cell_pixel_def fnt font_def [symmetric] by simp
qed

section \<open>What the handlers need of the boot\<close>

text \<open>They are two, and what they print, and the glyphs they print it with, are in memory that the boot
  does not write to.\<close>

definition boot_written :: "layout \<Rightarrow> ptr \<Rightarrow> ptr \<Rightarrow> 'd kstate \<Rightarrow> ptr set" where
  "boot_written env bd buf st = boot_used env bd st \<union> boot_space env bd buf (ks_ram st) \<union> {0x999}"

definition handlers_ready :: "layout \<Rightarrow> ptr \<Rightarrow> ptr \<Rightarrow> 'd kstate \<Rightarrow> bool" where
  "handlers_ready env bd buf st \<longleftrightarrow>
     (let s = with_console env bd st; font = font_at (ks_ram st) (console_font (ks_console s))
      in at_divide_by_zero_handler env \<noteq> at_page_fault_handler env
        \<and> (\<forall>t \<in> set handler_texts. cstr (ks_ram st) (literal env t) (chars t)
             \<and> region (literal env t) (Suc (length t)) \<inter> boot_written env bd buf st = {})
        \<and> (\<forall>c :: u8. c < 128 \<longrightarrow> region (g_bitmap (char_glyph font initial_cursor (scast c)))
             (unat (glyph_height font)) \<inter> boot_written env bd buf st = {}))"

lemma handler_texts_short: "t \<in> set handler_texts \<Longrightarrow> length t < 2 ^ 16"
  by (auto simp: handler_texts_def)

text \<open>So when the boot is done the handlers have what they need, and show the font handed over.\<close>

lemma handlers_after_boot:
  assumes ready: "handlers_ready env bd buf st" and apart: "memory_apart env bd buf desc st"
    and st: "stage env (boot_written env bd buf st) k (with_console env bd st) s"
    and p: "printer env j (with_console env bd st)"
  shows "t \<in> set handler_texts \<Longrightarrow> string_ready env s (literal env t) (chars t)"
    and "\<forall>c \<in> set cs. plain_char c \<Longrightarrow> glyphs_apart env s cs"
    and "\<forall>c \<in> set cs. plain_char c \<Longrightarrow> text_shows s m fg bg ln cs = text_shows (with_console env bd st) m fg bg ln cs"
proof -
  let ?s = "with_console env bd st" and ?W = "boot_written env bd buf st"
  let ?font = "font_at (ks_ram ?s) (console_font (ks_console ?s))"
  have r: "ks_ram ?s = ks_ram st" by (simp add: with_console_fields)
  have W: "?W \<union> writable env ?s = ?W" by (auto simp: boot_written_def boot_used_def)
  have "printer_space env ?s \<inter> ?W = {}"
    using apart printer_space_quiet(2) [OF p quiet_refl]
    by (auto simp: memory_apart_def Let_def boot_written_def boot_used_def)
  then have "console_reads (ks_ram ?s) (fb_of ?s) (ks_console ?s) \<inter> (?W \<union> writable env ?s) = {}"
    unfolding W by (auto simp: printer_space_def)
  note cells = stage_cells [OF st this, unfolded W]
  have glyph: "region (g_bitmap (char_glyph ?font initial_cursor (scast c))) (unat (glyph_height ?font)) \<inter> ?W = {}"
    if "plain_char c" for c
    using ready that by (simp add: handlers_ready_def Let_def r plain_char_def)
  show "string_ready env s (literal env t) (chars t)" if t: "t \<in> set handler_texts"
    using ready t handler_texts_short [OF t]
    by (intro stage_string [OF st, unfolded W]) (simp_all add: handlers_ready_def Let_def r)
  show "glyphs_apart env s cs" if "\<forall>c \<in> set cs. plain_char c"
    using that glyph W by (intro cells(1)) blast
  show "text_shows s m fg bg ln cs = text_shows ?s m fg bg ln cs" if "\<forall>c \<in> set cs. plain_char c"
    using that cells(2) [OF glyph] by (simp add: text_shows_def)
qed

end
