(* ===== verification/Boot_Machine.thy ===== *)
theory Boot_Machine
  imports Handlers
begin

text \<open>
  A machine that fulfils what the boot asks for, down to the bytes of its memory: 64 page frames,
  a framebuffer, a font, the firmware's tables and the kernel's texts.
\<close>

unbundle bit_operations_syntax

section \<open>The machine\<close>

text \<open>The texts of the boot are laid out from \<open>2 ^ 24\<close> on, 256 bytes for each.\<close>

definition boot_texts :: "string list" where
  "boot_texts = boot_strings @ HPET_STD_SIGNATURE # handler_texts"

definition boot_literal :: "string \<Rightarrow> ptr" where
  "boot_literal s = word_of_nat (2 ^ 24 + 256 * length (takeWhile (\<lambda>t. t \<noteq> s) boot_texts))"

definition text_byte :: "nat \<Rightarrow> u8" where
  "text_byte n = (let s = chars (boot_texts ! (n div 256)) in if n mod 256 < length s then s ! (n mod 256) else 0)"

text \<open>
  The map, the event timer's table and the first page table are those of \<open>boot64\<close>; the
  framebuffer of \<open>100 \<times> 37\<close> pixels is at \<open>0xfee10000\<close>, the font with glyphs of one pixel at
  \<open>0x380\<close>, the RSDP at \<open>0x500\<close> and its table at \<open>0x600\<close>.
\<close>

definition boot_data :: mem where
  "boot_data = (ram boot64)(0x308 := 0xd0, 0x309 := 0x39, 0x310 := 100, 0x312 := 37, 0x314 := 100, 0x316 := 4,
     0x380 := 0xa0, 0x381 := 3, 0x388 := 1, 0x389 := 1, 0x391 := 8, 0x3a3 := 1,
     0x400 := 72, 0x401 := 80, 0x402 := 69, 0x403 := 84, 0x511 := 6, 0x604 := 40, 0x625 := 4,
     0x11f01 := 3, 0x11f08 := 0x80, 0x11f09 := 3, 0x11f11 := 1, 0x11f19 := 5)"

definition boot_ram :: mem where
  "boot_ram x = (if 0x1000000 \<le> x \<and> x < 0x1002d00 then text_byte (unat x - 2 ^ 24) else boot_data x)"

definition boot_layout :: layout where
  "boot_layout = \<lparr>at_console = 0x3000000, at_pmem = 0x3000100, at_gdt = 0x3001000, at_PML4 = 0x8000,
     at_idt = 0x3002000, at_cpu = 0x700, at_page_fault_handler = 0x3010000,
     at_divide_by_zero_handler = 0x3020000, printf_buf = 0x2000000, printf_temp_buf = 0x2002000,
     literal = boot_literal, shift_width = 64\<rparr>"

definition machine_with :: "'d \<Rightarrow> 'd kstate" where
  "machine_with d = \<lparr>ks_mem = \<lparr>ram = boot_ram, pm = pm boot64\<rparr>,
     ks_console = \<lparr>console_font = 0, console_framebuffer = 0, console_initialized = False\<rparr>,
     ks_cursor = initial_cursor, ks_idt = (\<lambda>_. read_IDT_entry 0),
     ks_regs = \<lparr>cr3 = 0, cr4 = 0, msrs = (\<lambda>_. 0), gdtr = (0, 0), idtr = (0, 0),
       code_segment = 0, data_segments = 0\<rparr>,
     ks_dev = d, ks_kernel = \<lparr>k_stack = 0, k_framebuffer = 0, k_memory = 0, k_acpi_rsdp = 0,
       k_console = 0, k_hpet_desc = 0, k_pmem = 0, k_gdt = 0, k_pml4 = 0, k_idt = 0, k_cpu = 0\<rparr>\<rparr>"

abbreviation boot_machine :: "unit kstate" where "boot_machine \<equiv> machine_with ()"

text \<open>A processor that has all the features asked for.\<close>

definition boot_cpuid :: cpuid where
  "boot_cpuid = (\<lambda>_. (0x7f7f7f7f, 0x7f7f7f7f, 0x7f7f7f7f, 0x7f7f7f7f))"

lemma boot_cpuid_facts: "printable_names boot_cpuid" "check_cpu_features boot_cpuid = CPU_SUCCESS"
proof -
  have "set (word_bytes 0x7f7f7f7f) = {0x7f}" by code_simp
  then show "printable_names boot_cpuid"
    by (simp add: boot_cpuid_def printable_names_def regs_bytes_def plain_char_def)
  show "check_cpu_features boot_cpuid = CPU_SUCCESS" by code_simp
qed

text \<open>The texts are where they are expected.\<close>

lemma boot_texts_length: "length boot_texts = 45"
  by (simp add: boot_texts_def boot_strings_def string_formats_def number_formats_def frame_formats_def boot_messages_def
      handler_texts_def)

lemma boot_texts_chars: "s \<in> set boot_texts \<Longrightarrow> 0 \<notin> set (chars s) \<and> length s < 255"
  by (auto simp: boot_texts_def boot_strings_def string_formats_def number_formats_def frame_formats_def boot_messages_def
      handler_texts_def)

lemma boot_literal_place:
  assumes "s \<in> set boot_texts"
  obtains i where "i < 45" "boot_texts ! i = s" "unat (boot_literal s) = 2 ^ 24 + 256 * i"
proof -
  let ?i = "length (takeWhile (\<lambda>t. t \<noteq> s) boot_texts)"
  have "takeWhile (\<lambda>t. t \<noteq> s) boot_texts \<noteq> boot_texts"
    using assms set_takeWhileD [of s "\<lambda>t. t \<noteq> s" boot_texts] by metis
  then have i: "?i < length boot_texts"
    by (metis length_takeWhile_le takeWhile_eq_take take_all_iff le_neq_implies_less order_refl)
  then have "boot_texts ! ?i = s" using nth_length_takeWhile by fastforce
  moreover have "unat (boot_literal s) = 2 ^ 24 + 256 * ?i"
    unfolding boot_literal_def by (rule unat_of_nat_small) (use i in \<open>simp add: boot_texts_length\<close>)
  ultimately show thesis using i by (intro that [of ?i]) (simp_all add: boot_texts_length)
qed

lemma boot_ram_text:
  assumes "s \<in> set boot_texts" "k < 256"
  shows "boot_ram (boot_literal s + word_of_nat k) = (if k < length s then chars s ! k else 0)"
proof -
  obtain i where i: "i < 45" "boot_texts ! i = s" "unat (boot_literal s) = 2 ^ 24 + 256 * i"
    by (rule boot_literal_place [OF assms(1)])
  have "unat (boot_literal s + word_of_nat k) = 2 ^ 24 + (256 * i + k)"
    using i(1) assms(2) by (simp add: unat_word_ariths i(3) unat_of_nat_small)
  then show ?thesis
    using i(1,2) assms(2) by (simp add: boot_ram_def word_le_nat_alt word_less_nat_alt text_byte_def)
qed

lemma boot_ram_data: "unat x < 2 ^ 24 \<Longrightarrow> boot_ram x = boot_data x"
  by (simp add: boot_ram_def word_le_nat_alt)

lemma boot_cstr:
  assumes "s \<in> set boot_texts"
  shows "cstr boot_ram (boot_literal s) (chars s)"
  using boot_texts_chars [OF assms] boot_ram_text [OF assms]
  by (simp add: cstr_def)

section \<open>The console\<close>

abbreviation boot_st :: "'d \<Rightarrow> 'd kstate" where "boot_st d \<equiv> with_console boot_layout 0x11f00 (machine_with d)"

lemma boot_structures:
  "bootloader_at boot_ram 0x11f00 = \<lparr>bd_framebuffer = 0x300, bd_font = 0x380, bd_memory = 0x100, bd_acpi_rsdp = 0x500\<rparr>"
  "framebuffer_at boot_ram 0x300 = \<lparr>base_address = 0xfee10000, buffer_size = 14800, width = 100,
     height = 37, pixels_per_scanline = 100, bytes_per_pixel = 4\<rparr>"
  "font_at boot_ram 0x380 = \<lparr>charsize = 1, glyph_height = 1, glyph_width = 1, glyph_buffer = 0x800\<rparr>"
  "load64 boot_ram 0x380 = 0x3a0" "hpet_address boot_ram 0x400 = 0xfee20000"
  by code_simp+

lemma boot_machine_simps:
  "ks_ram (machine_with d) = boot_ram" "ks_pm (machine_with d) = pm boot64" "at_PML4 boot_layout = 0x8000"
  "at_cpu boot_layout = 0x700" "printf_buf boot_layout = 0x2000000" "printf_temp_buf boot_layout = 0x2002000"
  "literal boot_layout = boot_literal" "shift_width boot_layout = 64"
  "ks_ram (boot_st d) = boot_ram" "fb_of (boot_st d) = 0x300" "console_font (ks_console (boot_st d)) = 0x380"
  "ks_cursor (boot_st d) = initial_cursor"
  by (simp_all add: machine_with_def boot_layout_def with_console_def load_bootloader_data_def
      Console__init_def Let_def boot_structures)

lemma boot_screen: "screen_area boot_ram 0x300 = region 0xfee10000 14804"
  by (simp add: screen_area_def boot_structures fb_area_def)

text \<open>Where the parts of memory are.\<close>

lemma boot_writable_iff:
  "x \<in> writable boot_layout (boot_st d) \<longleftrightarrow> 0xfee10000 \<le> unat x \<and> unat x < 0xfee10000 + 14804
     \<or> 0x2000000 \<le> unat x \<and> unat x < 0x2001000 \<or> 0x2002000 \<le> unat x \<and> unat x < 0x2002040"
  by (simp add: writable_def boot_machine_simps boot_screen region_interval)

lemma boot_literal_region:
  assumes "s \<in> set boot_texts" "x \<in> region (boot_literal s) (Suc (length s))"
  shows "2 ^ 24 \<le> unat x \<and> unat x < 2 ^ 24 + 256 * 45"
proof -
  obtain i where i: "i < 45" "unat (boot_literal s) = 2 ^ 24 + 256 * i"
    by (rule boot_literal_place [OF assms(1)])
  moreover have "unat (boot_literal s) + Suc (length s) \<le> 2 ^ 64"
    using boot_texts_chars [OF assms(1)] i by simp
  ultimately show ?thesis
    using assms(2) boot_texts_chars [OF assms(1)] by (simp add: region_interval)
qed

lemma boot_reads_iff:
  "x \<in> console_reads boot_ram 0x300 (ks_console (boot_st d))
     \<longleftrightarrow> 0x300 \<le> unat x \<and> unat x < 0x318 \<or> 0x380 \<le> unat x \<and> unat x < 0x398 \<or> x = 0x3a3"
  by (auto simp: console_reads_def boot_machine_simps boot_structures region_interval)

lemma boot_printer_space:
  assumes "x \<in> printer_space boot_layout (boot_st d)"
  shows "0x300 \<le> unat x \<and> unat x < 0x400 \<or> 2 ^ 24 \<le> unat x \<and> unat x < 2 ^ 24 + 256 * 45"
proof -
  have "set boot_strings \<subseteq> set boot_texts" by (auto simp: boot_texts_def)
  then show ?thesis
    using assms boot_literal_region [of _ x]
    by (auto simp: printer_space_def boot_machine_simps boot_reads_iff)
qed

text \<open>The console.\<close>

lemma boot_glyph:
  assumes "(c :: u8) < 128"
  defines "g \<equiv> unat (g_bitmap (char_glyph (font_at boot_ram 0x380) initial_cursor (scast c)))"
  shows "0x800 \<le> g" "g + 1 \<le> 0x880"
proof -
  have "unat c < 128" using assms by (simp add: word_less_nat_alt)
  then show "0x800 \<le> g" "g + 1 \<le> 0x880"
    using ascii_glyph [OF assms(1), of "0x800" 1] by (simp_all add: g_def char_glyph_def boot_structures)
qed

lemma boot_printer: "printer boot_layout 0 (boot_st d)"
proof -
  have c: "console_ready boot_ram 0x300 (ks_console (boot_st d))"
    by (auto simp: console_ready_def fb_ready_def Let_def boot_machine_simps boot_structures boot_screen
        fb_area_def region_interval)
  moreover have "buffers_apart boot_ram 0x300 (ks_console (boot_st d)) 0x2000000 0x2002000"
    by (auto simp: buffers_apart_def boot_machine_simps boot_structures boot_screen region_interval)
  moreover have "region (g_bitmap (char_glyph (font_at boot_ram 0x380) initial_cursor (scast c))) 1
      \<inter> region 0xfee10000 14804 = {}" if "c < 128" for c :: u8
    by (rule regions_apart) (use boot_glyph [OF that] in simp_all)
  ultimately have "print_ready boot_layout (boot_st d)" "grid_shown boot_ram 0x300 (ks_console (boot_st d))"
    by (simp_all add: print_ready_def grid_shown_def Let_def boot_machine_simps boot_structures boot_screen)
  moreover have "string_ready boot_layout (boot_st d) (boot_literal s) (chars s)" if "s \<in> set boot_strings" for s
  proof -
    have s: "s \<in> set boot_texts" using that by (simp add: boot_texts_def)
    have "x \<notin> writable boot_layout (boot_st d)" if "x \<in> region (boot_literal s) (Suc (length s))" for x
      using boot_literal_region [OF s that] by (auto simp: boot_writable_iff)
    then show ?thesis
      using boot_cstr [OF s] boot_texts_chars [OF s]
      by (auto simp: string_ready_def boot_machine_simps)
  qed
  moreover have "on_grid 0 initial_cursor" by (simp add: on_grid_def initial_cursor_def)
  ultimately show ?thesis by (simp add: printer_def boot_machine_simps)
qed

section \<open>The page frames\<close>

text \<open>The memory map is that of \<open>boot64\<close>.\<close>

lemma boot_ram_low: "unat x < 0x300 \<Longrightarrow> boot_ram x = ram boot64 x"
  by (subst boot_ram_data) (auto simp: boot_data_def)

lemma boot_map_separate:
  assumes "\<And>x. x \<in> S \<Longrightarrow> 0x300 \<le> unat x"
  shows "map_separate 0x100 (ram boot64) S"
proof -
  have "entries (memory_data (ram boot64) 0x100) = 1" "get_memory_descriptor 0x100 0 (ram boot64) = 0x200"
    by code_simp+
  then show ?thesis using assms by (fastforce simp: map_separate_def region_interval)
qed

lemma boot_map_64:
  "efi_map 0x100 boot_ram = efi_map 0x100 (ram boot64)"
  "get_largest_free_mem_seg 0x100 boot_ram seg = get_largest_free_mem_seg 0x100 (ram boot64) seg"
  "boot_ready 0x100 0x11f00 0x10000 (ks_mem (machine_with d))"
  "map_separate 0x100 boot_ram S = map_separate 0x100 (ram boot64) S"
proof -
  let ?R = "{x. 0x300 \<le> unat x}"
  have sep: "map_separate 0x100 (ram boot64) ?R" by (rule boot_map_separate) simp
  have same: "boot_ram x = ram boot64 x" if "x \<notin> ?R" for x using that by (simp add: boot_ram_low)
  note m = map_same [OF sep same]
  show "efi_map 0x100 boot_ram = efi_map 0x100 (ram boot64)"
    "get_largest_free_mem_seg 0x100 boot_ram seg = get_largest_free_mem_seg 0x100 (ram boot64) seg"
    "map_separate 0x100 boot_ram S = map_separate 0x100 (ram boot64) S"
    by (rule m; assumption)+
  show "boot_ready 0x100 0x11f00 0x10000 (ks_mem (machine_with d))"
    using boot_ready_same [OF sep, of "ks_mem (machine_with d)"] same boot64_ready
    by (simp add: boot_machine_simps)
qed

text \<open>What the kernel maps, and the tables that takes.\<close>

lemma boot_kernel_pages:
  "kernel_pages 0x11f00 0x400 boot_ram = map (\<lambda>k. 0x10000 + word_of_nat k * 0x1000) [0..<64]
     @ [0xfee10000, 0xfee11000, 0xfee12000, 0xfee13000, 0xfee00000, 0xfee20000]"
proof -
  have "identity_pages 0xfee10000 14800 = [0xfee10000, 0xfee11000, 0xfee12000, 0xfee13000]" by code_simp
  then show ?thesis
    by (simp add: kernel_pages_def Let_def boot_structures boot_map_64 boot64_frames comp_def)
qed

lemma boot_tables:
  "card (\<Union> (table_paths ` set (test_addr # kernel_pages 0x11f00 0x400 boot_ram))) \<le> 62"
proof -
  have dev: "table_paths 0xfee10000 = table_paths 0xfee00000" "table_paths 0xfee11000 = table_paths 0xfee00000"
    "table_paths 0xfee12000 = table_paths 0xfee00000" "table_paths 0xfee13000 = table_paths 0xfee00000"
    "table_paths 0xfee20000 = table_paths 0xfee00000"
    by (rule table_paths_region, code_simp)+
  have "table_paths ` set (test_addr # kernel_pages 0x11f00 0x400 boot_ram)
      \<subseteq> table_paths ` set [test_addr, 0x10000, 0xfee00000]"
    using boot64_table_paths dev by (auto simp: boot_kernel_pages)
  then have "\<Union> (table_paths ` set (test_addr # kernel_pages 0x11f00 0x400 boot_ram))
      \<subseteq> \<Union> (table_paths ` set [test_addr, 0x10000, 0xfee00000])" by (rule Union_mono)
  moreover have "card (\<Union> (table_paths ` set [test_addr, 0x10000, 0xfee00000])) \<le> 62"
    using table_paths_card [of "[test_addr, 0x10000, 0xfee00000]"] by simp
  moreover have "finite (\<Union> (table_paths ` set [test_addr, 0x10000, 0xfee00000]))"
    by (simp add: table_paths_def)
  ultimately show ?thesis by (meson card_mono le_trans)
qed

lemma boot_fit: "memory_fit boot_layout 0x11f00 0x10000 0x400 (ks_mem (machine_with d))"
proof -
  have "count_list (boot_states 0x11f00 0x10000 (efi_map 0x100 (ram boot64))) FREE_FRAME = 62"
    unfolding boot64_map by code_simp
  moreover have "0x8000 \<notin> boot_free 0x11f00 0x10000 (efi_map 0x100 (ram boot64))"
    using boot_free_type boot64_facts(5) by blast
  moreover have "boot_ram x = 0" if "x \<in> frame_of 0x8000" for x
  proof -
    have "0x8000 \<le> unat x" "unat x < 0x9000" using that by (simp_all add: frame_of_def region_interval)
    then show ?thesis by (subst boot_ram_data) (auto simp: boot_data_def boot64_def)
  qed
  moreover have "hw_frame 0x8000 = 0x8000" by code_simp
  ultimately show ?thesis
    using boot_tables boot64_facts(1,2,3,6) boot64_sound boot_map_64(3)
    by (simp add: memory_fit_def Let_def boot_machine_simps boot_structures boot_map_64(1,2))
qed

text \<open>The parts of memory are apart.\<close>

lemma boot_used_iff:
  "x \<in> boot_used boot_layout 0x11f00 (machine_with d)
     \<longleftrightarrow> x \<in> writable boot_layout (boot_st d) \<or> 0x700 \<le> unat x \<and> unat x < 0x746"
  by (simp add: boot_used_def boot_machine_simps region_interval)

lemma boot_space_low:
  assumes "x \<in> boot_space boot_layout 0x11f00 0x10000 boot_ram"
  shows "0x8000 \<le> unat x \<and> unat x < 0x50000"
proof -
  have "x \<in> region 0x10000 1024 \<or> x \<in> frame_of 0x8000 \<or> (\<exists>k < 64. x \<in> frame_of (0x10000 + word_of_nat k * 0x1000))"
    using assms boot_free_type [of _ "0x11f00" "0x10000" "efi_map 0x100 (ram boot64)"]
    by (auto simp: boot_space_def Let_def boot_structures boot_map_64 boot64_total boot64_frames boot_machine_simps) fastforce
  moreover have "x \<in> frame_of (0x10000 + word_of_nat k * 0x1000) \<longleftrightarrow> 0x10000 + k * 0x1000 \<le> unat x \<and> unat x < 0x11000 + k * 0x1000"
    if "k < 64" for k
    unfolding frame_of_def using boot64_frame [OF that] that by (subst region_interval) simp_all
  ultimately show ?thesis by (auto simp: frame_of_def region_interval)
qed

lemma boot_apart: "memory_apart boot_layout 0x11f00 0x10000 0x400 (machine_with d)"
proof -
  let ?s = "boot_space boot_layout 0x11f00 0x10000 boot_ram"
  have "map_separate 0x100 boot_ram (boot_used boot_layout 0x11f00 (machine_with d))"
    unfolding boot_map_64 by (rule boot_map_separate) (auto simp: boot_used_iff boot_writable_iff)
  moreover have "boot_used boot_layout 0x11f00 (machine_with d) \<inter> ?s = {}"
    using boot_space_low by (fastforce simp: boot_used_iff boot_writable_iff)
  moreover have "(printer_space boot_layout (boot_st d) \<union> region 0x400 56 \<union> {0x999}) \<inter> ?s = {}"
    using boot_space_low boot_printer_space by (fastforce simp: region_interval)
  moreover have "region 0x700 70 \<inter> (writable boot_layout (boot_st d) \<union> printer_space boot_layout (boot_st d)) = {}"
    using boot_printer_space by (fastforce simp: region_interval boot_writable_iff)
  moreover have "0x999 \<notin> printer_space boot_layout (boot_st d)"
    using boot_printer_space [of "0x999"] by auto
  moreover have "region 0x400 56 \<inter> boot_used boot_layout 0x11f00 (machine_with d) = {}"
    by (auto simp: region_interval boot_used_iff boot_writable_iff)
  ultimately show ?thesis
    by (simp add: memory_apart_def Let_def boot_machine_simps boot_structures)
qed

text \<open>The search for the timer's table reads what the boot does not write.\<close>

lemma boot_timer: "timer_table boot_layout 0x11f00 0x10000 0x400 (machine_with d)"
proof -
  have "HPET_get_desc_table m 0x500 (boot_literal ''HPET'') = 0x400"
    if "\<And>x. x \<notin> boot_used boot_layout 0x11f00 (machine_with d) \<union> boot_space boot_layout 0x11f00 0x10000 boot_ram
      \<Longrightarrow> m x = boot_ram x" for m
  proof -
    have low: "m x = boot_ram x" if "0x300 \<le> unat x" "unat x < 0x700" for x
      using that boot_space_low [of x] by (intro \<open>\<And>x. _ \<Longrightarrow> m x = boot_ram x\<close>) (auto simp: boot_used_iff boot_writable_iff)
    have "load32 m 0x510 = load32 boot_ram 0x510" "load32 m 0x604 = load32 boot_ram 0x604"
      "load32 m 0x624 = load32 boot_ram 0x624"
      by (rule load32_cong, rule low; simp add: region_interval)+
    moreover have "load32 boot_ram 0x510 = 0x600" "load32 boot_ram 0x604 = 40" "load32 boot_ram 0x624 = 0x400"
      by code_simp+
    moreover have "m (0x400 + word_of_nat i) = m (boot_literal ''HPET'' + word_of_nat i)" if "i < 4" for i
    proof -
      let ?a = "boot_literal ''HPET'' + word_of_nat i"
      have t: "''HPET'' \<in> set boot_texts" by (simp add: boot_texts_def)
      have "?a \<in> region (boot_literal ''HPET'') (Suc (length ''HPET''))"
        using that by (intro region_offset) simp_all
      from boot_literal_region [OF t this] have "m ?a = boot_ram ?a"
        using boot_space_low [of ?a]
        by (intro \<open>\<And>x. _ \<Longrightarrow> m x = boot_ram x\<close>) (auto simp: boot_used_iff boot_writable_iff)
      then have "m ?a = chars ''HPET'' ! i" using boot_ram_text [OF t, of i] that by simp
      moreover have "m (0x400 + word_of_nat i) = boot_ram (0x400 + word_of_nat i)"
        by (rule low) (use that in \<open>simp_all add: unat_word_ariths unat_of_nat_small\<close>)
      moreover have "\<forall>i < 4. boot_ram (0x400 + word_of_nat i) = chars ''HPET'' ! i" by code_simp
      then have "boot_ram (0x400 + word_of_nat i) = chars ''HPET'' ! i" using that by blast
      ultimately show ?thesis by simp
    qed
    ultimately show ?thesis
      by (simp add: HPET_get_desc_table_def get_acpi_std_header_def rsdp_at_def sdt_header_at_def sdt_entries_def
        sdt_table_entry_def Let_def find_sdt.simps strncmp_agree agree_iff)
  qed
  then show ?thesis by (simp add: timer_table_def boot_machine_simps boot_structures)
qed

text \<open>The handlers' texts and the glyphs are apart from what the boot writes.\<close>

lemma boot_written_low:
  assumes "x \<in> boot_written boot_layout 0x11f00 0x10000 (machine_with d)"
  shows "unat x < 0x800 \<or> unat x = 0x999 \<or> 0x8000 \<le> unat x \<and> unat x < 2 ^ 20 \<or> 2 ^ 25 \<le> unat x"
  using assms boot_space_low [of x]
  by (auto simp: boot_written_def boot_machine_simps boot_used_iff boot_writable_iff)

lemma boot_handlers: "handlers_ready boot_layout 0x11f00 0x10000 (machine_with d)"
proof -
  let ?W = "boot_written boot_layout 0x11f00 0x10000 (machine_with d)"
  have "at_divide_by_zero_handler boot_layout \<noteq> at_page_fault_handler boot_layout"
    by (simp add: boot_layout_def)
  moreover have "cstr boot_ram (boot_literal t) (chars t)" "region (boot_literal t) (Suc (length t)) \<inter> ?W = {}"
    if "t \<in> set handler_texts" for t
  proof -
    have t: "t \<in> set boot_texts" using that by (simp add: boot_texts_def)
    show "cstr boot_ram (boot_literal t) (chars t)" by (rule boot_cstr [OF t])
    show "region (boot_literal t) (Suc (length t)) \<inter> ?W = {}"
      using boot_literal_region [OF t] boot_written_low by fastforce
  qed
  moreover have "region (g_bitmap (char_glyph (font_at boot_ram 0x380) initial_cursor (scast c))) 1 \<inter> ?W = {}"
    if "c < 128" for c :: u8
    using boot_glyph [OF that] by (auto simp: region_interval dest!: boot_written_low)
  ultimately show ?thesis
    by (simp add: handlers_ready_def Let_def boot_machine_simps boot_structures)
qed

end
