(* ===== verification/Boot.thy ===== *)
theory Boot
  imports Boot_Machine
begin

text \<open>
  The boot as a whole, \<^verbatim>\<open>_start\<close> of \<^verbatim>\<open>src/src/kernel.c\<close>: the stages put together, and the
  machine of \<open>Boot_Machine\<close> booted.
\<close>

unbundle bit_operations_syntax

section \<open>What the kernel can reach when the boot is done\<close>

text \<open>
  The screen: the bytes of the framebuffer on the pages that \<^verbatim>\<open>identity_paging\<close> counts are mapped
  one to one, all others only where another page of the kernel's happens to be.
\<close>

lemma framebuffer_translation:
  fixes m bd
  defines "f \<equiv> framebuffer_at m (bd_framebuffer (bootloader_at m bd))"
  assumes "take_bit 12 (base_address f) = 0" "j < unat (buffer_size f)"
    and "unat (base_address f) + unat (buffer_size f) + 4096 < 2 ^ 44"
    and "\<not> same_page (base_address f + word_of_nat j) test_addr"
  shows "kernel_translation bd desc m (base_address f + word_of_nat j)
    = (if j < 4096 * (unat (buffer_size f) div 4097 + 1)
         \<or> (\<exists>p \<in> set (map fst (map_frames (boot_map bd m))) \<union> {APIC_BASE_ADDR, hpet_address m desc}.
              same_page (base_address f + word_of_nat j) p)
       then Some (base_address f + word_of_nat j) else None)"
  using assms(5) identity_pages_cover [OF assms(2,4,3)]
  by (auto simp: kernel_translation_def kernel_pages_def Let_def f_def [symmetric])

text \<open>So all of it is, up to 16 MiB; of a larger one the last page is not.\<close>

lemma framebuffer_mapped:
  fixes m bd
  defines "f \<equiv> framebuffer_at m (bd_framebuffer (bootloader_at m bd))"
  assumes "take_bit 12 (base_address f) = 0" "j < unat (buffer_size f)"
    and "unat (base_address f) + unat (buffer_size f) + 4096 < 2 ^ 44"
    and "\<not> same_page (base_address f + word_of_nat j) test_addr"
    and "unat (buffer_size f) = 4096 * k" "k \<le> 4097"
  shows "kernel_translation bd desc m (base_address f + word_of_nat j) = Some (base_address f + word_of_nat j)"
proof -
  have "k \<le> unat (buffer_size f) div 4097 + 1"
  proof (cases k)
    case (Suc l)
    then have "l * 4097 \<le> 4096 * k" using assms(7) by simp
    then have "l \<le> 4096 * k div 4097" by (simp add: less_eq_div_iff_mult_less_eq)
    then show ?thesis by (simp add: assms(6) Suc)
  qed simp
  then have "4096 * k \<le> 4096 * (unat (buffer_size f) div 4097 + 1)" by (rule mult_le_mono2)
  with assms(3) have "j < 4096 * (unat (buffer_size f) div 4097 + 1)" unfolding assms(6) by (rule less_le_trans)
  then show ?thesis using framebuffer_translation [OF assms(2-5) [unfolded f_def]] by (simp add: f_def)
qed

text \<open>The registers of the local interrupt controller.\<close>

lemma apic_registers_mapped:
  assumes "a \<in> {APIC_ID_REG, APIC_VERSION_REG, APIC_IRR_REG, LVT_CMCI_REG, LVT_LINT0_REG, LVT_LINT1_REG, LVT_ERROR_REG}"
  shows "kernel_translation bd desc m a = Some a"
proof -
  have "\<forall>a \<in> {APIC_ID_REG, APIC_VERSION_REG, APIC_IRR_REG, LVT_CMCI_REG, LVT_LINT0_REG, LVT_LINT1_REG, LVT_ERROR_REG}.
    same_page a APIC_BASE_ADDR \<and> \<not> same_page a test_addr \<and> take_bit 44 a = a" by code_simp
  then have "same_page a APIC_BASE_ADDR" "\<not> same_page a test_addr" "take_bit 44 a = a" using assms by blast+
  then show ?thesis by (auto simp: kernel_translation_def kernel_pages_def Let_def)
qed

section \<open>The boot from end to end\<close>

lemma boot_completes:
  assumes "printer env k (with_console env bd st)" "printable_names cpuid"
    and "memory_fit env bd buf desc (ks_mem st)" "memory_apart env bd buf desc st"
    and "timer_table env bd buf desc st" "44 \<le> shift_width env"
  obtains st' where "start env bus cpuid bd st = Some st'"
    "stage env (boot_written env bd buf st) (cpu_lines cpuid + 18) (with_console env bd st) st'"
    "\<And>a. translated_addr st' a = kernel_translation bd desc (ks_ram st) a"
    "cr3 (ks_regs st') = at_PML4 env" "bit (msrs (ks_regs st') IA32_EFER) EFER_LME"
    "gdtr (ks_regs st') = (GDT_sz - 1, at_gdt env)"
    "code_segment (ks_regs st') = 8" "data_segments (ks_regs st') = 16"
    "\<And>v. dispatch (idtr (ks_regs st')) (ks_idt st') v
         = (if v = DIVIDE_BY_ZERO_INDEX then Some (at_divide_by_zero_handler env, 8, False)
            else if v = PAGE_FAULT_INDEX then Some (at_page_fault_handler env, 8, True)
            else dispatch (4096, at_idt env) (ks_idt st) v)"
    "ks_kernel st' = \<lparr>k_stack = bd, k_framebuffer = bd_framebuffer (bootloader_at (ks_ram st) bd),
        k_memory = bd_memory (bootloader_at (ks_ram st) bd),
        k_acpi_rsdp = bd_acpi_rsdp (bootloader_at (ks_ram st) bd), k_console = at_console env,
        k_hpet_desc = desc, k_pmem = at_pmem env, k_gdt = at_gdt env, k_pml4 = at_PML4 env,
        k_idt = at_idt env, k_cpu = at_cpu env\<rparr>"
proof -
  let ?P = "at_PML4 env" and ?used = "boot_used env bd st" and ?space = "boot_space env bd buf (ks_ram st)"
  let ?W = "boot_written env bd buf st"
  obtain st4 where st4: "start_cpu env cpuid (start_console env bd (load_bootloader_data bd st))
     \<bind> start_pmem env \<bind> (\<lambda>s. start_gdt env s \<bind> start_hpet env bus) \<bind> start_paging env bus = Some st4"
    "stage env ?W (cpu_lines cpuid + 9) (with_console env bd st) st4"
    "\<And>a. translated_addr st4 a = kernel_translation bd desc (ks_ram st) a"
    "cr3 (ks_regs st4) = ?P" "bit (msrs (ks_regs st4) IA32_EFER) EFER_LME"
    "ks_kernel st4 = (ks_kernel (with_console env bd st))\<lparr>k_cpu := at_cpu env, k_pmem := at_pmem env,
       k_gdt := at_gdt env, k_hpet_desc := desc, k_pml4 := ?P\<rparr>"
    "ks_idt st4 = ks_idt st" "gdtr (ks_regs st4) = (GDT_sz - 1, at_gdt env)"
    "code_segment (ks_regs st4) = 8" "data_segments (ks_regs st4) = 16"
    "\<And>t. t \<in> tables (ks_ram st4) ?P \<Longrightarrow> frame_of t \<subseteq> ?space"
    by (rule boot_to_paging [OF assms, folded boot_written_def]) (rule that; assumption)
  have p4: "printer env (cpu_lines cpuid + 9) st4" and w4: "writable env st4 \<subseteq> ?used"
    using st4(2) by (auto simp: stage_def boot_used_def)
  obtain st' where st': "start_idt env st4 \<bind> print_acpi_version env \<bind> print_devices env bus \<bind> start_timer env bus = Some st'"
    "stage env {} (cpu_lines cpuid + 9 + 9) st4 st'" "ks_kernel st' = (ks_kernel st4)\<lparr>k_idt := at_idt env\<rparr>"
    "ks_idt st' = fst (fst (init_idt (at_page_fault_handler env) (at_divide_by_zero_handler env) (at_idt env)
        (ks_idt st4, ks_regs st4)))"
    "ks_regs st' = APIC_enable ((ks_regs st4)\<lparr>idtr := (4096, at_idt env)\<rparr>)"
    by (rule boot_devices [OF p4]) simp_all
  have "?used \<inter> ?space = {}" using assms(4) by (simp add: memory_apart_def Let_def)
  then have "x \<notin> writable env st4" if "t \<in> tables (ks_ram st4) ?P" "x \<in> frame_of t" for t x
    using that(2) st4(11) [OF that(1)] w4 by blast
  then have eq: "ks_ram st' x = ks_ram st4 x" if "t \<in> tables (ks_ram st4) ?P" "x \<in> frame_of t" for t x
    using that st'(2) unfolding stage_def by blast
  have P: "hw_frame ?P = ?P" using assms(3) by (simp add: memory_fit_def Let_def)
  have tr: "translated_addr st' a = kernel_translation bd desc (ks_ram st) a" for a
    using translate_same [OF eq] st4(3) [of a]
    by (simp add: translated_addr_def st'(5) APIC_enable_fields st4(4) P)
  have run: "start env bus cpuid bd st = Some st'"
    unfolding start_stages st4(1) by (simp add: st'(1) del: bind_assoc)
  have "stage env ?W (cpu_lines cpuid + 18) (with_console env bd st) st'"
    using stage_trans [OF st4(2) stage_mono [OF st'(2) empty_subsetI]] unfolding add.assoc by simp
  from that [OF run this tr] show ?thesis
    by (simp add: st'(3-5) st4(4-10) APIC_enable_fields init_idt_vectors with_console_fields)
qed

section \<open>Properties\<close>

text \<open>Memory the boot does not write to is as it was.\<close>

lemma stage_outside:
  assumes "stage env (boot_written env bd buf st) k (with_console env bd st) st'"
    and "x \<notin> boot_used env bd st \<union> boot_space env bd buf (ks_ram st)" "x \<noteq> 0x999"
  shows "ks_ram st' x = ks_ram st x"
  using assms by (auto simp: stage_def boot_written_def boot_used_def with_console_fields)

section \<open>Properties\<close>



end
