(* ===== verification/Interrupts.thy ===== *)
theory Interrupts
  imports Boot
begin

text \<open>
  Interrupts in the kernel the boot leaves behind: the processor finds the gate of its vector in the
  table of \<^verbatim>\<open>src/src/idt/idt.c\<close> and runs the handler of \<^verbatim>\<open>src/src/idt/interrupts.c\<close> it leads to.
\<close>

unbundle bit_operations_syntax

section \<open>Delivery\<close>

text \<open>The code at an address: that of one of the two handlers.\<close>

definition code_at :: "layout \<Rightarrow> ptr \<Rightarrow> ('d kstate \<Rightarrow> 'd kstate option) option" where
  "code_at env a = (if a = at_page_fault_handler env then Some (page_fault_handler env)
     else if a = at_divide_by_zero_handler env then Some (divide_by_zero_handler env) else None)"

text \<open>The state in which the handler enters its endless loop. What the processor saves of the
  interrupted code is not modelled, as no handler returns to it.\<close>

definition interrupt :: "layout \<Rightarrow> u8 \<Rightarrow> 'd kstate \<Rightarrow> 'd kstate option" where
  "interrupt env vector st = do {
     (handler, _, _) \<leftarrow> dispatch (idtr (ks_regs st)) (ks_idt st) vector;
     run \<leftarrow> code_at env handler;
     run st
   }"

section \<open>Properties\<close>



end
