(* ===== verification/Boot_Devices.thy ===== *)
theory Boot_Devices
  imports Boot
begin

text \<open>
  What the boot does to the devices: the accesses of \<^verbatim>\<open>_start\<close> (\<^verbatim>\<open>src/src/kernel.c\<close>) to the local APIC and
  the event timer, over a bus on which reading changes no register.
\<close>

unbundle bit_operations_syntax

section \<open>Registers that reading does not change\<close>

text \<open>The two devices hold the same in the registers at \<open>A\<close>.\<close>

definition same_registers :: "'d bus \<Rightarrow> ptr set \<Rightarrow> 'd \<Rightarrow> 'd \<Rightarrow> bool" where
  "same_registers bus A d d' \<longleftrightarrow> (\<forall>b \<in> A. fst (rd64 bus d' b) = fst (rd64 bus d b))"

lemma same_registers_refl: "same_registers bus A d d"
  by (simp add: same_registers_def)

lemma same_registers_trans:
  "same_registers bus A d d1 \<Longrightarrow> same_registers bus A d1 d2 \<Longrightarrow> same_registers bus A d d2"
  by (simp add: same_registers_def)

context mmio_devices
begin

text \<open>The functions of the drivers that read.\<close>

lemma driver_reads:
  "same_registers bus A d (snd (APIC_get_local_id bus d))"
  "same_registers bus A d (snd (APIC_get_version bus d))"
  "same_registers bus A d (snd (HPET_get_no_timers bus m desc d))"
  "same_registers bus A d (snd (HPET_is_counter_enabled bus m desc d))"
  "same_registers bus A d (snd (HPET_get_main_counter bus m desc d))"
  "same_registers bus A d (snd (HPET_get_mmio_sz bus m desc d))"
  "same_registers bus A d (snd (HTimer_get_compar bus m desc n d))"
  by (simp_all add: same_registers_def APIC_get_local_id_def APIC_get_version_def HPET_get_no_timers_def
      HPET_is_counter_enabled_def HPET_get_main_counter_def HPET_get_mmio_sz_def HTimer_get_compar_def
      HTimer_read_reg_def HPET_read_reg_def mmio_read8_def mmio_read32_def mmio_read64_def case_prod_beta
      rd8_keeps rd32_keeps rd64_keeps)

end

section \<open>Steps and the devices\<close>

text \<open>Printing does not touch them.\<close>

lemma printf_devices: "printf env fmt args st = Some st' \<Longrightarrow> ks_dev st' = ks_dev st \<and> ks_regs st' = ks_regs st"
  by (auto simp: printf_def)

lemma messages_devices:
  "kprint_err env msg st = Some st' \<Longrightarrow> ks_dev st' = ks_dev st"
  "kprint_succ env msg st = Some st' \<Longrightarrow> ks_dev st' = ks_dev st"
  "kprint_info env msg st = Some st' \<Longrightarrow> ks_dev st' = ks_dev st"
  "print_cpu_err env msg st = Some st' \<Longrightarrow> ks_dev st' = ks_dev st"
  "kpanic env msg st = Some st' \<Longrightarrow> ks_dev st' = ks_dev st"
  "kprint_pmem_info env st = Some st' \<Longrightarrow> ks_dev st' = ks_dev st"
  "kprint_cpu_info env st = Some st' \<Longrightarrow> ks_dev st' = ks_dev st"
  by (auto simp: kprint_err_def kprint_succ_def kprint_info_def print_cpu_err_def kpanic_def blue_screen_def
      kprint_pmem_info_def kprint_cpu_info_def Let_def bind_eq_Some_conv dest!: printf_devices)

lemma start_steps_devices:
  "start_cpu env cpuid st = Some st' \<Longrightarrow> ks_dev st' = ks_dev st"
  "start_pmem env st = Some st' \<Longrightarrow> ks_dev st' = ks_dev st"
  "start_gdt env st = Some st' \<Longrightarrow> ks_dev st' = ks_dev st"
  "start_idt env st = Some st' \<Longrightarrow> ks_dev st' = ks_dev st"
  "print_acpi_version env st = Some st' \<Longrightarrow> ks_dev st' = ks_dev st"
  "ks_dev (start_console env bd st) = ks_dev st"
  by (auto simp: start_cpu_def start_pmem_def start_gdt_def start_idt_def print_acpi_version_def check_cpu_state_def
      start_console_def Let_def bind_eq_Some_conv case_prod_beta split: if_splits dest!: messages_devices)

lemma start_hpet_devices:
  assumes "start_hpet env bus st = Some st'" "k_acpi_rsdp (ks_kernel st) = rsdp"
  shows "ks_dev st' = HPET_enable_counter bus (ks_ram st)
    (HPET_get_desc_table (ks_ram st) rsdp (literal env HPET_STD_SIGNATURE)) (ks_dev st)"
  using assms by (auto simp: start_hpet_def HPET_init_def Let_def dest!: messages_devices)

lemma print_device_devices:
  "print_device env fmt rd st = Some st' \<Longrightarrow> ks_dev st' = snd (rd (ks_dev st))"
  by (auto simp: print_device_def case_prod_beta dest!: printf_devices)

lemma start_timer_devices:
  assumes "start_timer env bus st = Some st'"
  shows "ks_dev st' = snd (HTimer_get_compar bus (ks_ram st) (k_hpet_desc (ks_kernel st)) 0
      (HTimer_set_one_shot bus (ks_ram st) (k_hpet_desc (ks_kernel st)) 0 1000 (ks_dev st)))"
    and "ks_regs st' = APIC_enable (ks_regs st)"
  using assms by (auto simp: start_timer_def print_device_def case_prod_beta Let_def dest!: printf_devices)

context mmio_devices
begin

lemma init_paging_devices:
  assumes "init_paging env bus st = Some (st', p)"
  shows "same_registers bus A (ks_dev st) (ks_dev st')"
  using assms driver_reads(6)
  by (auto simp: init_paging_def identity_paging_memory_def virtual_store8_def Let_def case_prod_beta
      bind_eq_Some_conv split: if_splits dest!: messages_devices)

lemma start_paging_devices:
  assumes "start_paging env bus st = Some st'"
  shows "same_registers bus A (ks_dev st) (ks_dev st')"
  using assms by (auto simp: start_paging_def bind_eq_Some_conv dest!: messages_devices init_paging_devices)

lemma keeps_bind:
  assumes "\<And>s. r = Some s \<Longrightarrow> same_registers bus A d (ks_dev s)"
    and "\<And>s s'. f s = Some s' \<Longrightarrow> same_registers bus A (ks_dev s) (ks_dev s')"
    and "r \<bind> f = Some s'"
  shows "same_registers bus A d (ks_dev s')"
proof -
  obtain s where "r = Some s" "f s = Some s'" using assms(3) by (auto simp: bind_eq_Some_conv)
  from assms(1) [OF this(1)] assms(2) [OF this(2)] show ?thesis by (rule same_registers_trans)
qed

lemma print_device_keeps:
  assumes "\<And>d. same_registers bus A d (snd (rd d))" "print_device env fmt rd st = Some st'"
  shows "same_registers bus A (ks_dev st) (ks_dev st')"
  using assms(1) [of "ks_dev st"] print_device_devices [OF assms(2)] by simp

lemma print_devices_keeps:
  "print_devices env bus st = Some st' \<Longrightarrow> same_registers bus A (ks_dev st) (ks_dev st')"
  unfolding print_devices_def Let_def
  by (erule keeps_bind [rotated 2], erule print_device_keeps [rotated], rule driver_reads)+
    (erule print_device_keeps [rotated], rule driver_reads)

lemma report_keeps:
  assumes "start_idt env st \<bind> (\<lambda>st. print_acpi_version env st \<bind> print_devices env bus) = Some st'"
  shows "same_registers bus A (ks_dev st) (ks_dev st')"
proof -
  obtain f g where f: "start_idt env st = Some f" "print_acpi_version env f = Some g" "print_devices env bus g = Some st'"
    using assms by (auto simp: bind_eq_Some_conv)
  then show ?thesis
    using print_devices_keeps [OF f(3)] start_steps_devices(4) [OF f(1)] start_steps_devices(5) [OF f(2)] by simp
qed

lemma start_timer_registers:
  assumes "start_timer env bus st = Some st'" "k_hpet_desc (ks_kernel st) = desc" "hpet_address (ks_ram st) desc = hpet_address m desc"
    and "HTimer_get_timer_reg_ptr m desc 0 TIMER_CONFIG_REG \<in> A" "HTimer_get_timer_reg_ptr m desc 0 TIMER_COMPAR_REG \<in> A"
    and "b \<in> A"
  defines "d \<equiv> wr64 bus (HTimer_get_timer_reg_ptr m desc 0 TIMER_CONFIG_REG) 0xc (ks_dev st)"
  shows "fst (rd64 bus d b) = (if b = HTimer_get_timer_reg_ptr m desc 0 TIMER_CONFIG_REG then 0xc else fst (rd64 bus (ks_dev st) b))"
    and "fst (rd64 bus (ks_dev st') b) = (if b = HTimer_get_timer_reg_ptr m desc 0 TIMER_COMPAR_REG
      then fst (HPET_get_main_counter bus m desc d) + 10000000 else fst (rd64 bus d b))"
proof -
  let ?o = "HTimer_set_one_shot bus (ks_ram st) desc 0 1000 (ks_dev st)"
  note r = hpet_address_registers [OF assms(3)]
  show d: "fst (rd64 bus d b) = (if b = HTimer_get_timer_reg_ptr m desc 0 TIMER_CONFIG_REG then 0xc else fst (rd64 bus (ks_dev st) b))"
    using assms(4,6) by (simp add: d_def wr_rd wr_other)
  have "fst (rd64 bus (ks_dev st') b) = fst (rd64 bus ?o b)"
    using assms(6) driver_reads(7) by (simp add: start_timer_devices(1) [OF assms(1)] assms(2) same_registers_def)
  then show "fst (rd64 bus (ks_dev st') b) = (if b = HTimer_get_timer_reg_ptr m desc 0 TIMER_COMPAR_REG
      then fst (HPET_get_main_counter bus m desc d) + 10000000 else fst (rd64 bus d b))"
    using one_shot_arms [of "ks_ram st" desc 0 b 1000 "ks_dev st"] assms(4-6) d timer_registers_apart(3) [of m desc 0]
    by (simp add: r HPET_get_main_counter_def HPET_read_reg_def d_def)
qed

end

section \<open>The states in between\<close>

lemma boot_device_states:
  assumes "printer env k (with_console env bd st)" "printable_names cpuid"
    and "memory_fit env bd buf desc (ks_mem st)" and apart: "memory_apart env bd buf desc st"
    and timer: "timer_table env bd buf desc st" and "44 \<le> shift_width env" and test: "0x999 \<notin> region desc 56"
  obtains st3 st4 st5 s where "start env bus cpuid bd st = Some s"
    "ks_dev st3 = HPET_enable_counter bus (ks_ram st) desc (ks_dev st)"
    "start_paging env bus st3 = Some st4"
    "start_idt env st4 \<bind> (\<lambda>st. print_acpi_version env st \<bind> print_devices env bus) = Some st5"
    "start_timer env bus st5 = Some s" "k_hpet_desc (ks_kernel st5) = desc"
    "hpet_address (ks_ram st5) desc = hpet_address (ks_ram st) desc"
    "hpet_address (ks_ram s) desc = hpet_address (ks_ram st) desc"
proof -
  let ?L = "cpu_lines cpuid" and ?used = "boot_used env bd st" and ?space = "boot_space env bd buf (ks_ram st)"
  let ?s0 = "with_console env bd st"
  obtain s where s: "start env bus cpuid bd st = Some s" "stage env (boot_written env bd buf st) (?L + 18) ?s0 s"
    by (rule boot_completes [OF assms(1-6)])
  obtain st2 where st2: "start_cpu env cpuid (start_console env bd (load_bootloader_data bd st)) \<bind> start_pmem env = Some st2"
    "stage env (?used \<union> ?space) (?L + 6) ?s0 st2" "ks_kernel st2 = (ks_kernel ?s0)\<lparr>k_cpu := at_cpu env, k_pmem := at_pmem env\<rparr>"
    by (rule boot_to_pmem [OF assms(1-4)])
  obtain st4 where st4: "start_cpu env cpuid (start_console env bd (load_bootloader_data bd st))
     \<bind> start_pmem env \<bind> (\<lambda>s. start_gdt env s \<bind> start_hpet env bus) \<bind> start_paging env bus = Some st4"
    "stage env (boot_written env bd buf st) (?L + 9) ?s0 st4"
    "ks_kernel st4 = (ks_kernel ?s0)\<lparr>k_cpu := at_cpu env, k_pmem := at_pmem env, k_gdt := at_gdt env,
       k_hpet_desc := desc, k_pml4 := at_PML4 env\<rparr>"
    by (rule boot_to_paging [OF assms(1-6), folded boot_written_def]) (rule that; assumption)
  have L: "?L + 6 + 1 \<le> 37" "?L + 9 + 8 \<le> 37" by simp_all
  obtain c where c: "start_gdt env st2 = Some c" "stage env {} (?L + 6 + 1) st2 c"
    "k_acpi_rsdp (ks_kernel c) = bd_acpi_rsdp (bootloader_at (ks_ram st) bd)"
    by (rule boot_gdt [OF stage_printer [OF st2(2)] L(1)]) (rule that, assumption, assumption, simp add: quiet_def st2(3) with_console_fields)
  obtain st3 where st3: "start_hpet env bus c = Some st3" "start_paging env bus st3 = Some st4"
    using st4(1) by (auto simp: st2(1) c(1) bind_eq_Some_conv)
  obtain st5 where st5: "start_idt env st4 \<bind> (\<lambda>st. print_acpi_version env st \<bind> print_devices env bus) = Some st5"
    "stage env {} (?L + 9 + 8) st4 st5" "k_hpet_desc (ks_kernel st5) = desc"
    by (rule boot_print_devices [OF stage_printer [OF st4(2)] L(2)]) (rule that, assumption, assumption, simp add: quiet_def st4(3))
  have last: "start_timer env bus st5 = Some s"
    using s(1) st5(1) unfolding start_stages st4(1) by (auto simp: bind_eq_Some_conv)
  have w: "writable env c = writable env ?s0" "writable env st4 = writable env ?s0" "writable env ?s0 \<subseteq> ?used"
    using c(2) st2(2) st4(2) by (auto simp: stage_def boot_used_def)
  have out: "ks_ram c x = ks_ram st x" if "x \<notin> ?used \<union> ?space" for x
    using that c(2) st2(2) w(3) by (auto simp: stage_def with_console_fields)
  have desc: "x \<notin> ?used \<union> ?space" "x \<noteq> 0x999" if "x \<in> region desc 56" for x
    using that apart test by (auto simp: memory_apart_def Let_def)
  have ac: "hpet_address (ks_ram c) desc = hpet_address (ks_ram st) desc"
    using desc(1) by (intro hpet_address_same out)
  have out5: "ks_ram st5 x = ks_ram st x" if "x \<notin> ?used \<union> ?space" "x \<noteq> 0x999" for x
    using that st5(2) stage_outside [OF st4(2) that] w(2,3) by (auto simp: stage_def)
  have "HPET_get_desc_table (ks_ram c) (bd_acpi_rsdp (bootloader_at (ks_ram st) bd)) (literal env HPET_STD_SIGNATURE) = desc"
    using timer out by (simp add: timer_table_def)
  then have "ks_dev st3 = HPET_enable_counter bus (ks_ram c) desc (ks_dev c)"
    using start_hpet_devices [OF st3(1) c(3)] by simp
  also have "\<dots> = HPET_enable_counter bus (ks_ram st) desc (ks_dev c)"
    by (simp add: enable_counter_modify hpet_address_registers [OF ac])
  also have "ks_dev c = ks_dev st"
    using st2(1) start_steps_devices(3) [OF c(1)]
    by (auto simp: bind_eq_Some_conv start_steps_devices(6) load_bootloader_data_def Let_def dest!: start_steps_devices(1,2))
  finally show thesis
    using desc out5 stage_outside [OF s(2)]
    by (intro that [OF s(1) _ st3(2) st5(1) last st5(3)] hpet_address_same) blast+
qed

section \<open>Properties\<close>



end
