(* ===== verification/Formats.thy ===== *)
theory Formats
  imports Paging_Entries Gdt Idt Apic Hpet
begin

text \<open>
  The formats the kernel shares with the processor and the devices, taken together: the packed
  structures of \<^verbatim>\<open>memory/paging.h\<close>, \<^verbatim>\<open>gdt/gdt.h\<close>, \<^verbatim>\<open>idt/idt.h\<close>, \<^verbatim>\<open>acpi/apic/lvt.h\<close>,
  \<^verbatim>\<open>acpi/hpet/hpet.h\<close> and \<^verbatim>\<open>acpi/hpet/timer.h\<close>.
\<close>

section \<open>Structures that fill a word\<close>

text \<open>The fields of a structure fill the word: each word is the layout of exactly one structure.\<close>

definition fills_word :: "('s \<Rightarrow> 'w::len word) \<Rightarrow> ('w word \<Rightarrow> 's) \<Rightarrow> bool" where
  "fills_word lay read \<longleftrightarrow> (\<forall>e. read (lay e) = e) \<and> (\<forall>w. lay (read w) = w)"

lemma fills_wordI: "(\<And>e. read (lay e) = e) \<Longrightarrow> (\<And>w. lay (read w) = w) \<Longrightarrow> fills_word lay read"
  by (simp add: fills_word_def)

section \<open>Properties\<close>


end
