(* ===== verification/Cpuid.thy ===== *)
theory Cpuid
  imports Apic
begin

text \<open>
  The assembly routine \<^verbatim>\<open>get_cpuid\<close> of \<^verbatim>\<open>src/src/cpu/cpu.asm\<close>, instruction by instruction: the
  registers it uses, its blocks, the jumps between them. The other theories use what is proved
  here: the caller of \<^verbatim>\<open>get_cpuid\<close> finds the four results of the instruction behind the pointers.
\<close>

unbundle bit_operations_syntax

section \<open>Blocks\<close>

text \<open>The registers and the memory; the labels of the source.\<close>

record asm_state =
  rax :: u64
  rbx :: u64
  rcx :: u64
  rdx :: u64
  rsi :: u64
  rdi :: u64
  r8 :: u64
  r10 :: u64
  r11 :: u64
  r12 :: u64
  r13 :: u64
  asm_mem :: mem

datatype cpuid_label = Get_cpuid | Check_eax_param | Check_ebx_param | Check_ecx_param
  | Check_edx_param | Return | Ret_eax_param | Ret_ebx_param | Ret_ecx_param | Ret_edx_param

text \<open>
  A write to a 32-bit register clears the upper half. For the leaves the kernel asks for the
  instruction does not look at \<open>ecx\<close>, so that \<open>cpuid\<close> is a function of \<open>eax\<close> alone.
\<close>

definition cpuid_instr :: "cpuid \<Rightarrow> asm_state \<Rightarrow> asm_state" where
  "cpuid_instr cpuid s = (let (a, b, c, d) = cpuid (ucast (rax s))
     in s\<lparr>rax := ucast a, rbx := ucast b, rcx := ucast c, rdx := ucast d\<rparr>)"

definition mov_dword :: "u64 \<Rightarrow> u64 \<Rightarrow> asm_state \<Rightarrow> asm_state" where
  "mov_dword p v s = s\<lparr>asm_mem := store32 p (ucast v) (asm_mem s)\<rparr>"

text \<open>A block is run up to the next label or jump. \<^verbatim>\<open>.return\<close> ends the routine.\<close>

fun cpuid_block :: "cpuid \<Rightarrow> cpuid_label \<Rightarrow> asm_state \<Rightarrow> cpuid_label \<times> asm_state" where
  "cpuid_block cpuid Get_cpuid s =
     (let s1 = s\<lparr>r10 := rsi s\<rparr>;
          s2 = s1\<lparr>r11 := rdx s1\<rparr>;
          s3 = s2\<lparr>r12 := rcx s2\<rparr>;
          s4 = s3\<lparr>r13 := r8 s3\<rparr>;
          s5 = s4\<lparr>rax := ucast (ucast (rdi s4) :: u32)\<rparr>
      in (Check_eax_param, cpuid_instr cpuid s5))"
| "cpuid_block cpuid Check_eax_param s = (if r10 s \<noteq> 0 then (Ret_eax_param, s) else (Check_ebx_param, s))"
| "cpuid_block cpuid Check_ebx_param s = (if r11 s \<noteq> 0 then (Ret_ebx_param, s) else (Check_ecx_param, s))"
| "cpuid_block cpuid Check_ecx_param s = (if r12 s \<noteq> 0 then (Ret_ecx_param, s) else (Check_edx_param, s))"
| "cpuid_block cpuid Check_edx_param s = (if r13 s \<noteq> 0 then (Ret_edx_param, s) else (Return, s))"
| "cpuid_block cpuid Return s = (Return, s)"
| "cpuid_block cpuid Ret_eax_param s = (Check_ebx_param, mov_dword (r10 s) (rax s) s)"
| "cpuid_block cpuid Ret_ebx_param s = (Check_ecx_param, mov_dword (r11 s) (rbx s) s)"
| "cpuid_block cpuid Ret_ecx_param s = (Check_edx_param, mov_dword (r12 s) (rcx s) s)"
| "cpuid_block cpuid Ret_edx_param s = (Return, mov_dword (r13 s) (rdx s) s)"

text \<open>No block is run twice: the labels are left in this order.\<close>

fun blocks_left :: "cpuid_label \<Rightarrow> nat" where
  "blocks_left Get_cpuid = 9"
| "blocks_left Check_eax_param = 8"
| "blocks_left Ret_eax_param = 7"
| "blocks_left Check_ebx_param = 6"
| "blocks_left Ret_ebx_param = 5"
| "blocks_left Check_ecx_param = 4"
| "blocks_left Ret_ecx_param = 3"
| "blocks_left Check_edx_param = 2"
| "blocks_left Ret_edx_param = 1"
| "blocks_left Return = 0"

lemma blocks_left_less:
  "l \<noteq> Return \<Longrightarrow> blocks_left (fst (cpuid_block cpuid l s)) < blocks_left l"
  by (cases l) (simp_all add: Let_def)

function cpuid_run :: "cpuid \<Rightarrow> cpuid_label \<Rightarrow> asm_state \<Rightarrow> asm_state" where
  "cpuid_run cpuid l s = (if l = Return then s
     else cpuid_run cpuid (fst (cpuid_block cpuid l s)) (snd (cpuid_block cpuid l s)))"
  by pat_completeness auto
termination
  by (relation "measure (\<lambda>(cpuid, l, s). blocks_left l)") (simp_all add: case_prod_beta blocks_left_less)

declare cpuid_run.simps [simp del]

lemma cpuid_run_Return: "cpuid_run cpuid Return s = s"
  by (simp add: cpuid_run.simps)

lemma cpuid_run_block:
  "l \<noteq> Return \<Longrightarrow> cpuid_run cpuid l s = (case cpuid_block cpuid l s of (l', s') \<Rightarrow> cpuid_run cpuid l' s')"
  by (subst cpuid_run.simps) (simp add: case_prod_beta)

text \<open>A check and the block it jumps to: a store, unless the pointer is \<^verbatim>\<open>NULL\<close>.\<close>

definition store_out :: "ptr \<Rightarrow> u32 \<Rightarrow> mem \<Rightarrow> mem" where
  "store_out p v m = (if p \<noteq> 0 then store32 p v m else m)"

lemma cpuid_run_checks:
  "cpuid_run cpuid Check_eax_param s
    = cpuid_run cpuid Check_ebx_param (s\<lparr>asm_mem := store_out (r10 s) (ucast (rax s)) (asm_mem s)\<rparr>)"
  "cpuid_run cpuid Check_ebx_param s
    = cpuid_run cpuid Check_ecx_param (s\<lparr>asm_mem := store_out (r11 s) (ucast (rbx s)) (asm_mem s)\<rparr>)"
  "cpuid_run cpuid Check_ecx_param s
    = cpuid_run cpuid Check_edx_param (s\<lparr>asm_mem := store_out (r12 s) (ucast (rcx s)) (asm_mem s)\<rparr>)"
  "cpuid_run cpuid Check_edx_param s = s\<lparr>asm_mem := store_out (r13 s) (ucast (rdx s)) (asm_mem s)\<rparr>"
proof -
  note out = store_out_def mov_dword_def cpuid_run_Return
  show "cpuid_run cpuid Check_eax_param s
    = cpuid_run cpuid Check_ebx_param (s\<lparr>asm_mem := store_out (r10 s) (ucast (rax s)) (asm_mem s)\<rparr>)"
    by (simp add: cpuid_run_block [of Check_eax_param] cpuid_run_block [of Ret_eax_param] out)
  show "cpuid_run cpuid Check_ebx_param s
    = cpuid_run cpuid Check_ecx_param (s\<lparr>asm_mem := store_out (r11 s) (ucast (rbx s)) (asm_mem s)\<rparr>)"
    by (simp add: cpuid_run_block [of Check_ebx_param] cpuid_run_block [of Ret_ebx_param] out)
  show "cpuid_run cpuid Check_ecx_param s
    = cpuid_run cpuid Check_edx_param (s\<lparr>asm_mem := store_out (r12 s) (ucast (rcx s)) (asm_mem s)\<rparr>)"
    by (simp add: cpuid_run_block [of Check_ecx_param] cpuid_run_block [of Ret_ecx_param] out)
  show "cpuid_run cpuid Check_edx_param s = s\<lparr>asm_mem := store_out (r13 s) (ucast (rdx s)) (asm_mem s)\<rparr>"
    by (simp add: cpuid_run_block [of Check_edx_param] cpuid_run_block [of Ret_edx_param] out)
qed

section \<open>The stores\<close>

text \<open>The pointers with the values that go there; the pairs whose pointer is not \<^verbatim>\<open>NULL\<close> in turn.\<close>

definition cpuid_outputs :: "cpuid \<Rightarrow> asm_state \<Rightarrow> (ptr \<times> u32) list" where
  "cpuid_outputs cpuid s = (let (a, b, c, d) = cpuid (ucast (rdi s))
     in filter (\<lambda>(p, v). p \<noteq> 0) [(rsi s, a), (rdx s, b), (rcx s, c), (r8 s, d)])"

definition store_outputs :: "(ptr \<times> u32) list \<Rightarrow> mem \<Rightarrow> mem" where
  "store_outputs = fold (\<lambda>(p, v). store32 p v)"

lemma cpuid_run_result:
  assumes e: "cpuid (ucast (rdi s)) = (a, b, c, d)"
  shows "cpuid_run cpuid Get_cpuid s = s\<lparr>rax := ucast a, rbx := ucast b, rcx := ucast c, rdx := ucast d,
    r10 := rsi s, r11 := rdx s, r12 := rcx s, r13 := r8 s,
    asm_mem := store_outputs (cpuid_outputs cpuid s) (asm_mem s)\<rparr>"
proof -
  have u: "(ucast (ucast w :: u64) :: u32) = w" for w :: u32
    by (rule bit_word_eqI) (simp add: bit_simps)
  have "store_outputs (cpuid_outputs cpuid s) m
      = store_out (r8 s) d (store_out (rcx s) c (store_out (rdx s) b (store_out (rsi s) a m)))" for m
    by (simp add: cpuid_outputs_def e store_outputs_def store_out_def)
  then show ?thesis
    by (simp add: e u cpuid_run_block [of Get_cpuid] cpuid_run_checks cpuid_instr_def)
qed

lemma store_outputs_outside:
  "(\<And>p v. (p, v) \<in> set ps \<Longrightarrow> x \<notin> region p 4) \<Longrightarrow> store_outputs ps m x = m x"
proof (induction ps arbitrary: m)
  case (Cons a ps)
  obtain p v where a: "a = (p, v)" by fastforce
  have "store_outputs ps (store32 p v m) x = store32 p v m x"
    by (rule Cons.IH) (rule Cons.prems, rule list.set_intros(2))
  with Cons.prems [of p v] show ?case by (simp add: store_outputs_def a store32_outside)
qed (simp add: store_outputs_def)

lemma store_outputs_load:
  assumes "sorted_wrt (\<lambda>(p, _) (q, _). region p 4 \<inter> region q 4 = {}) ps" "(p, v) \<in> set ps"
  shows "load32 (store_outputs ps m) p = v"
  using assms
proof (induction ps arbitrary: m)
  case (Cons a ps)
  obtain q w where a: "a = (q, w)" by fastforce
  have s: "store_outputs (a # ps) m = store_outputs ps (store32 q w m)"
    by (simp add: store_outputs_def a)
  show ?case
  proof (cases "(p, v) \<in> set ps")
    case False
    then have "p = q" "v = w" using Cons.prems a by auto
    moreover have "load32 (store_outputs ps (store32 q w m)) q = load32 (store32 q w m) q"
      using Cons.prems(1) a by (intro load32_cong store_outputs_outside) fastforce
    ultimately show ?thesis by (simp add: s)
  qed (use Cons s in auto)
qed simp

section \<open>Properties\<close>

text \<open>C20. The assembly routine \<^verbatim>\<open>get_cpuid\<close> (cpu.asm) returns, and where the variables its pointers point to
  do not overlap, each pointer that is not \<^verbatim>\<open>NULL\<close> then points to its register's result of the
  instruction for the leaf in \<^verbatim>\<open>edi\<close>, and no other byte of memory has changed. It keeps none of
  the registers \<^verbatim>\<open>rbx\<close>, \<^verbatim>\<open>r12\<close> and \<^verbatim>\<open>r13\<close>, which the calling convention gives to the caller.\<close>

theorem get_cpuid_stores:
  assumes "sorted_wrt (\<lambda>(p, _) (q, _). region p 4 \<inter> region q 4 = {}) (cpuid_outputs cpuid s)"
  shows "let s' = cpuid_run cpuid Get_cpuid s; (a, b, c, d) = cpuid (ucast (rdi s)) in
    (rsi s \<noteq> 0 \<longrightarrow> load32 (asm_mem s') (rsi s) = a) \<and> (rdx s \<noteq> 0 \<longrightarrow> load32 (asm_mem s') (rdx s) = b)
    \<and> (rcx s \<noteq> 0 \<longrightarrow> load32 (asm_mem s') (rcx s) = c) \<and> (r8 s \<noteq> 0 \<longrightarrow> load32 (asm_mem s') (r8 s) = d)
    \<and> (\<forall>x. (\<forall>p \<in> {rsi s, rdx s, rcx s, r8 s}. p \<noteq> 0 \<longrightarrow> x \<notin> region p 4) \<longrightarrow> asm_mem s' x = asm_mem s x)
    \<and> rbx s' = ucast b \<and> r12 s' = rcx s \<and> r13 s' = r8 s"
proof -
  obtain a b c d where e: "cpuid (ucast (rdi s)) = (a, b, c, d)" by (metis prod_cases4)
  note r = cpuid_run_result [of cpuid s a b c d, OF e]
  have m: "(p, v) \<in> set (cpuid_outputs cpuid s) \<longleftrightarrow>
      p \<noteq> 0 \<and> (p, v) \<in> {(rsi s, a), (rdx s, b), (rcx s, c), (r8 s, d)}" for p v
    by (auto simp: cpuid_outputs_def e)
  have "asm_mem (cpuid_run cpuid Get_cpuid s) x = asm_mem s x"
    if "\<forall>p \<in> {rsi s, rdx s, rcx s, r8 s}. p \<noteq> 0 \<longrightarrow> x \<notin> region p 4" for x
    unfolding r using that m by (simp, intro store_outputs_outside) auto
  then show ?thesis
    using store_outputs_load [OF assms] m by (simp add: r e Let_def)
qed

theorem get_cpuid_stores_witness:
  "let s = \<lparr>rax = 0, rbx = 7, rcx = 0x2008, rdx = 0x2004, rsi = 0, rdi = 1, r8 = 0x200c, r10 = 0,
      r11 = 0, r12 = 0, r13 = 0, asm_mem = (\<lambda>_. 0)\<rparr>;
      s' = cpuid_run (\<lambda>leaf. (leaf, leaf + 1, leaf + 2, leaf + 3)) Get_cpuid s
   in load32 (asm_mem s') 0x2004 = 2 \<and> load32 (asm_mem s') 0x200c = 4 \<and> asm_mem s' 0 = 0 \<and> rbx s' = 2"
proof -
  define s where "s = \<lparr>rax = 0, rbx = 7, rcx = 0x2008, rdx = 0x2004, rsi = 0, rdi = 1, r8 = 0x200c, r10 = 0,
      r11 = 0, r12 = 0, r13 = 0, asm_mem = (\<lambda>_. 0)\<rparr>"
  let ?f = "\<lambda>leaf :: u32. (leaf, leaf + 1, leaf + 2, leaf + 3)"
  have o: "cpuid_outputs ?f s = [(0x2004, 2), (0x2008, 3), (0x200c, 4)]"
    by (simp add: cpuid_outputs_def s_def)
  have "region 0x2004 4 \<inter> region 0x2008 4 = {}" "region 0x2004 4 \<inter> region 0x200c 4 = {}"
    "region 0x2008 4 \<inter> region 0x200c 4 = {}"
    by (rule regions_apart; simp)+
  then have "sorted_wrt (\<lambda>(p, _) (q, _). region p 4 \<inter> region q 4 = {}) (cpuid_outputs ?f s)"
    by (simp add: o)
  from get_cpuid_stores [OF this] show ?thesis
    unfolding s_def [symmetric] Let_def by (auto simp: s_def region_interval)
qed

end
