(* ===== verification/Bitmap.thy ===== *)
theory Bitmap
  imports Libc
begin

text \<open>
  The bitmap of \<^verbatim>\<open>src/src/bitmap.c\<close>: a structure of a size and a pointer to the bytes that hold
  the fields, the first field in the most significant bit of the first byte.
\<close>

unbundle bit_operations_syntax

section \<open>Operations\<close>

text \<open>The packed structure: \<^verbatim>\<open>size\<close> at offset 0, the pointer \<^verbatim>\<open>buffer\<close> at offset 8.\<close>

record Bitmap =
  bitmap_size :: u64
  bitmap_buffer :: ptr

definition bitmap_at :: "mem \<Rightarrow> ptr \<Rightarrow> Bitmap" where
  "bitmap_at m self = \<lparr>bitmap_size = load64 m self, bitmap_buffer = load64 m (self + 8)\<rparr>"

definition get_bitmap_offset :: "u64 \<Rightarrow> u64 \<times> u8" where
  "get_bitmap_offset index = (index div 8, ucast (index mod 8))"

text \<open>The shifts are made in \<^verbatim>\<open>int\<close>, of 32 bits.\<close>

definition Bitmap_get :: "ptr \<Rightarrow> u64 \<Rightarrow> mem \<Rightarrow> bool" where
  "Bitmap_get self index m =
     (let (byte_offset, bit_offset) = get_bitmap_offset index;
          result = load8 m (bitmap_buffer (bitmap_at m self) + byte_offset)
      in push_bit (unat bit_offset) (ucast result :: u32) AND 0x80 \<noteq> 0)"

definition Bitmap_set :: "ptr \<Rightarrow> u64 \<Rightarrow> u8 \<Rightarrow> mem \<Rightarrow> mem" where
  "Bitmap_set self index value m =
     (let (byte_offset, bit_offset) = get_bitmap_offset index;
          bit_pattern = ucast (drop_bit (unat bit_offset) (0x80 :: u32)) :: u8;
          p = bitmap_buffer (bitmap_at m self) + byte_offset;
          m1 = store8 p (load8 m p AND NOT bit_pattern) m
      in if value \<noteq> 0 then
           let q = bitmap_buffer (bitmap_at m1 self) + byte_offset
           in store8 q (load8 m1 q OR bit_pattern) m1
         else m1)"

definition Bitmap_init :: "u64 \<Rightarrow> ptr \<Rightarrow> u64 \<Rightarrow> mem \<Rightarrow> mem \<times> ptr" where
  "Bitmap_init no_fields buffer buff_size m =
     (if no_fields > (buff_size - 8) * 8 then (m, 0)
      else (store64 (buffer + 8) buffer (store64 buffer no_fields (memset buffer 0 buff_size m)),
            buffer))"

section \<open>Reading back\<close>

text \<open>The bit of a byte that holds field \<open>index\<close>.\<close>

definition field_bit :: "u64 \<Rightarrow> nat" where
  "field_bit index = 7 - unat index mod 8"

lemma unat_mod_8: "unat (ucast (index mod 8 :: u64) :: u8) = unat index mod 8"
proof -
  have "unat index mod 8 < 8" by simp
  then have "unat index mod 8 < 2 ^ 8" by (rule less_trans) simp
  then show ?thesis
    by (simp add: unsigned_ucast_eq unat_mod_distrib take_bit_nat_eq_self)
qed

lemma and_0x80: "w AND (0x80 :: u32) \<noteq> 0 \<longleftrightarrow> bit w 7"
proof -
  have "(0x80 :: u32) = push_bit 7 1" by simp
  then show ?thesis by (simp only: and_exp_eq_0_iff_not_bit push_bit_of_1 not_not)
qed

lemma Bitmap_get_bit:
  "Bitmap_get self index m \<longleftrightarrow>
     bit (load8 m (bitmap_buffer (bitmap_at m self) + index div 8)) (field_bit index)"
proof -
  have "unat index mod 8 < 8" by simp
  then show ?thesis
    unfolding Bitmap_get_def get_bitmap_offset_def Let_def prod.case and_0x80 unat_mod_8 field_bit_def
    by (auto simp: bit_simps)
qed

lemma bit_pattern:
  "ucast (drop_bit (unat index mod 8) (0x80 :: u32)) = (push_bit (field_bit index) 1 :: u8)"
proof -
  have "unat index mod 8 < 8" by simp
  then have "unat index mod 8 \<in> {0, 1, 2, 3, 4, 5, 6, 7}" by auto
  then show ?thesis by (auto simp: field_bit_def)
qed

text \<open>Where the bytes of the fields do not overlap the structure itself.\<close>

lemma Bitmap_set_apply:
  assumes "bitmap_buffer (bitmap_at m self) + index div 8 \<notin> region self 16"
  defines "p \<equiv> bitmap_buffer (bitmap_at m self) + index div 8"
  shows "bitmap_at (Bitmap_set self index value m) self = bitmap_at m self"
    and "Bitmap_set self index value m =
      store8 p (if value \<noteq> 0 then load8 m p OR push_bit (field_bit index) 1
                else load8 m p AND NOT (push_bit (field_bit index) 1)) m"
proof -
  have sub: "region (self + 8) 8 \<subseteq> region self 16" "region self 8 \<subseteq> region self 16"
    by (rule region_sub, simp_all)+
  then have "p \<notin> region (self + 8) 8" "p \<notin> region self 8"
    using assms(1) unfolding p_def by blast+
  then have same: "bitmap_at (store8 p v m) self = bitmap_at m self" for v
    by (simp add: bitmap_at_def load64_store8_disjoint)
  have or: "(b AND NOT c) OR c = b OR c" for b c :: u8
    by (rule bit_word_eqI) (auto simp: bit_simps)
  show "Bitmap_set self index value m =
      store8 p (if value \<noteq> 0 then load8 m p OR push_bit (field_bit index) 1
                else load8 m p AND NOT (push_bit (field_bit index) 1)) m"
    unfolding Bitmap_set_def get_bitmap_offset_def Let_def prod.case unat_mod_8 bit_pattern
      p_def [symmetric] same
    by (auto simp: or store8_def fun_upd_upd load8_def)
  then show "bitmap_at (Bitmap_set self index value m) self = bitmap_at m self"
    by (simp add: same)
qed

lemma field_position:
  "index div 8 = index' div 8 \<and> field_bit index = field_bit index' \<longleftrightarrow> index = (index' :: u64)"
proof
  assume eq: "index div 8 = index' div 8 \<and> field_bit index = field_bit index'"
  have "unat index mod 8 < 8" "unat index' mod 8 < 8" by simp_all
  then have "unat index mod 8 = unat index' mod 8"
    using eq unfolding field_bit_def by linarith
  moreover have "unat index div 8 = unat index' div 8"
    using arg_cong [OF conjunct1 [OF eq], of unat] by (simp add: unat_div_distrib)
  ultimately show "index = index'" by (metis div_mult_mod_eq word_unat_eq_iff)
qed simp

text \<open>The first eight bytes of the fields of a new bitmap are its own size.\<close>

lemma init_bytes:
  fixes m :: mem and buffer :: ptr
  assumes "\<not> no_fields > (buff_size - 8) * 8" "k < 8"
  defines "m' \<equiv> fst (Bitmap_init no_fields buffer buff_size m)"
  shows "bitmap_at m' buffer = \<lparr>bitmap_size = no_fields, bitmap_buffer = buffer\<rparr>"
    and "load8 m' (buffer + word_of_nat k) = ucast (drop_bit (8 * k) no_fields)"
proof -
  let ?z = "memset buffer 0 buff_size m"
  have m': "m' = store64 (buffer + 8) buffer (store64 buffer no_fields ?z)"
    using assms(1) by (simp add: m'_def Bitmap_init_def)
  have out: "x \<notin> region (buffer + 8) 8" if "x \<in> region buffer 8" for x
  proof -
    have "x \<in> region (off_ptr buffer 8) 8 \<longleftrightarrow> 8 \<le> unat (x - buffer) \<and> unat (x - buffer) < 8 + 8"
      by (rule region_shift) simp_all
    with that show ?thesis by (auto simp: off_ptr_def region_iff)
  qed
  then have "region buffer 8 \<inter> region (buffer + 8) 8 = {}" by blast
  then show "bitmap_at m' buffer = \<lparr>bitmap_size = no_fields, bitmap_buffer = buffer\<rparr>"
    unfolding m' by (simp add: bitmap_at_def load64_store64_disjoint)
  have "buffer + word_of_nat k \<in> region buffer 8" using assms(2) by (intro region_offset) simp_all
  then show "load8 m' (buffer + word_of_nat k) = ucast (drop_bit (8 * k) no_fields)"
    using out assms(2)
    by (simp add: m' load8_def store64_outside) (simp add: store64_def store_le_apply unat_of_nat_small)
qed

section \<open>A new bitmap\<close>

text \<open>\<^verbatim>\<open>Bitmap_init\<close> (bitmap.c) refuses a bitmap of more than \<open>8 * (buff_size - 8)\<close> fields.
  Otherwise it puts the structure at the start of the buffer and makes the same buffer hold the
  fields, so that the first 64 fields are not clear: they read the bits of the bitmap's size.\<close>

lemma Bitmap_init_fields:
  "(no_fields > (buff_size - 8) * 8 \<longrightarrow> Bitmap_init no_fields buffer buff_size m = (m, 0))
   \<and> (\<not> no_fields > (buff_size - 8) * 8 \<longrightarrow>
        snd (Bitmap_init no_fields buffer buff_size m) = buffer
        \<and> (\<forall>i < 64. Bitmap_get buffer i (fst (Bitmap_init no_fields buffer buff_size m))
             = bit no_fields (8 * (unat i div 8) + (7 - unat i mod 8))))"
proof (intro conjI impI allI)
  show "Bitmap_init no_fields buffer buff_size m = (m, 0)" if "no_fields > (buff_size - 8) * 8"
    using that by (simp add: Bitmap_init_def)
  assume ok: "\<not> no_fields > (buff_size - 8) * 8"
  then show "snd (Bitmap_init no_fields buffer buff_size m) = buffer"
    by (simp add: Bitmap_init_def)
  fix i :: u64 assume "i < 64"
  then have "unat i < 64" by (simp add: word_less_nat_alt)
  then have k: "unat i div 8 < 8" by simp
  have "i div 8 = word_of_nat (unat i div 8)"
    by (simp add: word_unat_eq_iff unat_div_distrib unat_of_nat_small div_less_mono
        less_le_trans [OF k])
  moreover have "7 - unat i mod 8 < 8" by simp
  ultimately show "Bitmap_get buffer i (fst (Bitmap_init no_fields buffer buff_size m))
      = bit no_fields (8 * (unat i div 8) + (7 - unat i mod 8))"
    using init_bytes [OF ok k, of buffer m]
    by (simp add: Bitmap_get_bit field_bit_def bit_simps)
qed

lemma Bitmap_init_first_field:
  "Bitmap_get 0x100 0 (fst (Bitmap_init 128 0x100 24 (\<lambda>_. 0)))"
  using Bitmap_init_fields [of 24 128 "0x100" "\<lambda>_. 0"] by (simp add: bit_numeral_rec)

section \<open>Properties\<close>

text \<open>C27. A field of a bitmap reads back as it was last set and keeps its value when another
  field is set (\<^verbatim>\<open>Bitmap_get\<close> and \<^verbatim>\<open>Bitmap_set\<close> of bitmap.c), where the byte that is set is not
  one of the bitmap's own structure.\<close>

theorem Bitmap_get_set:
  assumes "bitmap_buffer (bitmap_at m self) + i div 8 \<notin> region self 16"
  shows "Bitmap_get self j (Bitmap_set self i v m)
    = (if j = i then v \<noteq> 0 else Bitmap_get self j m)"
proof -
  note st = Bitmap_set_apply [OF assms, of v]
  have lt: "field_bit k < 8" for k by (simp add: field_bit_def)
  show ?thesis
  proof (cases "j div 8 = i div 8")
    case True
    then have "j = i \<longleftrightarrow> field_bit i = field_bit j" using field_position [of j i] by auto
    then show ?thesis
      unfolding Bitmap_get_bit st(1) unfolding st(2)
      using True lt [of i] lt [of j] by (auto simp: bit_simps)
  next
    case False
    then have "j \<noteq> i" by auto
    then show ?thesis
      unfolding Bitmap_get_bit st(1) unfolding st(2) using False by auto
  qed
qed

text \<open>A bitmap at address 0 whose fields are at \<open>0x100\<close>.\<close>

theorem Bitmap_get_set_witness:
  "Bitmap_get 0 13 (Bitmap_set 0 13 1 ((\<lambda>_. 0)(9 := 1)))
   \<and> \<not> Bitmap_get 0 12 (Bitmap_set 0 13 1 ((\<lambda>_. 0)(9 := 1)))"
proof -
  have "bitmap_buffer (bitmap_at ((\<lambda>_. 0)(9 := 1)) 0) + 13 div 8 = 0x101" by code_simp
  then have "bitmap_buffer (bitmap_at ((\<lambda>_. 0)(9 := 1)) 0) + 13 div 8 \<notin> region 0 16"
    by (simp add: region_iff)
  note gs = Bitmap_get_set [OF this, of _ 1]
  have "\<not> Bitmap_get 0 12 ((\<lambda>_. 0)(9 := 1))" by code_simp
  with gs [of 13] gs [of 12] show ?thesis by simp
qed

end
