(* ===== verification/Spec2Isabelle.thy ===== *)
theory Spec2Isabelle
  imports Interrupts Boot_Devices Formats Cpuid Bitmap Acpi Apic Console_Text Libc Mmap
begin

text \<open>
  A model of the myOS kernel and the theorems that say what it does.

  The program. \<^verbatim>\<open>src/src/\<close> is a 64-bit kernel in C with a little assembly. A UEFI boot loader calls
  \<^verbatim>\<open>_start\<close> (kernel.c) with the framebuffer, a font, the memory map and the ACPI tables. The kernel
  clears the screen (console/, framebuffer/), reads the processor's description (cpu/), builds the
  array of page frames (memory/pmem.c, memory/mmap.c), loads its segments (gdt/), switches the event
  timer on (acpi/, acpi/hpet/), builds the page tables and turns to them (memory/paging.c), installs
  two interrupt handlers (idt/), prints what it has found, arms a timer and loops for ever. Messages go
  through \<^verbatim>\<open>printf\<close> (libc/stdlib.c) and kutils.c.

  The theories, in the order of the imports.
  \<^item> \<open>Prelude\<close>: the machine's integers as words of their width, the \<^verbatim>\<open>for\<close> loops of the source
    (\<open>for_bound\<close>: the bound is evaluated anew in every round) and the rule of invariants for them, facts
    on words, lists and options; \<open>Memory\<close>: a flat memory of bytes, little-endian loads and stores,
    regions of addresses; \<open>Bitfields\<close>: bit-fields of structures as slices of a word.
  \<^item> \<open>Machine\<close>: bit macros of kutils.h, the registers and the assembly routines of cpu.asm and
    paging.asm, memory-mapped registers over an abstract bus (cpu/mmio.h).
  \<^item> \<open>Libc\<close>: the routines of libc/stdlib.c. \<open>Bitmap\<close>: bitmap.c.
  \<^item> \<open>Framebuffer\<close> (framebuffer/), \<open>Console\<close> (console/console.c), \<open>Console_Text\<close> (what text leaves on
    the screen).
  \<^item> \<open>Acpi\<close>, \<open>Apic\<close>, \<open>Hpet\<close>: acpi/ and its subdirectories.
  \<^item> \<open>Mmap\<close>, \<open>Pmem\<close>, \<open>Pmem_Init\<close>, \<open>Pmem_Pool\<close>: the memory map and the physical memory manager, its
    operations, its initialisation, and its specification as a list of frames with their states.
  \<^item> \<open>Paging_Entries\<close>, \<open>Paging\<close>: the entry formats and the operations of memory/paging.c;
    \<open>Page_Tree\<close>: the processor's walk and the tree of tables; \<open>Paging_Map\<close>: building tables with
    frames from any allocator that keeps a contract; \<open>Paging_Pmem\<close>: the kernel's allocator keeps it,
    and what the mapping routines do to the translation; \<open>Boot_Memory\<close>: booting the manager
    prepares paging.
  \<^item> \<open>Cpu\<close>, \<open>Gdt\<close>, \<open>Idt\<close>: cpu/cpu.c, gdt/, idt/idt.c; \<open>Cpuid\<close>: the routine \<^verbatim>\<open>get_cpuid\<close> of cpu/cpu.asm,
    block by block; \<open>Formats\<close>: the packed structures shared with the hardware, together.
  \<^item> \<open>Kutils\<close>: the state of the whole kernel, \<^verbatim>\<open>printf\<close>, the messages, \<^verbatim>\<open>kpanic\<close>, the interrupt
    handlers; \<open>Messages\<close>: what they leave on the screen; \<open>Paging_Init\<close>: \<^verbatim>\<open>init_paging\<close>; \<open>Kernel\<close>:
    \<^verbatim>\<open>_start\<close>.
  \<^item> \<open>Boot_Text\<close>: every message of the boot is one line of the screen; \<open>Boot_Stages\<close>: what each step of
    \<^verbatim>\<open>_start\<close> leaves to the next; \<open>Handlers\<close>: what the two interrupt handlers (idt/interrupts.c) show,
    and what they need of the boot; \<open>Boot_Machine\<close>: a machine that can be booted, byte by byte;
    \<open>Boot\<close>: the boot as a whole; \<open>Interrupts\<close>: the exceptions after it; \<open>Boot_Devices\<close>: what it
    does to the timer and the local interrupt controller.

  How state is modelled. What pointers reach is in one memory, a function from 64-bit addresses to
  bytes: the framebuffer, the font, strings, the memory map, the ACPI tables, the array of page
  frames, the page tables, the processor's structure, the stack buffers. The static objects that
  are only used by name are records (the manager's counters, the console, the cursor, the registers,
  the interrupt table). An operation takes the state and returns the new one; \<open>None\<close> stands for a call
  that does not return (an endless loop, a division by zero, a page fault) or asks for a variable
  argument that is not there. Endless loops the program means to enter, at the end of \<^verbatim>\<open>_start\<close> and
  of the handlers, are modelled up to their entry. Integers keep their widths and wrap around; an
  \<^verbatim>\<open>int\<close> that is added to a pointer is sign-extended. Loops without a bound are
  \<open>partial_function\<close>s, so that returning is part of what is proved; the others are recursive functions
  with a measure. There is no fuel.

  What is a parameter: the \<^verbatim>\<open>cpuid\<close> instruction and the devices behind the bus (the locale
  \<open>mmio_registers\<close> states that registers hold what is written to them, and is interpreted on a bus of
  plain memory); the addresses of static objects, buffers and string literals, and the width of the
  type the compiler shifts a bit-field in (\<open>layout\<close>).

  The interfaces. \<open>frame_op\<close> (\<open>Pmem\<close>) is the contract of an operation that moves a frame from one
  state to another, interpreted on the manager's four operations; \<open>page_frames\<close> (\<open>Paging_Map\<close>) is
  what the page tables need of an allocator, interpreted on \<^verbatim>\<open>pmem_request_frame\<close>; \<open>mmio_registers\<close>
  (\<open>Machine\<close>) is what the drivers need of a device, and \<open>mmio_devices\<close>, which extends it, what the whole
  boot needs: no read, of whatever address, changes a register.

  What is shown. For paging, every mapping routine is one update of the processor's address translation
  and writes nowhere but to the frame array, the tables and free frames; \<^verbatim>\<open>init_paging\<close> leaves frames,
  framebuffer and devices mapped one to one. For the manager, its operations refine those
  on a list of frames, keep the counters' invariant in any order, and the initialisation builds the
  list the memory map describes, in a state that paging can start from. For the console, \<^verbatim>\<open>printf\<close>
  prints the text its format describes and that text is on the screen pixel by pixel, up to
  \<^verbatim>\<open>kpanic\<close>. For the boot, \<^verbatim>\<open>_start\<close> gets through all its steps to its endless loop, with paging,
  segments and interrupts in force, where the conditions on memory that the steps rely on hold; a
  machine on which they do is given; the lemmas before that property say which bytes of the screen
  and which registers the kernel then reaches. From there a page fault and a division by zero run
  their handlers, whose lines are on the screen, and the timer is armed a second ahead of the main
  counter that the boot has switched on (at the 100 ns a tick that the kernel takes for granted). The
  library routines meet their specifications or fail to return exactly where stated; the drivers
  leave the registers they mean to. Each property is stated in the text above its theorem; those
  whose hypotheses could fail are applied to a concrete machine right after it.

  What the model does not cover. Caches of translations and the privilege of accesses: the kernel's
  own accesses after \<^verbatim>\<open>cr3\<close> is loaded are modelled as accesses to physical memory, which the one-to-one
  mapping justifies, except the one to the test page. The state the processor saves on an interrupt.
  Registers an assembly routine clobbers, but for those of
  \<^verbatim>\<open>get_cpuid\<close>, whose callers in C are modelled with the instruction's results in place of the variables
  the routine stores them in. The overlap of the stack with other memory: hypotheses say
  where buffers lie. The boot loader, the linker script, the font's data and the Makefile, which are
  no code of the kernel, and acpi/apic/madt.c, which is empty.
\<close>

end
